(* ===== verification/Prelude.thy ===== *)
theory Prelude
  imports Complex_Main "HOL-Library.AList" "HOL-Library.Multiset"
begin

text \<open>
  Shared vocabulary of the development: the Python exceptions the program can raise as
  values, the result type \<open>pyerr + 'a\<close> with its sequencing operators, and the generic
  lemmas on lists that several components use.

  A Python expression that may raise is a value of \<open>pyerr + 'a\<close>: \<open>Inl e\<close> is the raised
  exception, \<open>Inr x\<close> the value.  \<open>bind_r\<close> is the sequencing of two such expressions,
  \<open>map_r\<close> the comprehension \<open>[f(x) for x in xs]\<close>, \<open>fold_r\<close> a \<open>for\<close> loop whose body
  updates a state and may raise.  The last error, \<open>Unmodelled\<close>, is no Python exception: a model
  returns it on the inputs it does not cover.
\<close>

named_theorems result_simps \<open>inversion of sequenced results\<close>

datatype pyerr =
    AttributeError
  | TypeError
  | KeyError
  | IndexError
  | ValueError string
  | RuntimeError string
  | Unmodelled

type_synonym 'a result = "pyerr + 'a"

definition bind_r :: "'e + 'a \<Rightarrow> ('a \<Rightarrow> 'e + 'b) \<Rightarrow> 'e + 'b" where
  "bind_r m f = (case m of Inl e \<Rightarrow> Inl e | Inr x \<Rightarrow> f x)"

lemma bind_r_Inl [simp]: "bind_r (Inl e) f = Inl e"
  and bind_r_Inr [simp]: "bind_r (Inr x) f = f x"
  by (simp_all add: bind_r_def)

lemma bind_r_cong [fundef_cong]:
  "m = m' \<Longrightarrow> (\<And>x. m' = Inr x \<Longrightarrow> f x = g x) \<Longrightarrow> bind_r m f = bind_r m' g"
  by (auto simp: bind_r_def split: sum.split)

lemma bind_r_eq_Inr [result_simps]: "bind_r m f = Inr y \<longleftrightarrow> (\<exists>x. m = Inr x \<and> f x = Inr y)"
  by (cases m) auto

lemma bind_r_eq_Inl [result_simps]:
  "bind_r m f = Inl e \<longleftrightarrow> m = Inl e \<or> (\<exists>x. m = Inr x \<and> f x = Inl e)"
  by (cases m) auto

lemma bind_r_assoc: "bind_r (bind_r m f) g = bind_r m (\<lambda>x. bind_r (f x) g)"
  by (cases m) auto

lemma bind_r_if [simp]:
  "bind_r (if b then m else n) f = (if b then bind_r m f else bind_r n f)"
  by simp

lemma not_Inl_iff: "(\<forall>e. m \<noteq> Inl e) \<longleftrightarrow> (\<exists>x. m = Inr x)"
  by (cases m) auto

primrec map_r :: "('a \<Rightarrow> 'e + 'b) \<Rightarrow> 'a list \<Rightarrow> 'e + 'b list" where
  "map_r f [] = Inr []"
| "map_r f (x # xs) = bind_r (f x) (\<lambda>y. bind_r (map_r f xs) (\<lambda>ys. Inr (y # ys)))"

lemma map_r_eq_Inr: "map_r f xs = Inr ys \<longleftrightarrow> list_all2 (\<lambda>x y. f x = Inr y) xs ys"
  by (induction xs arbitrary: ys) (auto simp: bind_r_eq_Inr list_all2_Cons1)

lemma map_r_Inr_map: "(\<And>x. x \<in> set xs \<Longrightarrow> f x = Inr (g x)) \<Longrightarrow> map_r f xs = Inr (map g xs)"
  by (induction xs) auto

lemma map_r_total: "(\<exists>ys. map_r f xs = Inr ys) \<longleftrightarrow> (\<forall>x \<in> set xs. \<exists>y. f x = Inr y)"
  by (induction xs) (auto simp: bind_r_eq_Inr)

lemma map_r_append:
  "map_r f (xs @ ys) = bind_r (map_r f xs) (\<lambda>us. bind_r (map_r f ys) (\<lambda>vs. Inr (us @ vs)))"
proof (induction xs)
  case Nil
  show ?case by (cases "map_r f ys") auto
next
  case (Cons x xs)
  then show ?case by (cases "f x"; cases "map_r f xs"; cases "map_r f ys") auto
qed

primrec fold_r :: "('s \<Rightarrow> 'a \<Rightarrow> 'e + 's) \<Rightarrow> 's \<Rightarrow> 'a list \<Rightarrow> 'e + 's" where
  "fold_r f s [] = Inr s"
| "fold_r f s (x # xs) = bind_r (f s x) (\<lambda>s'. fold_r f s' xs)"

lemma fold_r_append: "fold_r f s (xs @ ys) = bind_r (fold_r f s xs) (\<lambda>s'. fold_r f s' ys)"
  by (induction xs arbitrary: s) (auto simp: bind_r_assoc)

lemma fold_r_invariant:
  assumes "fold_r f s xs = Inr t" "P s"
    and "\<And>s x t. x \<in> set xs \<Longrightarrow> P s \<Longrightarrow> f s x = Inr t \<Longrightarrow> P t"
  shows "P t"
  using assms
proof (induction xs arbitrary: s)
  case Nil
  then show ?case by simp
next
  case (Cons x xs)
  from Cons.prems(1) obtain u where u: "f s x = Inr u" "fold_r f u xs = Inr t"
    by (auto simp: bind_r_eq_Inr)
  with Cons.prems have "P u" by (meson list.set_intros(1))
  with u Cons.prems(3) show ?case by (intro Cons.IH [of u]) auto
qed

lemma fold_r_prefix_invariant:
  assumes "fold_r f s xs = Inr t" "P pre s"
    and "\<And>pre s x t. P pre s \<Longrightarrow> f s x = Inr t \<Longrightarrow> P (pre @ [x]) t"
  shows "P (pre @ xs) t"
  using assms(1,2)
proof (induction xs arbitrary: s pre)
  case (Cons x xs)
  from Cons.prems(1) obtain u where u: "f s x = Inr u" "fold_r f u xs = Inr t"
    by (auto simp: bind_r_eq_Inr)
  from assms(3) [OF Cons.prems(2) u(1)] have "P (pre @ [x]) u" .
  from Cons.IH [OF u(2) this] show ?case by simp
qed simp

text \<open>
  Effects that may raise, on an explicit state: what was done before the exception stays done.
\<close>

definition bind_s ::
  "('s \<Rightarrow> ('e + 'a) \<times> 's) \<Rightarrow> ('a \<Rightarrow> 's \<Rightarrow> ('e + 'b) \<times> 's) \<Rightarrow> 's \<Rightarrow> ('e + 'b) \<times> 's"
where
  "bind_s m f s = (case m s of (Inl e, s') \<Rightarrow> (Inl e, s') | (Inr x, s') \<Rightarrow> f x s')"

primrec fold_s ::
  "('b \<Rightarrow> 'a \<Rightarrow> 's \<Rightarrow> ('e + 'b) \<times> 's) \<Rightarrow> 'b \<Rightarrow> 'a list \<Rightarrow> 's \<Rightarrow> ('e + 'b) \<times> 's"
where
  "fold_s f b [] s = (Inr b, s)"
| "fold_s f b (x # xs) s = bind_s (f b x) (\<lambda>b'. fold_s f b' xs) s"

lemma bind_s_eq_Inr [result_simps]:
  "bind_s m f s = (Inr y, t) \<longleftrightarrow> (\<exists>x u. m s = (Inr x, u) \<and> f x u = (Inr y, t))"
  by (auto simp: bind_s_def split: prod.split sum.split)

lemma bind_s_cases:
  assumes "bind_s m f s = (r, s')"
  obtains (Inl) e where "m s = (Inl e, s')" "r = Inl e" | (Inr) x u where "m s = (Inr x, u)" "f x u = (r, s')"
  using assms by (auto simp: bind_s_def split: prod.splits sum.splits)

lemma bind_s_invariant:
  assumes "P s" "\<And>s. P s \<Longrightarrow> P (snd (m s))" "\<And>x s. P s \<Longrightarrow> P (snd (f x s))"
  shows "P (snd (bind_s m f s))"
  using assms(1) assms(2) [OF assms(1)] assms(3) by (auto simp: bind_s_def split: prod.split sum.split)

lemma fold_s_invariant:
  assumes "P s" "\<And>b x s. x \<in> set xs \<Longrightarrow> P s \<Longrightarrow> P (snd (f b x s))"
  shows "P (snd (fold_s f b xs s))"
  using assms
proof (induction xs arbitrary: b s)
  case (Cons x xs)
  have "P (snd (f b x s))" using Cons.prems by simp
  moreover have "P (snd (fold_s f b' xs s'))" if "P s'" for b' s' using Cons.IH [OF that] Cons.prems(2) by simp
  ultimately show ?case by (auto simp: bind_s_def split: prod.split sum.split)
qed simp

text \<open>A list cut into slices of a given positive length.\<close>

function slices :: "nat \<Rightarrow> 'a list \<Rightarrow> 'a list list" where
  "slices n xs = (if xs = [] \<or> n = 0 then [] else take n xs # slices n (drop n xs))"
  by pat_completeness auto
termination
  by (relation "measure (\<lambda>(n, xs). length xs)") auto

declare slices.simps [simp del]

lemma concat_slices: "0 < n \<Longrightarrow> concat (slices n xs) = xs"
proof (induction n xs rule: slices.induct)
  case (1 n xs)
  then show ?case by (subst slices.simps) auto
qed

lemma slices_length: "ys \<in> set (slices n xs) \<Longrightarrow> ys \<noteq> [] \<and> length ys \<le> n"
proof (induction n xs rule: slices.induct)
  case (1 n xs)
  then show ?case using slices.simps [of n xs] by (auto split: if_splits)
qed

text \<open>Sums of a measure along a list.\<close>

definition sum_by :: "('a \<Rightarrow> int) \<Rightarrow> 'a list \<Rightarrow> int" where
  "sum_by f xs = sum_list (map f xs)"

lemma sum_by_simps [simp]:
  "sum_by f [] = 0"
  "sum_by f (x # xs) = f x + sum_by f xs"
  "sum_by f (xs @ ys) = sum_by f xs + sum_by f ys"
  "sum_by f (rev xs) = sum_by f xs"
  by (simp_all add: sum_by_def rev_map [symmetric] sum_list_rev)

lemma sum_by_nonneg: "(\<And>x. x \<in> set xs \<Longrightarrow> 0 \<le> f x) \<Longrightarrow> 0 \<le> sum_by f xs"
  by (induction xs) auto

lemma sum_by_filter_split:
  "sum_by f xs = sum_by f (filter P xs) + sum_by f (filter (\<lambda>x. \<not> P x) xs)"
  by (induction xs) auto

lemma sum_by_concat: "sum_by f (concat xss) = sum_by (sum_by f) xss"
  by (induction xss) auto

lemma sum_by_map: "sum_by f (map g xs) = sum_by (f \<circ> g) xs"
  by (induction xs) auto

lemma sum_by_mset: "mset xs = mset ys \<Longrightarrow> sum_by f xs = sum_by f ys"
  by (metis mset_map sum_by_def sum_mset_sum_list)

lemma sum_by_cong: "(\<And>x. x \<in> set xs \<Longrightarrow> f x = g x) \<Longrightarrow> sum_by f xs = sum_by g xs"
  by (induction xs) auto

text \<open>The longest common prefix of two lists under a relation, as a length.\<close>

fun common_prefix :: "('a \<Rightarrow> 'b \<Rightarrow> bool) \<Rightarrow> 'a list \<Rightarrow> 'b list \<Rightarrow> nat" where
  "common_prefix R (x # xs) (y # ys) = (if R x y then Suc (common_prefix R xs ys) else 0)"
| "common_prefix R _ _ = 0"

lemma common_prefix_le: "common_prefix R xs ys \<le> length xs" "common_prefix R xs ys \<le> length ys"
  by (induction R xs ys rule: common_prefix.induct) auto

lemma common_prefix_all2:
  "list_all2 R (take (common_prefix R xs ys) xs) (take (common_prefix R xs ys) ys)"
  by (induction R xs ys rule: common_prefix.induct) auto

lemma common_prefix_stop:
  "common_prefix R xs ys < length xs \<Longrightarrow> common_prefix R xs ys < length ys
   \<Longrightarrow> \<not> R (xs ! common_prefix R xs ys) (ys ! common_prefix R xs ys)"
  by (induction R xs ys rule: common_prefix.induct) auto

end
