(* ===== verification/PyJson.thy ===== *)
theory PyJson
  imports Prelude "HOL-Library.Char_ord" "HOL-Library.List_Lexorder"
begin

text \<open>
  The Python values the program passes around, and what it uses of the language and its
  standard library: \<open>dict\<close> access, truth values, \<open>==\<close>, \<open>len\<close>, iteration,
  \<open>str\<close>/\<open>repr\<close>, \<open>json.dumps\<close>, and the \<open>str\<close> methods.

  A decoded JSON document is a \<open>json\<close>.  A Python \<open>str\<close> is a \<open>string\<close>: one \<open>char\<close> per
  code point, so the model covers text in the code points 0 to 255, and \<open>length\<close> is
  Python's \<open>len\<close>.  An object keeps the insertion order of its keys as an association list;
  Python's dictionaries have distinct keys, which is \<open>wf_json\<close>.  A finite float is given by
  the digits \<open>m\<close> and the exponent \<open>e\<close> of its shortest round-trip decimal \<open>m * 10^e\<close>, the
  decimal \<open>float.__repr__\<close> prints; NaN, the infinities and the sign of zero are not
  modelled.
\<close>

section \<open>Values\<close>

datatype json =
    JNull
  | JBool bool
  | JInt int
  | JFloat int int
  | JStr string
  | JArr "json list"
  | JObj "(string \<times> json) list"

type_synonym pydict = "(string \<times> json) list"

text \<open>\<open>isinstance\<close> tests.\<close>

fun is_str :: "json \<Rightarrow> bool" where
  "is_str (JStr _) = True"
| "is_str _ = False"

fun is_list :: "json \<Rightarrow> bool" where
  "is_list (JArr _) = True"
| "is_list _ = False"

fun is_dict :: "json \<Rightarrow> bool" where
  "is_dict (JObj _) = True"
| "is_dict _ = False"

lemma is_str_iff: "is_str v \<longleftrightarrow> (\<exists>s. v = JStr s)"
  and is_list_iff: "is_list v \<longleftrightarrow> (\<exists>xs. v = JArr xs)"
  and is_dict_iff: "is_dict v \<longleftrightarrow> (\<exists>d. v = JObj d)"
  by (cases v; simp)+

text \<open>Truth value testing.\<close>

fun truthy :: "json \<Rightarrow> bool" where
  "truthy JNull = False"
| "truthy (JBool b) = b"
| "truthy (JInt i) = (i \<noteq> 0)"
| "truthy (JFloat m _) = (m \<noteq> 0)"
| "truthy (JStr s) = (s \<noteq> [])"
| "truthy (JArr xs) = (xs \<noteq> [])"
| "truthy (JObj d) = (d \<noteq> [])"

text \<open>\<open>x or y\<close>\<close>

definition or_else :: "json \<Rightarrow> json \<Rightarrow> json" where
  "or_else x y = (if truthy x then x else y)"

section \<open>Dictionaries\<close>

text \<open>\<open>d.get(k)\<close>, \<open>d.get(k, default)\<close>, \<open>k in d\<close>.\<close>

definition dget :: "pydict \<Rightarrow> string \<Rightarrow> json" where
  "dget d k = (case map_of d k of None \<Rightarrow> JNull | Some v \<Rightarrow> v)"

definition dget_default :: "pydict \<Rightarrow> string \<Rightarrow> json \<Rightarrow> json" where
  "dget_default d k v = (case map_of d k of None \<Rightarrow> v | Some w \<Rightarrow> w)"

definition has_key :: "pydict \<Rightarrow> string \<Rightarrow> bool" where
  "has_key d k = (map_of d k \<noteq> None)"

text \<open>\<open>x.get(k)\<close> on a value that need not be a dictionary.\<close>

fun jget :: "json \<Rightarrow> string \<Rightarrow> json result" where
  "jget (JObj d) k = Inr (dget d k)"
| "jget _ k = Inl AttributeError"

text \<open>\<open>d[k] = v\<close> keeps the position of an existing key; \<open>d.pop(k, None)\<close>.\<close>

definition dset :: "string \<Rightarrow> json \<Rightarrow> pydict \<Rightarrow> pydict" where
  "dset k v d = AList.update k v d"

definition dpop :: "string \<Rightarrow> pydict \<Rightarrow> pydict" where
  "dpop k d = AList.delete k d"

text \<open>\<open>d.setdefault(k, v)\<close> leaves an existing value alone.\<close>

definition dsetdefault :: "string \<Rightarrow> json \<Rightarrow> pydict \<Rightarrow> pydict" where
  "dsetdefault k v d = (if has_key d k then d else dset k v d)"

lemma dget_dset [simp]: "dget (dset k v d) k' = (if k' = k then v else dget d k')"
  by (simp add: dget_def dset_def update_conv')

lemma dget_dpop [simp]: "dget (dpop k d) k' = (if k' = k then JNull else dget d k')"
  by (simp add: dget_def dpop_def delete_conv')

lemma dget_Cons [simp]: "dget ((k, v) # d) k' = (if k = k' then v else dget d k')"
  and dget_Nil [simp]: "dget [] k' = JNull"
  by (simp_all add: dget_def)

lemma distinct_dset: "distinct (map fst d) \<Longrightarrow> distinct (map fst (dset k v d))"
  by (simp add: dset_def distinct_update)

lemma distinct_dpop: "distinct (map fst d) \<Longrightarrow> distinct (map fst (dpop k d))"
  by (simp add: dpop_def distinct_delete)

lemma set_dset: "set (dset k v d) \<subseteq> insert (k, v) (set d)"
  unfolding dset_def by (induction d) auto

lemma set_dpop: "set (dpop k d) \<subseteq> set d"
  by (auto simp: dpop_def AList.delete_eq)

section \<open>Well-formed values\<close>

fun wf_json :: "json \<Rightarrow> bool" where
  "wf_json (JArr xs) = (\<forall>x \<in> set xs. wf_json x)"
| "wf_json (JObj d) = (distinct (map fst d) \<and> (\<forall>kv \<in> set d. wf_json (snd kv)))"
| "wf_json _ = True"

abbreviation wf_dict :: "pydict \<Rightarrow> bool" where
  "wf_dict d \<equiv> wf_json (JObj d)"

lemma wf_dict_dget: "wf_dict d \<Longrightarrow> wf_json (dget d k)"
  by (auto simp: dget_def split: option.split dest!: map_of_SomeD)

lemma wf_dict_dset: "wf_dict d \<Longrightarrow> wf_json v \<Longrightarrow> wf_dict (dset k v d)"
  using set_dset [of k v d] by (auto simp: distinct_dset)

lemma wf_dict_dpop: "wf_dict d \<Longrightarrow> wf_dict (dpop k d)"
  using set_dpop [of k d] by (auto simp: distinct_dpop)

section \<open>Equality\<close>

text \<open>
  \<open>==\<close> compares numbers across \<open>bool\<close>, \<open>int\<close> and \<open>float\<close> by value, lists element by
  element, and dictionaries as sets of items, whatever their order.
\<close>

fun num_value :: "json \<Rightarrow> rat option" where
  "num_value (JBool b) = Some (if b then 1 else 0)"
| "num_value (JInt i) = Some (of_int i)"
| "num_value (JFloat m e) = Some (of_int m * (if 0 \<le> e then 10 ^ nat e else 1 / 10 ^ nat (- e)))"
| "num_value _ = None"

fun py_eq :: "json \<Rightarrow> json \<Rightarrow> bool"
  and py_eq_list :: "json list \<Rightarrow> json list \<Rightarrow> bool"
  and py_eq_items :: "pydict \<Rightarrow> pydict \<Rightarrow> bool"
where
  "py_eq JNull v = (v = JNull)"
| "py_eq (JStr s) v = (v = JStr s)"
| "py_eq (JArr xs) v = (case v of JArr ys \<Rightarrow> py_eq_list xs ys | _ \<Rightarrow> False)"
| "py_eq (JObj d) v =
     (case v of JObj d' \<Rightarrow> length d = length d' \<and> py_eq_items d d' | _ \<Rightarrow> False)"
| "py_eq (JBool b) v = (num_value v = num_value (JBool b))"
| "py_eq (JInt i) v = (num_value v = num_value (JInt i))"
| "py_eq (JFloat m e) v = (num_value v = num_value (JFloat m e))"
| "py_eq_list [] ys = (ys = [])"
| "py_eq_list (x # xs) ys = (case ys of [] \<Rightarrow> False | y # ys' \<Rightarrow> py_eq x y \<and> py_eq_list xs ys')"
| "py_eq_items [] d' = True"
| "py_eq_items ((k, v) # d) d' =
     ((case map_of d' k of None \<Rightarrow> False | Some v' \<Rightarrow> py_eq v v') \<and> py_eq_items d d')"

lemma py_eq_items_iff:
  "py_eq_items d d' \<longleftrightarrow> (\<forall>(k, v) \<in> set d. \<exists>v'. map_of d' k = Some v' \<and> py_eq v v')"
  by (induction d) (auto split: option.splits)

lemma py_eq_list_iff: "py_eq_list xs ys \<longleftrightarrow> list_all2 py_eq xs ys"
  by (induction xs arbitrary: ys) (auto split: list.split)

lemma py_eq_refl: "wf_json v \<Longrightarrow> py_eq v v"
proof (induction v rule: wf_json.induct)
  case (1 xs)
  then show ?case by (auto simp: py_eq_list_iff intro!: list.rel_refl_strong)
next
  case (2 d)
  have "map_of d k = Some v \<and> py_eq v v" if "(k, v) \<in> set d" for k v
    using 2 that by force
  then show ?case by (auto simp: py_eq_items_iff)
qed simp_all

lemma py_eq_str [simp]: "py_eq v (JStr s) \<longleftrightarrow> v = JStr s"
  by (cases v) auto

lemma py_eq_null [simp]: "py_eq v JNull \<longleftrightarrow> v = JNull"
  by (cases v) auto

text \<open>On dictionaries, \<open>==\<close> is pointwise equality of the maps.\<close>

lemma py_eq_dict_iff:
  assumes "wf_dict a" "wf_dict b"
  shows "py_eq (JObj a) (JObj b) \<longleftrightarrow> (\<forall>k. rel_option py_eq (map_of a k) (map_of b k))"
proof
  assume eq: "py_eq (JObj a) (JObj b)"
  then have items: "\<exists>w. map_of b k = Some w \<and> py_eq v w" if "(k, v) \<in> set a" for k v
    using that by (force simp: py_eq_items_iff)
  have len: "length a = length b" using eq by simp
  have sub: "fst ` set a \<subseteq> fst ` set b"
  proof
    fix k assume "k \<in> fst ` set a"
    then obtain v where "(k, v) \<in> set a" by force
    then show "k \<in> fst ` set b" using items map_of_eq_None_iff [of b k] by fastforce
  qed
  have "card (fst ` set a) = card (fst ` set b)"
    using len assms distinct_card [of "map fst a"] distinct_card [of "map fst b"] by simp
  with sub have keys: "fst ` set a = fst ` set b" by (intro card_subset_eq) auto
  show "\<forall>k. rel_option py_eq (map_of a k) (map_of b k)"
  proof
    fix k
    show "rel_option py_eq (map_of a k) (map_of b k)"
    proof (cases "map_of a k")
      case None
      with keys have "map_of b k = None" by (metis map_of_eq_None_iff)
      with None show ?thesis by simp
    next
      case (Some v)
      with items [OF map_of_SomeD [OF Some]] show ?thesis by auto
    qed
  qed
next
  assume eq: "\<forall>k. rel_option py_eq (map_of a k) (map_of b k)"
  have "(map_of a k = None) = (map_of b k = None)" for k
    using eq [rule_format, of k] by (cases "map_of a k"; cases "map_of b k") auto
  then have "fst ` set a = fst ` set b" by (metis (no_types, lifting) map_of_eq_None_iff set_eqI)
  then have "length a = length b"
    using assms distinct_card [of "map fst a"] distinct_card [of "map fst b"] by simp
  moreover have "\<exists>w. map_of b k = Some w \<and> py_eq v w" if "(k, v) \<in> set a" for k v
  proof -
    have "map_of a k = Some v" using assms(1) that by simp
    with eq [rule_format, of k] show ?thesis by (auto simp: option_rel_Some1)
  qed
  ultimately show "py_eq (JObj a) (JObj b)" by (auto simp: py_eq_items_iff)
qed

lemma py_eq_dget:
  assumes "py_eq (JObj a) (JObj b)" "wf_dict a" "wf_dict b"
  shows "py_eq (dget a k) (dget b k)"
  using assms(1) py_eq_dict_iff [OF assms(2,3)]
  by (auto simp: dget_def simp del: py_eq.simps(4) split: option.split
      dest!: spec [of _ k])

lemma py_eq_dpop:
  assumes "py_eq (JObj a) (JObj b)" "wf_dict a" "wf_dict b"
  shows "py_eq (JObj (dpop k a)) (JObj (dpop k b))"
  using assms(1) py_eq_dict_iff [OF assms(2,3)]
    py_eq_dict_iff [OF wf_dict_dpop [OF assms(2)] wf_dict_dpop [OF assms(3)], of k k]
  by (simp add: dpop_def delete_conv' del: py_eq.simps)

lemma py_eq_dset:
  assumes "py_eq (JObj a) (JObj b)" "wf_dict a" "wf_dict b" "wf_json v"
  shows "py_eq (JObj (dset k v a)) (JObj (dset k v b))"
  using assms(1) py_eq_dict_iff [OF assms(2,3)] py_eq_refl [OF assms(4)]
    py_eq_dict_iff [OF wf_dict_dset [OF assms(2,4)] wf_dict_dset [OF assms(3,4)], of k k]
  by (simp add: dset_def update_conv' del: py_eq.simps)

section \<open>Lengths and iteration\<close>

text \<open>\<open>len(x)\<close>\<close>

fun py_len :: "json \<Rightarrow> int result" where
  "py_len (JStr s) = Inr (int (length s))"
| "py_len (JArr xs) = Inr (int (length xs))"
| "py_len (JObj d) = Inr (int (length d))"
| "py_len _ = Inl TypeError"

text \<open>\<open>for x in v\<close>: strings yield their characters, dictionaries their keys.\<close>

fun py_iter :: "json \<Rightarrow> json list result" where
  "py_iter (JArr xs) = Inr xs"
| "py_iter (JStr s) = Inr (map (\<lambda>c. JStr [c]) s)"
| "py_iter (JObj d) = Inr (map (\<lambda>kv. JStr (fst kv)) d)"
| "py_iter _ = Inl TypeError"

section \<open>Strings\<close>

text \<open>Decimal numerals.\<close>

fun nat_digits :: "nat \<Rightarrow> string" where
  "nat_digits n =
     (if n < 10 then [char_of (48 + n)] else nat_digits (n div 10) @ [char_of (48 + n mod 10)])"

declare nat_digits.simps [simp del]

definition int_str :: "int \<Rightarrow> string" where
  "int_str i = (if i < 0 then ''-'' @ nat_digits (nat (- i)) else nat_digits (nat i))"

text \<open>\<open>sep.join(xs)\<close>, \<open>s.startswith(p)\<close>, \<open>p in s\<close>.\<close>

fun str_join :: "string \<Rightarrow> string list \<Rightarrow> string" where
  "str_join sep [] = []"
| "str_join sep [x] = x"
| "str_join sep (x # y # xs) = x @ sep @ str_join sep (y # xs)"

definition starts_with :: "string \<Rightarrow> string \<Rightarrow> bool" where
  "starts_with p s = (take (length p) s = p)"

fun contains :: "string \<Rightarrow> string \<Rightarrow> bool" where
  "contains p [] = (p = [])"
| "contains p (c # s) = (starts_with p (c # s) \<or> contains p s)"

text \<open>\<open>str.isspace\<close>, which is also the class \<^verbatim>\<open>\s\<close> of the \<open>re\<close> module.\<close>

definition is_space :: "char \<Rightarrow> bool" where
  "is_space c = (let n = (of_char c :: nat)
     in (9 \<le> n \<and> n \<le> 13) \<or> (28 \<le> n \<and> n \<le> 32) \<or> n = 133 \<or> n = 160)"

definition lstrip :: "string \<Rightarrow> string" where
  "lstrip s = dropWhile is_space s"

definition strip :: "string \<Rightarrow> string" where
  "strip s = rev (dropWhile is_space (rev (dropWhile is_space s)))"

definition lower_char :: "char \<Rightarrow> char" where
  "lower_char c = (let n = (of_char c :: nat)
     in if (65 \<le> n \<and> n \<le> 90) \<or> (192 \<le> n \<and> n \<le> 222 \<and> n \<noteq> 215) then char_of (n + 32) else c)"

definition lower :: "string \<Rightarrow> string" where
  "lower s = map lower_char s"

lemma lower_char_idem [simp]: "lower_char (lower_char c) = lower_char c"
proof -
  have "(of_char c :: nat) < 256" by (rule nat_of_char_less_256)
  then show ?thesis by (auto simp: lower_char_def Let_def of_char_of)
qed

lemma lower_idem [simp]: "lower (lower s) = lower s"
  by (simp add: lower_def)

text \<open>\<open>s.split(sep)\<close> for a separator of one character, and for a blank line.\<close>

fun split_char :: "char \<Rightarrow> string \<Rightarrow> string list" where
  "split_char sep [] = [[]]"
| "split_char sep (c # s) =
     (if c = sep then [] # split_char sep s
      else (case split_char sep s of [] \<Rightarrow> [[c]] | w # ws \<Rightarrow> (c # w) # ws))"

definition nl :: char where
  "nl = CHR 0x0A"

fun split_nlnl :: "string \<Rightarrow> string \<Rightarrow> string list" where
  "split_nlnl acc [] = [rev acc]"
| "split_nlnl acc [c] = [rev (c # acc)]"
| "split_nlnl acc (c # d # s) =
     (if c = nl \<and> d = nl then rev acc # split_nlnl [] s else split_nlnl (c # acc) (d # s))"

text \<open>\<open>s.splitlines()\<close>: no empty line after a final line break, and \<^verbatim>\<open>\r\n\<close> is one.\<close>

definition is_line_break :: "char \<Rightarrow> bool" where
  "is_line_break c = (let n = (of_char c :: nat)
     in (10 \<le> n \<and> n \<le> 13) \<or> (28 \<le> n \<and> n \<le> 30) \<or> n = 133)"

fun splitlines_acc :: "string \<Rightarrow> string \<Rightarrow> string list" where
  "splitlines_acc acc [] = (if acc = [] then [] else [rev acc])"
| "splitlines_acc acc [c] = (if is_line_break c then [rev acc] else [rev (c # acc)])"
| "splitlines_acc acc (c # d # s) =
     (if c = CHR 0x0D \<and> d = nl then rev acc # splitlines_acc [] s
      else if is_line_break c then rev acc # splitlines_acc [] (d # s)
      else splitlines_acc (c # acc) (d # s))"

definition splitlines :: "string \<Rightarrow> string list" where
  "splitlines s = splitlines_acc [] s"

section \<open>\<open>json.dumps\<close>, \<open>str\<close> and \<open>repr\<close>\<close>

text \<open>\<open>float.__repr__\<close> of \<open>m * 10^e\<close>: positional for a decimal point within 16 digits.\<close>

definition zeros :: "int \<Rightarrow> string" where
  "zeros n = replicate (nat n) (CHR ''0'')"

definition float_repr :: "int \<Rightarrow> int \<Rightarrow> string" where
  "float_repr m e =
     (let ds = nat_digits (nat \<bar>m\<bar>);
          n = int (length ds);
          pt = n + e;
          sign = (if m < 0 then ''-'' else [])
      in sign @
         (if m = 0 then ''0.0''
          else if -4 < pt \<and> pt \<le> 16 then
            (if pt \<le> 0 then ''0.'' @ zeros (- pt) @ ds
             else if n \<le> pt then ds @ zeros (pt - n) @ ''.0''
             else take (nat pt) ds @ ''.'' @ drop (nat pt) ds)
          else
            take 1 ds @ (if n = 1 then [] else ''.'' @ drop 1 ds) @ ''e''
            @ (if pt - 1 < 0 then ''-'' else ''+'')
            @ (if \<bar>pt - 1\<bar> < 10 then ''0'' else []) @ nat_digits (nat \<bar>pt - 1\<bar>)))"

definition hex_digit :: "nat \<Rightarrow> char" where
  "hex_digit n = (if n < 10 then char_of (48 + n) else char_of (87 + n))"

definition hex2 :: "nat \<Rightarrow> string" where
  "hex2 n = [hex_digit (n div 16 mod 16), hex_digit (n mod 16)]"

text \<open>The string encoder of \<open>json\<close> with \<open>ensure_ascii=False\<close>.\<close>

definition json_escape_char :: "char \<Rightarrow> string" where
  "json_escape_char c = (let n = (of_char c :: nat)
     in if n = 34 then [CHR 0x5C, CHR 0x22]
        else if n = 92 then [CHR 0x5C, CHR 0x5C]
        else if n = 10 then [CHR 0x5C, CHR ''n'']
        else if n = 13 then [CHR 0x5C, CHR ''r'']
        else if n = 9 then [CHR 0x5C, CHR ''t'']
        else if n = 12 then [CHR 0x5C, CHR ''f'']
        else if n = 8 then [CHR 0x5C, CHR ''b'']
        else if n < 32 then [CHR 0x5C, CHR ''u'', CHR ''0'', CHR ''0''] @ hex2 n
        else [c])"

definition json_string :: "string \<Rightarrow> string" where
  "json_string s = [CHR 0x22] @ concat (map json_escape_char s) @ [CHR 0x22]"

text \<open>\<open>json.dumps(v, separators=(isep, ksep), ensure_ascii=False)\<close>\<close>

fun json_dumps :: "string \<Rightarrow> string \<Rightarrow> json \<Rightarrow> string" where
  "json_dumps isep ksep JNull = ''null''"
| "json_dumps isep ksep (JBool b) = (if b then ''true'' else ''false'')"
| "json_dumps isep ksep (JInt i) = int_str i"
| "json_dumps isep ksep (JFloat m e) = float_repr m e"
| "json_dumps isep ksep (JStr s) = json_string s"
| "json_dumps isep ksep (JArr xs) = ''['' @ str_join isep (map (json_dumps isep ksep) xs) @ '']''"
| "json_dumps isep ksep (JObj d) =
     ''{'' @ str_join isep (map (\<lambda>kv. json_string (fst kv) @ ksep @ json_dumps isep ksep (snd kv)) d) @ ''}''"

text \<open>\<open>sort_keys=True\<close> sorts the items of every object by key.\<close>

fun sort_keys :: "json \<Rightarrow> json" where
  "sort_keys (JArr xs) = JArr (map sort_keys xs)"
| "sort_keys (JObj d) = JObj (sort_key fst (map (\<lambda>kv. (fst kv, sort_keys (snd kv))) d))"
| "sort_keys v = v"

definition dumps_compact :: "json \<Rightarrow> string" where
  "dumps_compact v = json_dumps '','' '':'' v"

definition dumps_default :: "json \<Rightarrow> string" where
  "dumps_default v = json_dumps '', '' '': '' v"

definition dumps_canonical :: "json \<Rightarrow> string" where
  "dumps_canonical v = json_dumps '','' '':'' (sort_keys v)"

text \<open>\<open>repr\<close> and \<open>str\<close>.\<close>

definition repr_char :: "char \<Rightarrow> char \<Rightarrow> string" where
  "repr_char quote c = (let n = (of_char c :: nat)
     in if c = quote \<or> n = 92 then [CHR 0x5C, c]
        else if n = 9 then [CHR 0x5C, CHR ''t'']
        else if n = 10 then [CHR 0x5C, CHR ''n'']
        else if n = 13 then [CHR 0x5C, CHR ''r'']
        else if n < 32 \<or> (127 \<le> n \<and> n \<le> 160) \<or> n = 173 then [CHR 0x5C, CHR ''x''] @ hex2 n
        else [c])"

definition str_repr :: "string \<Rightarrow> string" where
  "str_repr s =
     (let quote = (if CHR 0x27 \<in> set s \<and> CHR 0x22 \<notin> set s then CHR 0x22 else CHR 0x27)
      in [quote] @ concat (map (repr_char quote) s) @ [quote])"

fun py_repr :: "json \<Rightarrow> string" where
  "py_repr JNull = ''None''"
| "py_repr (JBool b) = (if b then ''True'' else ''False'')"
| "py_repr (JInt i) = int_str i"
| "py_repr (JFloat m e) = float_repr m e"
| "py_repr (JStr s) = str_repr s"
| "py_repr (JArr xs) = ''['' @ str_join '', '' (map py_repr xs) @ '']''"
| "py_repr (JObj d) =
     ''{'' @ str_join '', '' (map (\<lambda>kv. str_repr (fst kv) @ '': '' @ py_repr (snd kv)) d) @ ''}''"

fun py_str :: "json \<Rightarrow> string" where
  "py_str (JStr s) = s"
| "py_str v = py_repr v"

lemma py_str_eq_JStr: "is_str v \<Longrightarrow> v = JStr (py_str v)"
  by (cases v) auto

end
