(* ===== verification/Tokens.thy ===== *)
theory Tokens
  imports PyJson
begin

text \<open>
  Token accounting, \<open>context/tokens.py\<close>.  A counter is an object the planner and the
  engine receive as an argument, so it is a record of its methods; \<open>TokenCounter\<close> is the
  program's own.  Counting can raise: \<open>len\<close> of a number is a \<open>TypeError\<close>, \<open>.get\<close> on a
  value that is not a dictionary an \<open>AttributeError\<close>.

  The contract the clients of a counter rely on is the locale \<open>lawful_counter\<close>.
\<close>

section \<open>Model\<close>

definition CHARS_PER_TOKEN :: int where "CHARS_PER_TOKEN = 4"
definition MESSAGE_OVERHEAD_TOKENS :: int where "MESSAGE_OVERHEAD_TOKENS = 4"
definition TOOL_CALL_OVERHEAD_TOKENS :: int where "TOOL_CALL_OVERHEAD_TOKENS = 8"
definition TOOL_DEF_OVERHEAD_TOKENS :: int where "TOOL_DEF_OVERHEAD_TOKENS = 8"
definition IMAGE_PART_TOKENS :: int where "IMAGE_PART_TOKENS = 1024"
definition UNKNOWN_PART_TOKENS :: int where "UNKNOWN_PART_TOKENS = 16"

lemmas token_constants =
  CHARS_PER_TOKEN_def MESSAGE_OVERHEAD_TOKENS_def TOOL_CALL_OVERHEAD_TOKENS_def
  TOOL_DEF_OVERHEAD_TOKENS_def IMAGE_PART_TOKENS_def UNKNOWN_PART_TOKENS_def

text \<open>\<open>math.ceil(n / CHARS_PER_TOKEN)\<close> is the negated floor of the negated quotient.\<close>

definition text_tokens :: "json \<Rightarrow> int result" where
  "text_tokens value =
     (if \<not> truthy value then Inr 0
      else bind_r (py_len value) (\<lambda>n. Inr (max 1 (- ((- n) div CHARS_PER_TOKEN)))))"

definition part_type :: "json \<Rightarrow> string option" where
  "part_type part =
     (case part of
        JObj d \<Rightarrow> (case dget d ''type'' of JStr t \<Rightarrow> Some t | _ \<Rightarrow> None)
      | _ \<Rightarrow> None)"

definition part_tokens :: "json \<Rightarrow> int result" where
  "part_tokens part =
     (let kind = part_type part
      in if kind = Some ''text'' then
           bind_r (jget part ''text'') (\<lambda>text_value.
             if is_str text_value then text_tokens text_value else Inr UNKNOWN_PART_TOKENS)
         else if kind = Some ''image_url'' then Inr IMAGE_PART_TOKENS
         else Inr UNKNOWN_PART_TOKENS)"

definition parts_tokens :: "json list \<Rightarrow> int result" where
  "parts_tokens parts =
     fold_r (\<lambda>total part. bind_r (part_tokens part) (\<lambda>n. Inr (total + n))) 0 parts"

definition serialized_tokens :: "json \<Rightarrow> int result" where
  "serialized_tokens value =
     (case value of
        JNull \<Rightarrow> Inr 0
      | JStr s \<Rightarrow> text_tokens (JStr s)
      | JArr parts \<Rightarrow> parts_tokens parts
      | _ \<Rightarrow> text_tokens (JStr (dumps_compact value)))"

definition tool_call_tokens :: "json \<Rightarrow> int result" where
  "tool_call_tokens tool_call =
     bind_r (jget tool_call ''function'') (\<lambda>f.
     let function = or_else f (JObj []) in
     bind_r (jget function ''name'') (\<lambda>name.
     bind_r (text_tokens name) (\<lambda>a.
     bind_r (jget function ''arguments'') (\<lambda>arguments.
     bind_r (serialized_tokens arguments) (\<lambda>b.
     Inr (TOOL_CALL_OVERHEAD_TOKENS + a + b))))))"

definition opt_text_tokens :: "json \<Rightarrow> int result" where
  "opt_text_tokens v = (if truthy v then text_tokens v else Inr 0)"

definition message_tokens :: "pydict \<Rightarrow> int result" where
  "message_tokens message =
     bind_r (serialized_tokens (dget message ''content'')) (\<lambda>c.
     bind_r (py_iter (or_else (dget message ''tool_calls'') (JArr []))) (\<lambda>tool_calls.
     bind_r (map_r tool_call_tokens tool_calls) (\<lambda>tcs.
     bind_r (opt_text_tokens (dget message ''tool_call_id'')) (\<lambda>i.
     bind_r (opt_text_tokens (dget message ''name'')) (\<lambda>n.
     Inr (MESSAGE_OVERHEAD_TOKENS + c + sum_list tcs + i + n))))))"

definition messages_tokens :: "pydict list \<Rightarrow> int result" where
  "messages_tokens messages = bind_r (map_r message_tokens messages) (\<lambda>ns. Inr (sum_list ns))"

definition tools_tokens_of :: "json \<Rightarrow> int result" where
  "tools_tokens_of tools =
     (if \<not> truthy tools then Inr 0
      else bind_r (py_iter tools) (\<lambda>ts.
           bind_r (map_r (\<lambda>tool. bind_r (serialized_tokens tool)
                     (\<lambda>n. Inr (TOOL_DEF_OVERHEAD_TOKENS + n))) ts) (\<lambda>ns.
           Inr (sum_list ns))))"

record token_counter =
  count_message :: "pydict \<Rightarrow> int result"
  count_messages :: "pydict list \<Rightarrow> int result"
  count_tools :: "json \<Rightarrow> int result"

definition TokenCounter :: token_counter where
  "TokenCounter =
     \<lparr>count_message = message_tokens, count_messages = messages_tokens, count_tools = tools_tokens_of\<rparr>"

lemma TokenCounter_simps:
  "count_message TokenCounter = message_tokens"
  "count_messages TokenCounter = messages_tokens"
  "count_tools TokenCounter = tools_tokens_of"
  by (simp_all add: TokenCounter_def)

section \<open>Counts are never negative\<close>

lemma py_len_nonneg: "py_len v = Inr n \<Longrightarrow> 0 \<le> n"
  by (cases v) auto

lemma text_tokens_nonneg: "text_tokens v = Inr n \<Longrightarrow> 0 \<le> n"
  by (auto simp: text_tokens_def result_simps split: if_splits)

lemma text_tokens_str:
  "text_tokens (JStr s) = Inr (if s = [] then 0 else (int (length s) + 3) div 4)"
proof (cases s)
  case (Cons c cs)
  have "- ((- int (length s)) div 4) = (int (length s) + 3) div 4" by presburger
  moreover have "1 \<le> (int (length s) + 3) div 4" using Cons by auto
  ultimately show ?thesis using Cons by (simp add: text_tokens_def CHARS_PER_TOKEN_def)
qed (simp add: text_tokens_def)

lemma part_tokens_total: "\<exists>n \<ge> 0. part_tokens p = Inr n"
  by (auto simp: part_tokens_def part_type_def token_constants Let_def text_tokens_str is_str_iff
      split: json.splits)

lemma parts_tokens_acc:
  "\<exists>n \<ge> a. fold_r (\<lambda>total part. bind_r (part_tokens part) (\<lambda>n. Inr (total + n))) a ps = Inr n"
proof (induction ps arbitrary: a)
  case (Cons p ps)
  obtain k where k: "0 \<le> k" "part_tokens p = Inr k" using part_tokens_total by blast
  obtain n where "a + k \<le> n"
    "fold_r (\<lambda>total part. bind_r (part_tokens part) (\<lambda>n. Inr (total + n))) (a + k) ps = Inr n"
    using Cons.IH by blast
  with k show ?case by (intro exI [of _ n]) simp
qed simp

lemma serialized_tokens_total: "\<exists>n \<ge> 0. serialized_tokens v = Inr n"
  using parts_tokens_acc [of 0] by (cases v) (auto simp: serialized_tokens_def parts_tokens_def text_tokens_str)

lemma serialized_tokens_nonneg: "serialized_tokens v = Inr n \<Longrightarrow> 0 \<le> n"
  using serialized_tokens_total [of v] by auto

lemma tool_call_tokens_nonneg: "tool_call_tokens v = Inr n \<Longrightarrow> 0 \<le> n"
  by (auto simp: tool_call_tokens_def result_simps Let_def token_constants
      dest!: text_tokens_nonneg serialized_tokens_nonneg)

lemma opt_text_tokens_nonneg: "opt_text_tokens v = Inr n \<Longrightarrow> 0 \<le> n"
  by (auto simp: opt_text_tokens_def dest: text_tokens_nonneg split: if_splits)

lemma map_r_sum_nonneg:
  assumes "map_r f xs = Inr ns" "\<And>x n. f x = Inr n \<Longrightarrow> (0::int) \<le> n"
  shows "0 \<le> sum_list ns"
  using assms by (induction xs arbitrary: ns) (auto simp: result_simps)

lemma message_tokens_ge: "message_tokens m = Inr n \<Longrightarrow> MESSAGE_OVERHEAD_TOKENS \<le> n"
  by (auto simp: message_tokens_def result_simps
      dest!: serialized_tokens_nonneg opt_text_tokens_nonneg
             map_r_sum_nonneg [OF _ tool_call_tokens_nonneg])

lemma tools_tokens_nonneg: "tools_tokens_of t = Inr n \<Longrightarrow> 0 \<le> n"
  by (auto simp: tools_tokens_of_def result_simps token_constants split: if_splits
      intro!: map_r_sum_nonneg dest!: serialized_tokens_nonneg)

section \<open>The contract of a counter\<close>

locale lawful_counter =
  fixes counter :: token_counter
  assumes count_message_nonneg: "count_message counter m = Inr n \<Longrightarrow> 0 \<le> n"
    and count_tools_nonneg: "count_tools counter t = Inr n \<Longrightarrow> 0 \<le> n"
    and count_messages_eq:
      "count_messages counter ms = bind_r (map_r (count_message counter) ms) (\<lambda>ns. Inr (sum_list ns))"
begin

text \<open>The cost of a message that can be counted; messages that raise have no cost.\<close>

definition cost :: "pydict \<Rightarrow> int" where
  "cost m = (case count_message counter m of Inl _ \<Rightarrow> 0 | Inr n \<Rightarrow> n)"

definition countable :: "pydict \<Rightarrow> bool" where
  "countable m \<longleftrightarrow> (\<exists>n. count_message counter m = Inr n)"

lemma cost_nonneg: "0 \<le> cost m"
  by (auto simp: cost_def split: sum.split dest: count_message_nonneg)

lemma count_messages_Inr:
  "count_messages counter ms = Inr n \<longleftrightarrow> (\<forall>m \<in> set ms. countable m) \<and> n = sum_by cost ms"
proof (induction ms arbitrary: n)
  case Nil
  show ?case by (auto simp: count_messages_eq)
next
  case (Cons m ms)
  have "count_messages counter (m # ms) = Inr n \<longleftrightarrow>
      (\<exists>k j. count_message counter m = Inr k \<and> count_messages counter ms = Inr j \<and> n = k + j)"
    by (auto simp: count_messages_eq result_simps)
  then show ?case using Cons.IH by (auto simp: countable_def cost_def)
qed

lemma count_messages_append:
  "count_messages counter (ms @ ms') = Inr n \<longleftrightarrow>
     (\<exists>k j. count_messages counter ms = Inr k \<and> count_messages counter ms' = Inr j \<and> n = k + j)"
  by (auto simp: count_messages_Inr)

lemma count_messages_nonneg: "count_messages counter ms = Inr n \<Longrightarrow> 0 \<le> n"
  by (auto simp: count_messages_Inr intro: sum_by_nonneg cost_nonneg)

end

interpretation tc: lawful_counter TokenCounter
proof unfold_locales
  show "count_message TokenCounter m = Inr n \<Longrightarrow> 0 \<le> n" for m n
    using message_tokens_ge by (fastforce simp: TokenCounter_def token_constants)
  show "count_tools TokenCounter t = Inr n \<Longrightarrow> 0 \<le> n" for t n
    by (simp add: TokenCounter_def tools_tokens_nonneg)
  show "count_messages TokenCounter ms =
      bind_r (map_r (count_message TokenCounter) ms) (\<lambda>ns. Inr (sum_list ns))" for ms
    by (simp add: TokenCounter_def messages_tokens_def)
qed

end
