(* ===== verification/Planner.thy ===== *)
theory Planner
  imports Tokens
begin

text \<open>
  Dynamic context budgeting, \<open>context/planner.py\<close>: the segmentation of a message list into
  atomic interaction units, and the raw-window planner \<open>plan_context\<close> that drops whole units,
  oldest first, until the rest fits the budget.

  The loop of \<open>segment_messages\<close> is a fold over its three local variables (the units so far,
  the open prefill, the open turn).  The lemmas show that segmentation only regroups the
  messages, that a turn is one user message with everything up to the next one, and that the
  planner keeps the longest recent window that fits.
\<close>

section \<open>Model\<close>

datatype unit_kind = System_unit | Turn_unit | Prefill_unit

record ctx_unit =
  u_kind :: unit_kind
  u_messages :: "pydict list"
  u_tokens :: int

definition is_system :: "ctx_unit \<Rightarrow> bool" where
  "is_system u = (u_kind u = System_unit)"

definition mk_unit :: "unit_kind \<Rightarrow> pydict list \<Rightarrow> int \<Rightarrow> ctx_unit" where
  "mk_unit k ms n = \<lparr>u_kind = k, u_messages = ms, u_tokens = n\<rparr>"

definition INSTRUCTION_ROLES :: "string list" where
  "INSTRUCTION_ROLES = [''system'', ''developer'']"

text \<open>Membership in a \<open>frozenset\<close> hashes its operand: lists and dictionaries raise.\<close>

definition is_instruction_role :: "json \<Rightarrow> bool result" where
  "is_instruction_role role =
     (case role of
        JArr _ \<Rightarrow> Inl TypeError
      | JObj _ \<Rightarrow> Inl TypeError
      | JStr s \<Rightarrow> Inr (s \<in> set INSTRUCTION_ROLES)
      | _ \<Rightarrow> Inr False)"

record seg_state =
  seg_units :: "ctx_unit list"
  seg_prefill :: "pydict list"
  seg_turn :: "pydict list option"

definition seg_init :: seg_state where
  "seg_init = \<lparr>seg_units = [], seg_prefill = [], seg_turn = None\<rparr>"

definition close_turn :: "token_counter \<Rightarrow> seg_state \<Rightarrow> seg_state result" where
  "close_turn counter s =
     (case seg_turn s of
        None \<Rightarrow> Inr s
      | Some turn \<Rightarrow>
          if turn = [] then Inr s
          else bind_r (count_messages counter turn) (\<lambda>n.
               Inr (s\<lparr>seg_units := seg_units s @ [mk_unit Turn_unit turn n], seg_turn := None\<rparr>)))"

definition close_prefill :: "token_counter \<Rightarrow> seg_state \<Rightarrow> seg_state result" where
  "close_prefill counter s =
     (if seg_prefill s = [] then Inr s
      else bind_r (count_messages counter (seg_prefill s)) (\<lambda>n.
           Inr (s\<lparr>seg_units := seg_units s @ [mk_unit Prefill_unit (seg_prefill s) n],
                  seg_prefill := []\<rparr>)))"

definition segment_step :: "token_counter \<Rightarrow> seg_state \<Rightarrow> pydict \<Rightarrow> seg_state result" where
  "segment_step counter s message =
     (let role = dget message ''role'' in
      bind_r (is_instruction_role role) (\<lambda>instruction.
      if instruction then
        bind_r (close_prefill counter s) (\<lambda>s1.
        bind_r (count_messages counter [message]) (\<lambda>n.
        Inr (s1\<lparr>seg_units := seg_units s1 @ [mk_unit System_unit [message] n]\<rparr>)))
      else if role = JStr ''user'' then
        bind_r (close_turn counter s) (\<lambda>s1.
        bind_r (close_prefill counter s1) (\<lambda>s2.
        Inr (s2\<lparr>seg_turn := Some [message]\<rparr>)))
      else
        (case seg_turn s of
           Some turn \<Rightarrow> Inr (s\<lparr>seg_turn := Some (turn @ [message])\<rparr>)
         | None \<Rightarrow> Inr (s\<lparr>seg_prefill := seg_prefill s @ [message]\<rparr>))))"

definition segment_messages :: "token_counter \<Rightarrow> pydict list \<Rightarrow> ctx_unit list result" where
  "segment_messages counter messages =
     bind_r (fold_r (segment_step counter) seg_init messages) (\<lambda>s.
     bind_r (close_turn counter s) (\<lambda>s1.
     bind_r (close_prefill counter s1) (\<lambda>s2.
     Inr (seg_units s2))))"

record context_plan =
  cp_messages :: "pydict list"
  cp_total_tokens :: int
  cp_tools_tokens :: int
  cp_usable_budget :: int
  cp_dropped_units :: int
  cp_dropped_tokens :: int
  cp_details :: "(string \<times> int) list"

definition within_budget :: "context_plan \<Rightarrow> bool" where
  "within_budget p = (cp_total_tokens p + cp_tools_tokens p \<le> cp_usable_budget p)"

text \<open>What planning raises: \<open>ContextOverflowError\<close>, or an exception of the counter.\<close>

datatype plan_error = ContextOverflowError int int | Raised pyerr

definition lift_py :: "'a result \<Rightarrow> plan_error + 'a" where
  "lift_py m = (case m of Inl e \<Rightarrow> Inl (Raised e) | Inr x \<Rightarrow> Inr x)"

text \<open>The loop over \<open>enumerate(original)\<close> that clears positions of \<open>kept\<close>.\<close>

fun drop_oldest :: "int \<Rightarrow> int \<Rightarrow> ctx_unit list \<Rightarrow> ctx_unit option list" where
  "drop_oldest available tot [] = []"
| "drop_oldest available tot (u # us) =
     (if tot \<le> available then map Some (u # us)
      else if is_system u then Some u # drop_oldest available tot us
      else None # drop_oldest available (tot - u_tokens u) us)"

definition kept_units :: "ctx_unit option list \<Rightarrow> ctx_unit list" where
  "kept_units kept = List.map_filter (\<lambda>u. u) kept"

definition plan_context ::
  "token_counter \<Rightarrow> pydict list \<Rightarrow> pydict list \<Rightarrow> json \<Rightarrow> int \<Rightarrow> int \<Rightarrow> plan_error + context_plan"
where
  "plan_context counter history current_request tools usable_budget reserved_tokens =
     bind_r (lift_py (count_tools counter tools)) (\<lambda>tools_tokens.
     bind_r (lift_py (if current_request = [] then Inr None
             else bind_r (count_messages counter current_request) (\<lambda>n.
                  Inr (Some (mk_unit Turn_unit current_request n))))) (\<lambda>current_unit.
     let current_tokens = (case current_unit of None \<Rightarrow> 0 | Some u \<Rightarrow> u_tokens u) in
     bind_r (lift_py (segment_messages counter history)) (\<lambda>original.
     let mandatory = sum_by u_tokens (filter is_system original) + tools_tokens + reserved_tokens
                     + current_tokens in
     if mandatory > usable_budget then Inl (ContextOverflowError mandatory usable_budget)
     else
     let available_for_history = usable_budget - tools_tokens - reserved_tokens - current_tokens;
         history_total = sum_by u_tokens original;
         kept = (if history_total > available_for_history
                 then drop_oldest available_for_history history_total original
                 else map Some original);
         final_units = kept_units kept @ (case current_unit of None \<Rightarrow> [] | Some u \<Rightarrow> [u]);
         final_total = sum_by u_tokens final_units in
     if final_total + tools_tokens > usable_budget
     then Inl (ContextOverflowError (final_total + tools_tokens) usable_budget)
     else
     let dropped_units = int (length original)
           - (int (length final_units) - (if current_unit = None then 0 else 1));
         dropped_tokens = sum_by u_tokens original - (final_total - current_tokens) in
     Inr \<lparr>cp_messages = concat (map u_messages final_units),
          cp_total_tokens = final_total,
          cp_tools_tokens = tools_tokens,
          cp_usable_budget = usable_budget,
          cp_dropped_units = dropped_units,
          cp_dropped_tokens = max 0 dropped_tokens,
          cp_details =
            [(''units_total'', int (length original)),
             (''units_kept'', int (length final_units)),
             (''system_tokens'', sum_by u_tokens (filter is_system final_units)),
             (''current_request_tokens'', current_tokens)]\<rparr>)))"

section \<open>What segmentation guarantees\<close>

definition role_of :: "pydict \<Rightarrow> json" where
  "role_of m = dget m ''role''"

definition is_instruction :: "pydict \<Rightarrow> bool" where
  "is_instruction m \<longleftrightarrow> (\<exists>r \<in> set INSTRUCTION_ROLES. role_of m = JStr r)"

definition is_user :: "pydict \<Rightarrow> bool" where
  "is_user m \<longleftrightarrow> role_of m = JStr ''user''"

text \<open>The shape of each kind of unit.\<close>

definition unit_shape :: "ctx_unit \<Rightarrow> bool" where
  "unit_shape u =
     (case u_kind u of
        System_unit \<Rightarrow> (\<exists>m. u_messages u = [m] \<and> is_instruction m)
      | Turn_unit \<Rightarrow> (\<exists>m rest. u_messages u = m # rest \<and> is_user m
                       \<and> (\<forall>r \<in> set rest. \<not> is_user r \<and> \<not> is_instruction r))
      | Prefill_unit \<Rightarrow> u_messages u \<noteq> []
                       \<and> (\<forall>r \<in> set (u_messages u). \<not> is_user r \<and> \<not> is_instruction r))"

definition unit_messages :: "ctx_unit list \<Rightarrow> pydict list" where
  "unit_messages us = concat (map u_messages us)"

lemma unit_messages_simps [simp]:
  "unit_messages [] = []"
  "unit_messages (u # us) = u_messages u @ unit_messages us"
  "unit_messages (us @ vs) = unit_messages us @ unit_messages vs"
  by (simp_all add: unit_messages_def)

lemma is_instruction_role_Inr:
  "is_instruction_role (dget m ''role'') = Inr b \<Longrightarrow> b = is_instruction m"
  by (auto simp: is_instruction_role_def is_instruction_def role_of_def INSTRUCTION_ROLES_def
      split: json.splits)

lemma is_user_not_instruction: "is_user m \<Longrightarrow> \<not> is_instruction m"
  by (auto simp: is_user_def is_instruction_def INSTRUCTION_ROLES_def)

definition seg_inv :: "token_counter \<Rightarrow> pydict list \<Rightarrow> seg_state \<Rightarrow> bool" where
  "seg_inv counter seen s \<longleftrightarrow>
     (\<forall>u \<in> set (seg_units s). unit_shape u \<and> count_messages counter (u_messages u) = Inr (u_tokens u))
     \<and> unit_messages (filter is_system (seg_units s)) = filter is_instruction seen
     \<and> unit_messages (filter (Not \<circ> is_system) (seg_units s)) @ seg_prefill s
         @ (case seg_turn s of None \<Rightarrow> [] | Some t \<Rightarrow> t) = filter (Not \<circ> is_instruction) seen
     \<and> (\<forall>m \<in> set (seg_prefill s). \<not> is_user m \<and> \<not> is_instruction m)
     \<and> (\<forall>t. seg_turn s = Some t \<longrightarrow> seg_prefill s = [] \<and> unit_shape (mk_unit Turn_unit t 0))"

lemma seg_inv_init: "seg_inv counter [] seg_init"
  by (simp add: seg_inv_def seg_init_def)

lemma unit_shape_mk [simp]:
  "unit_shape (mk_unit System_unit ms n) \<longleftrightarrow> (\<exists>m. ms = [m] \<and> is_instruction m)"
  "unit_shape (mk_unit Prefill_unit ms n) \<longleftrightarrow> ms \<noteq> [] \<and> (\<forall>r \<in> set ms. \<not> is_user r \<and> \<not> is_instruction r)"
  "unit_shape (mk_unit Turn_unit ms n) \<longleftrightarrow>
     (\<exists>m rest. ms = m # rest \<and> is_user m \<and> (\<forall>r \<in> set rest. \<not> is_user r \<and> \<not> is_instruction r))"
  by (auto simp: unit_shape_def mk_unit_def)

lemma mk_unit_simps [simp]:
  "u_kind (mk_unit k ms n) = k"
  "u_messages (mk_unit k ms n) = ms"
  "u_tokens (mk_unit k ms n) = n"
  "is_system (mk_unit k ms n) \<longleftrightarrow> k = System_unit"
  by (simp_all add: mk_unit_def is_system_def)

lemma close_turn_inv:
  "close_turn counter s = Inr s' \<Longrightarrow> seg_inv counter seen s
   \<Longrightarrow> seg_inv counter seen s' \<and> seg_turn s' = None \<and> (seg_turn s = None \<or> seg_prefill s' = [])"
  by (auto simp: close_turn_def seg_inv_def result_simps split: option.splits if_splits)

lemma close_prefill_inv:
  "close_prefill counter s = Inr s' \<Longrightarrow> seg_inv counter seen s
   \<Longrightarrow> seg_inv counter seen s' \<and> seg_turn s' = seg_turn s \<and> seg_prefill s' = []"
  by (auto simp: close_prefill_def seg_inv_def result_simps split: option.splits if_splits)

lemma seg_inv_instruction:
  assumes "seg_inv counter seen s" "is_instruction m" "count_messages counter [m] = Inr n"
    "seg_prefill s = []"
  shows "seg_inv counter (seen @ [m]) (s\<lparr>seg_units := seg_units s @ [mk_unit System_unit [m] n]\<rparr>)"
  using assms by (auto simp: seg_inv_def)

lemma seg_inv_user:
  assumes "seg_inv counter seen s" "is_user m" "seg_turn s = None" "seg_prefill s = []"
  shows "seg_inv counter (seen @ [m]) (s\<lparr>seg_turn := Some [m]\<rparr>)"
  using assms is_user_not_instruction [of m] by (auto simp: seg_inv_def)

lemma seg_inv_follow:
  assumes "seg_inv counter seen s" "\<not> is_user m" "\<not> is_instruction m"
  shows "seg_turn s = Some t \<Longrightarrow> seg_inv counter (seen @ [m]) (s\<lparr>seg_turn := Some (t @ [m])\<rparr>)"
    and "seg_turn s = None \<Longrightarrow> seg_inv counter (seen @ [m]) (s\<lparr>seg_prefill := seg_prefill s @ [m]\<rparr>)"
  using assms by (auto simp: seg_inv_def)

lemma segment_step_inv:
  assumes inv: "seg_inv counter seen s" and step: "segment_step counter s m = Inr s'"
  shows "seg_inv counter (seen @ [m]) s'"
proof (cases "is_instruction m")
  case True
  with step obtain s1 n where "close_prefill counter s = Inr s1" "count_messages counter [m] = Inr n"
    "s' = s1\<lparr>seg_units := seg_units s1 @ [mk_unit System_unit [m] n]\<rparr>"
    by (auto simp: segment_step_def Let_def result_simps dest!: is_instruction_role_Inr)
  with inv True show ?thesis by (auto dest!: close_prefill_inv intro!: seg_inv_instruction)
next
  case False
  show ?thesis
  proof (cases "is_user m")
    case True
    with False step obtain s1 s2 where "close_turn counter s = Inr s1" "close_prefill counter s1 = Inr s2"
      "s' = s2\<lparr>seg_turn := Some [m]\<rparr>"
      by (auto simp: segment_step_def Let_def result_simps is_user_def role_of_def
          is_instruction_role_def INSTRUCTION_ROLES_def split: if_splits)
    with inv True show ?thesis
      by (auto intro!: seg_inv_user dest!: close_turn_inv close_prefill_inv)
  next
    case not_user: False
    with False step consider t where "seg_turn s = Some t" "s' = s\<lparr>seg_turn := Some (t @ [m])\<rparr>"
      | "seg_turn s = None" "s' = s\<lparr>seg_prefill := seg_prefill s @ [m]\<rparr>"
      by (auto simp: segment_step_def Let_def result_simps is_user_def role_of_def
          dest!: is_instruction_role_Inr split: if_splits option.splits)
    then show ?thesis using inv False not_user by cases (auto intro: seg_inv_follow)
  qed
qed

lemma segment_messages_spec:
  assumes "segment_messages counter ms = Inr us"
  shows "\<forall>u \<in> set us. unit_shape u \<and> count_messages counter (u_messages u) = Inr (u_tokens u)"
    and "unit_messages (filter is_system us) = filter is_instruction ms"
    and "unit_messages (filter (Not \<circ> is_system) us) = filter (Not \<circ> is_instruction) ms"
proof -
  from assms obtain s s1 s2 where s: "fold_r (segment_step counter) seg_init ms = Inr s"
    and s1: "close_turn counter s = Inr s1" and s2: "close_prefill counter s1 = Inr s2"
    and us: "us = seg_units s2"
    by (auto simp: segment_messages_def result_simps)
  have "seg_inv counter ([] @ ms) s"
    by (rule fold_r_prefix_invariant [OF s, of "seg_inv counter"]) (auto intro: seg_inv_init segment_step_inv)
  with s1 s2 have "seg_inv counter ms s2" "seg_turn s2 = None" "seg_prefill s2 = []"
    by (auto dest!: close_turn_inv close_prefill_inv)
  then show "\<forall>u \<in> set us. unit_shape u \<and> count_messages counter (u_messages u) = Inr (u_tokens u)"
    and "unit_messages (filter is_system us) = filter is_instruction ms"
    and "unit_messages (filter (Not \<circ> is_system) us) = filter (Not \<circ> is_instruction) ms"
    by (simp_all add: seg_inv_def us)
qed

lemma mset_unit_messages_filter:
  "mset (unit_messages us) =
     mset (unit_messages (filter P us)) + mset (unit_messages (filter (Not \<circ> P) us))"
  by (induction us) auto

lemma mset_filter_split: "mset (filter P xs) + mset (filter (Not \<circ> P) xs) = mset xs"
  by (induction xs) auto

lemma segment_messages_mset:
  assumes "segment_messages counter ms = Inr us"
  shows "mset (unit_messages us) = mset ms"
  using segment_messages_spec(2,3) [OF assms] mset_unit_messages_filter [of us is_system]
    mset_filter_split [of is_instruction ms] by simp

section \<open>Which units the planner keeps\<close>

text \<open>Keep every instruction unit, and every unit from position \<open>k\<close> on.\<close>

definition keep_from :: "nat \<Rightarrow> ctx_unit list \<Rightarrow> ctx_unit list" where
  "keep_from k us = filter is_system (take k us) @ drop k us"

lemma keep_from_0 [simp]: "keep_from 0 us = us"
  and keep_from_Nil [simp]: "keep_from k [] = []"
  and keep_from_Suc [simp]:
    "keep_from (Suc k) (u # us) = (if is_system u then [u] else []) @ keep_from k us"
  and keep_from_all: "length us \<le> k \<Longrightarrow> keep_from k us = filter is_system us"
  by (simp_all add: keep_from_def)

lemma filter_system_keep_from: "filter is_system (keep_from k us) = filter is_system us"
  unfolding keep_from_def filter_append filter_filter
  by (metis (no_types, lifting) append_take_drop_id filter_append filter_cong)

lemma kept_units_simps [simp]:
  "kept_units [] = []"
  "kept_units (Some u # ks) = u # kept_units ks"
  "kept_units (None # ks) = kept_units ks"
  "kept_units (map Some us) = us"
  by (induction us) (simp_all add: kept_units_def List.map_filter_def)

lemma drop_oldest_keep_from:
  assumes "b + sum_by u_tokens (filter is_system us) \<le> avail"
  shows "\<exists>k \<le> length us. kept_units (drop_oldest avail (b + sum_by u_tokens us) us) = keep_from k us
     \<and> b + sum_by u_tokens (keep_from k us) \<le> avail
     \<and> (\<forall>j < k. avail < b + sum_by u_tokens (keep_from j us))"
  using assms
proof (induction us arbitrary: b)
  case Nil
  then show ?case by simp
next
  case (Cons u us)
  show ?case
  proof (cases "b + sum_by u_tokens (u # us) \<le> avail")
    case True
    then show ?thesis by (intro exI [of _ 0]) simp
  next
    case False
    define b' where "b' = (if is_system u then b + u_tokens u else b)"
    have "b' + sum_by u_tokens (filter is_system us) \<le> avail"
      using Cons.prems by (simp add: b'_def split: if_splits)
    from Cons.IH [OF this] obtain k where k: "k \<le> length us"
      "kept_units (drop_oldest avail (b' + sum_by u_tokens us) us) = keep_from k us"
      "b' + sum_by u_tokens (keep_from k us) \<le> avail"
      "\<forall>j < k. avail < b' + sum_by u_tokens (keep_from j us)" by blast
    have "avail < b + sum_by u_tokens (keep_from j (u # us))" if "j < Suc k" for j
    proof (cases j)
      case 0
      with False show ?thesis by simp
    next
      case (Suc i)
      with that k(4) show ?thesis by (auto simp: b'_def add.assoc split: if_splits)
    qed
    moreover have "kept_units (drop_oldest avail (b + sum_by u_tokens (u # us)) (u # us)) = keep_from (Suc k) (u # us)"
      using False k(2) by (auto simp: b'_def add.assoc)
    ultimately show ?thesis using k(1,3) by (intro exI [of _ "Suc k"]) (auto simp: b'_def)
  qed
qed

lemma trimmed_keep_from:
  assumes "sum_by u_tokens (filter is_system us) \<le> avail"
  obtains k where "k \<le> length us"
    "kept_units (if sum_by u_tokens us > avail then drop_oldest avail (sum_by u_tokens us) us
                 else map Some us) = keep_from k us"
    "sum_by u_tokens (keep_from k us) \<le> avail" "\<forall>j < k. avail < sum_by u_tokens (keep_from j us)"
  using drop_oldest_keep_from [of 0 us avail] assms that [of 0] that
  by (cases "sum_by u_tokens us > avail") auto

context lawful_counter
begin

lemma count_messages_Nil: "count_messages counter [] = Inr 0"
  by (simp add: count_messages_Inr)

lemma segment_messages_sum:
  assumes "segment_messages counter ms = Inr us"
  shows "sum_by u_tokens us = sum_by cost ms"
proof -
  have "sum_by u_tokens us = sum_by (\<lambda>u. sum_by cost (u_messages u)) us"
    using segment_messages_spec(1) [OF assms] by (intro sum_by_cong) (auto simp: count_messages_Inr)
  also have "\<dots> = sum_by cost (unit_messages us)"
    by (induction us) auto
  also have "\<dots> = sum_by cost ms"
    by (rule sum_by_mset [OF segment_messages_mset [OF assms]])
  finally show ?thesis .
qed

lemma unit_tokens_nonneg:
  "segment_messages counter ms = Inr us \<Longrightarrow> u \<in> set us \<Longrightarrow> 0 \<le> u_tokens u"
  using segment_messages_spec(1) count_messages_nonneg by blast

text \<open>Once counting and segmentation succeed, overflow of the mandatory part is the only error.\<close>

lemma plan_context_result:
  assumes tt: "count_tools counter tools = Inr tt"
    and ct: "count_messages counter cur = Inr ct"
    and us: "segment_messages counter hist = Inr us"
    and R: "0 \<le> R"
  defines "mandatory \<equiv> sum_by u_tokens (filter is_system us) + tt + R + ct"
  shows "if B < mandatory
    then plan_context counter hist cur tools B R = Inl (ContextOverflowError mandatory B)
    else \<exists>p k. plan_context counter hist cur tools B R = Inr p \<and> k \<le> length us
      \<and> cp_messages p = unit_messages (keep_from k us) @ cur
      \<and> cp_total_tokens p = sum_by u_tokens (keep_from k us) + ct
      \<and> cp_tools_tokens p = tt \<and> cp_usable_budget p = B
      \<and> cp_dropped_units p = int (length us) - int (length (keep_from k us))
      \<and> cp_total_tokens p + tt + R \<le> B
      \<and> (\<forall>j < k. B < sum_by u_tokens (keep_from j us) + ct + tt + R)"
proof -
  define cu where "cu = (if cur = [] then None else Some (mk_unit Turn_unit cur ct))"
  have cu: "(if cur = [] then Inr None else bind_r (count_messages counter cur)
      (\<lambda>n. Inr (Some (mk_unit Turn_unit cur n)))) = Inr cu"
    using ct by (simp add: cu_def)
  have ctok: "(case cu of None \<Rightarrow> 0 | Some u \<Rightarrow> u_tokens u) = ct"
    using ct by (auto simp: cu_def count_messages_Nil)
  define avail where "avail = B - tt - R - ct"
  define kept where "kept = kept_units (if sum_by u_tokens us > avail
      then drop_oldest avail (sum_by u_tokens us) us else map Some us)"
  have cu_msgs: "concat (map u_messages (case cu of None \<Rightarrow> [] | Some u \<Rightarrow> [u])) = cur"
    and cu_tok: "sum_by u_tokens (case cu of None \<Rightarrow> [] | Some u \<Rightarrow> [u]) = ct"
    and cu_len: "int (length (case cu of None \<Rightarrow> [] | Some u \<Rightarrow> [u])) = (if cu = None then 0 else 1)"
    using ct by (auto simp: cu_def count_messages_Nil)
  show ?thesis
  proof (cases "B < mandatory")
    case True
    then show ?thesis
      using tt us R unfolding mandatory_def plan_context_def by (simp add: cu lift_py_def ctok)
  next
    case False
    then have "sum_by u_tokens (filter is_system us) \<le> avail"
      by (simp add: mandatory_def avail_def)
    then obtain k where k: "k \<le> length us" "kept = keep_from k us"
      "sum_by u_tokens (keep_from k us) \<le> avail" "\<forall>j < k. avail < sum_by u_tokens (keep_from j us)"
      unfolding kept_def by (rule trimmed_keep_from)
    have fit: "sum_by u_tokens kept + ct + tt \<le> B" using k(2,3) R by (simp add: avail_def)
    have "\<exists>p. plan_context counter hist cur tools B R = Inr p
        \<and> cp_messages p = unit_messages kept @ cur
        \<and> cp_total_tokens p = sum_by u_tokens kept + ct
        \<and> cp_tools_tokens p = tt \<and> cp_usable_budget p = B
        \<and> cp_dropped_units p = int (length us) - int (length kept)"
      using tt us False fit cu_msgs cu_tok cu_len
      unfolding plan_context_def mandatory_def
      by (simp add: cu lift_py_def ctok unit_messages_def flip: avail_def kept_def)
    then obtain p where p: "plan_context counter hist cur tools B R = Inr p"
        "cp_messages p = unit_messages kept @ cur" "cp_total_tokens p = sum_by u_tokens kept + ct"
        "cp_tools_tokens p = tt" "cp_usable_budget p = B"
        "cp_dropped_units p = int (length us) - int (length kept)" by blast
    have "\<forall>j < k. B < sum_by u_tokens (keep_from j us) + ct + tt + R"
      using k(4) by (force simp: avail_def)
    moreover have "cp_total_tokens p + tt + R \<le> B" using k(2,3) p(3) by (simp add: avail_def)
    ultimately show ?thesis using k(1,2) p False by auto
  qed
qed

text \<open>Segmentation raises only when a message cannot be counted or has an unhashable role.\<close>

definition seg_countable :: "seg_state \<Rightarrow> bool" where
  "seg_countable s \<longleftrightarrow> (\<forall>m \<in> set (seg_prefill s). countable m)
     \<and> (\<forall>t. seg_turn s = Some t \<longrightarrow> (\<forall>m \<in> set t. countable m))"

lemma close_turn_countable:
  "seg_countable s \<Longrightarrow> \<exists>s'. close_turn counter s = Inr s' \<and> seg_countable s'"
  by (auto simp: close_turn_def seg_countable_def result_simps count_messages_Inr split: option.split)

lemma close_prefill_countable:
  "seg_countable s \<Longrightarrow> \<exists>s'. close_prefill counter s = Inr s' \<and> seg_countable s'"
  by (auto simp: close_prefill_def seg_countable_def result_simps count_messages_Inr)

lemma segment_step_total:
  assumes s: "seg_countable s" and m: "countable m" "is_instruction_role (dget m ''role'') = Inr b"
  shows "\<exists>s'. segment_step counter s m = Inr s' \<and> seg_countable s'"
proof -
  obtain s1 where s1: "close_turn counter s = Inr s1" "seg_countable s1"
    using close_turn_countable [OF s] by blast
  obtain s2 where s2: "close_prefill counter s1 = Inr s2" "seg_countable s2"
    using close_prefill_countable [OF s1(2)] by blast
  obtain s3 where s3: "close_prefill counter s = Inr s3" "seg_countable s3"
    using close_prefill_countable [OF s] by blast
  have "\<exists>n. count_messages counter [m] = Inr n" using m(1) by (simp add: count_messages_Inr)
  with s s1 s2 s3 m show ?thesis
    by (auto simp: segment_step_def seg_countable_def split: option.split)
qed

lemma segment_messages_total:
  assumes "\<forall>m \<in> set ms. countable m \<and> (\<exists>b. is_instruction_role (dget m ''role'') = Inr b)"
  shows "\<exists>us. segment_messages counter ms = Inr us"
proof -
  have "\<exists>s'. fold_r (segment_step counter) s ms = Inr s' \<and> seg_countable s'" if "seg_countable s" for s
    using assms that
  proof (induction ms arbitrary: s)
    case (Cons m ms)
    then obtain s1 where "segment_step counter s m = Inr s1" "seg_countable s1"
      using segment_step_total by (meson list.set_intros(1))
    with Cons show ?case by simp
  qed simp
  moreover have "seg_countable seg_init" by (simp add: seg_countable_def seg_init_def)
  ultimately obtain s where s: "fold_r (segment_step counter) seg_init ms = Inr s" "seg_countable s"
    by blast
  from close_turn_countable [OF s(2)] obtain s1 where s1: "close_turn counter s = Inr s1" "seg_countable s1"
    by blast
  from close_prefill_countable [OF s1(2)] obtain s2 where "close_prefill counter s1 = Inr s2" by blast
  with s(1) s1(1) show ?thesis by (simp add: segment_messages_def)
qed

lemma lift_py_Inr [simp]: "lift_py m = Inr x \<longleftrightarrow> m = Inr x"
  by (cases m) (auto simp: lift_py_def)

lemma plan_context_Inr:
  assumes "plan_context counter hist cur tools B R = Inr p" "0 \<le> R"
  obtains us k ct where "segment_messages counter hist = Inr us" "count_messages counter cur = Inr ct"
    "count_tools counter tools = Inr (cp_tools_tokens p)" "k \<le> length us" "cp_usable_budget p = B"
    "cp_messages p = unit_messages (keep_from k us) @ cur"
    "cp_total_tokens p = sum_by u_tokens (keep_from k us) + ct"
    "cp_dropped_units p = int (length us) - int (length (keep_from k us))"
    "cp_total_tokens p + cp_tools_tokens p + R \<le> B"
    "\<forall>j < k. B < sum_by u_tokens (keep_from j us) + ct + cp_tools_tokens p + R"
proof -
  from assms(1) obtain tt us where tt: "count_tools counter tools = Inr tt"
    and us: "segment_messages counter hist = Inr us"
    and "cur = [] \<or> (\<exists>n. count_messages counter cur = Inr n)"
    unfolding plan_context_def by (auto simp: result_simps split: if_splits)
  then obtain ct where ct: "count_messages counter cur = Inr ct" using count_messages_Nil by auto
  obtain p' k where "plan_context counter hist cur tools B R = Inr p'" and k: "k \<le> length us"
      "cp_messages p' = unit_messages (keep_from k us) @ cur"
      "cp_total_tokens p' = sum_by u_tokens (keep_from k us) + ct"
      "cp_tools_tokens p' = tt" "cp_usable_budget p' = B"
      "cp_dropped_units p' = int (length us) - int (length (keep_from k us))"
      "cp_total_tokens p' + tt + R \<le> B"
      "\<forall>j < k. B < sum_by u_tokens (keep_from j us) + ct + tt + R"
    using plan_context_result [OF tt ct us assms(2), of B] assms(1)
    by (metis (no_types, lifting) sum.distinct(1))
  moreover from this(1) assms(1) have "p' = p" by simp
  ultimately show ?thesis using that [OF us ct, of k] tt by simp
qed

lemma keep_from_subset: "set (keep_from k us) \<subseteq> set us"
  by (auto simp: keep_from_def dest: in_set_takeD in_set_dropD)

lemma unit_messages_count:
  assumes "\<forall>u \<in> set us. count_messages counter (u_messages u) = Inr (u_tokens u)"
  shows "count_messages counter (unit_messages us) = Inr (sum_by u_tokens us)"
  using assms by (induction us) (auto simp: count_messages_Nil count_messages_append)

lemma plan_context_recount:
  assumes "plan_context counter hist cur tools B R = Inr p" "0 \<le> R"
  shows "count_messages counter (cp_messages p) = Inr (cp_total_tokens p)"
  using assms
proof (rule plan_context_Inr)
  fix us k ct
  assume us: "segment_messages counter hist = Inr us" and ct: "count_messages counter cur = Inr ct"
    and m: "cp_messages p = unit_messages (keep_from k us) @ cur"
    and t: "cp_total_tokens p = sum_by u_tokens (keep_from k us) + ct"
  have "\<forall>u \<in> set (keep_from k us). count_messages counter (u_messages u) = Inr (u_tokens u)"
    using segment_messages_spec(1) [OF us] keep_from_subset by blast
  from unit_messages_count [OF this] ct m t show ?thesis by (simp add: count_messages_append)
qed

end

lemma instructions_of_units:
  assumes "\<forall>u \<in> set us. unit_shape u"
  shows "filter is_instruction (unit_messages us) = unit_messages (filter is_system us)"
  using assms
proof (induction us)
  case (Cons u us)
  have "filter is_instruction (u_messages u) = (if is_system u then u_messages u else [])"
    using Cons.prems is_user_not_instruction
    by (auto simp: unit_shape_def is_system_def filter_empty_conv split: unit_kind.splits)
  with Cons show ?case by simp
qed simp

section \<open>Properties\<close>

text \<open>
  C15. The budget is a hard ceiling.  When \<open>plan_context\<close> returns a plan, counting the planned
  messages again gives the total it reports, the tool count it reports is that of the tools,
  and total, tools and the reserved tokens together stay within the usable budget.
\<close>

theorem plan_context_within_budget:
  assumes "plan_context TokenCounter hist cur tools B R = Inr p" "0 \<le> R"
  shows "messages_tokens (cp_messages p) = Inr (cp_total_tokens p)
    \<and> tools_tokens_of tools = Inr (cp_tools_tokens p)
    \<and> cp_total_tokens p + cp_tools_tokens p + R \<le> B \<and> within_budget p"
proof -
  obtain "tools_tokens_of tools = Inr (cp_tools_tokens p)" "cp_usable_budget p = B"
    "cp_total_tokens p + cp_tools_tokens p + R \<le> B"
    using assms by (rule tc.plan_context_Inr) (simp add: TokenCounter_simps)
  with tc.plan_context_recount [OF assms] assms(2) show ?thesis
    by (simp add: TokenCounter_simps within_budget_def)
qed

text \<open>A small conversation for the witnesses: two turns behind an instruction, and a request.\<close>

definition chat_msg :: "string \<Rightarrow> string \<Rightarrow> pydict" where
  "chat_msg role content = [(''role'', JStr role), (''content'', JStr content)]"

definition demo_history :: "pydict list" where
  "demo_history = [chat_msg ''system'' ''be brief'', chat_msg ''user'' ''first question'', chat_msg ''assistant'' ''an answer'',
     chat_msg ''user'' ''second question'', chat_msg ''assistant'' ''again'']"

definition demo_request :: "pydict list" where
  "demo_request = [chat_msg ''user'' ''now'']"

definition demo_plan :: context_plan where
  "demo_plan =
     \<lparr>cp_messages = [chat_msg ''system'' ''be brief'', chat_msg ''user'' ''second question'', chat_msg ''assistant'' ''again'',
        chat_msg ''user'' ''now''],
      cp_total_tokens = 25, cp_tools_tokens = 0, cp_usable_budget = 40, cp_dropped_units = 1,
      cp_dropped_tokens = 15,
      cp_details = [(''units_total'', 3), (''units_kept'', 3), (''system_tokens'', 6), (''current_request_tokens'', 5)]\<rparr>"

lemma demo_plan_computed: "plan_context TokenCounter demo_history demo_request JNull 40 5 = Inr demo_plan"
  by code_simp

theorem plan_context_within_budget_witness:
  "cp_total_tokens demo_plan + cp_tools_tokens demo_plan + 5 \<le> 40"
  using plan_context_within_budget [OF demo_plan_computed] by simp

text \<open>
  C16. Of the history, the planner keeps every instruction unit and the longest recent window
  of whole units that fits: the units from position \<open>k\<close> on fit, with the request, the tools and the
  reservation, while keeping any earlier start \<open>j < k\<close> would exceed the budget.  The messages of the current
  request follow, unchanged.
\<close>

theorem plan_context_longest_window:
  assumes "plan_context TokenCounter hist cur tools B R = Inr p" "0 \<le> R"
  shows "\<exists>us k ct. segment_messages TokenCounter hist = Inr us \<and> messages_tokens cur = Inr ct
    \<and> tools_tokens_of tools = Inr (cp_tools_tokens p)
    \<and> k \<le> length us \<and> cp_messages p = unit_messages (keep_from k us) @ cur
    \<and> cp_dropped_units p = int (length us) - int (length (keep_from k us))
    \<and> sum_by u_tokens (keep_from k us) + ct + cp_tools_tokens p + R \<le> B
    \<and> (\<forall>j < k. B < sum_by u_tokens (keep_from j us) + ct + cp_tools_tokens p + R)"
proof -
  obtain us k ct where "segment_messages TokenCounter hist = Inr us" "messages_tokens cur = Inr ct"
    "tools_tokens_of tools = Inr (cp_tools_tokens p)" "k \<le> length us" "cp_messages p = unit_messages (keep_from k us) @ cur"
    "cp_dropped_units p = int (length us) - int (length (keep_from k us))"
    "sum_by u_tokens (keep_from k us) + ct + cp_tools_tokens p + R \<le> B"
    "\<forall>j < k. B < sum_by u_tokens (keep_from j us) + ct + cp_tools_tokens p + R"
    by (rule tc.plan_context_Inr [OF assms]) (simp add: TokenCounter_simps)
  then show ?thesis by blast
qed

theorem plan_context_longest_window_witness:
  "\<exists>us k ct. segment_messages TokenCounter demo_history = Inr us
    \<and> cp_messages demo_plan = unit_messages (keep_from k us) @ demo_request
    \<and> sum_by u_tokens (keep_from k us) + ct + cp_tools_tokens demo_plan + 5 \<le> 40
    \<and> (\<forall>j < k. 40 < sum_by u_tokens (keep_from j us) + ct + cp_tools_tokens demo_plan + 5)"
proof -
  have "(0::int) \<le> 5" by simp
  from plan_context_longest_window [OF demo_plan_computed this] show ?thesis by blast
qed

text \<open>
  Instructions are never dropped: the system and developer messages of a plan are those of
  the history and of the current request, in their order, and the request is a suffix of the plan.
\<close>

lemma plan_context_keeps_instructions:
  assumes "plan_context TokenCounter hist cur tools B R = Inr p" "0 \<le> R"
  shows "filter is_instruction (cp_messages p) = filter is_instruction (hist @ cur)
    \<and> drop (length (cp_messages p) - length cur) (cp_messages p) = cur"
  using assms
proof (rule tc.plan_context_Inr)
  fix us k
  assume us: "segment_messages TokenCounter hist = Inr us"
    and m: "cp_messages p = unit_messages (keep_from k us) @ cur"
  have "\<forall>u \<in> set (keep_from k us). unit_shape u"
    using segment_messages_spec(1) [OF us] tc.keep_from_subset by blast
  then have "filter is_instruction (unit_messages (keep_from k us)) = filter is_instruction hist"
    using segment_messages_spec(2) [OF us] by (simp add: instructions_of_units filter_system_keep_from)
  with m show ?thesis by simp
qed

lemma plan_context_keeps_instructions_witness:
  "filter is_instruction (cp_messages demo_plan) = filter is_instruction (demo_history @ demo_request)"
  using plan_context_keeps_instructions [OF demo_plan_computed] by simp

text \<open>
  C17. When every message can be counted and has a hashable role, planning fails exactly if the
  mandatory part (instructions, tools, reservation, current request) exceeds the budget, and then
  with \<open>ContextOverflowError\<close> carrying that amount; otherwise a plan is returned.
\<close>

theorem plan_context_overflow_iff:
  assumes "tools_tokens_of tools = Inr tt" "messages_tokens cur = Inr ct"
    and "messages_tokens (filter is_instruction hist) = Inr it" "messages_tokens hist = Inr n"
    and "\<forall>m \<in> set hist. \<exists>b. is_instruction_role (role_of m) = Inr b" "0 \<le> R"
  shows "if it + tt + R + ct \<le> B then \<exists>p. plan_context TokenCounter hist cur tools B R = Inr p
    else plan_context TokenCounter hist cur tools B R = Inl (ContextOverflowError (it + tt + R + ct) B)"
proof -
  have "\<forall>m \<in> set hist. tc.countable m"
    using assms(4) tc.count_messages_Inr [of hist n] by (simp add: TokenCounter_simps)
  then obtain us where us: "segment_messages TokenCounter hist = Inr us"
    using tc.segment_messages_total [of hist] assms(5) by (auto simp: role_of_def)
  have "count_messages TokenCounter (unit_messages (filter is_system us)) = Inr (sum_by u_tokens (filter is_system us))"
    using segment_messages_spec(1) [OF us] by (intro tc.unit_messages_count) auto
  then have "sum_by u_tokens (filter is_system us) = it"
    using assms(3) segment_messages_spec(2) [OF us] by (simp add: TokenCounter_simps)
  then show ?thesis
    using tc.plan_context_result [of tools tt cur ct hist us R B] us assms(1,2,6)
    by (auto simp: TokenCounter_simps not_less split: if_splits)
qed

theorem plan_context_overflow_iff_witness:
  "plan_context TokenCounter demo_history demo_request JNull 12 2 = Inl (ContextOverflowError 13 12)"
proof -
  have "tools_tokens_of JNull = Inr 0" "messages_tokens demo_request = Inr 5"
    "messages_tokens [chat_msg ''system'' ''be brief''] = Inr 6" "messages_tokens demo_history = Inr 35"
    by code_simp+
  moreover have "filter is_instruction demo_history = [chat_msg ''system'' ''be brief'']"
    by (simp add: demo_history_def chat_msg_def is_instruction_def role_of_def INSTRUCTION_ROLES_def)
  moreover have "\<forall>m \<in> set demo_history. \<exists>b. is_instruction_role (role_of m) = Inr b"
    by (simp add: demo_history_def chat_msg_def is_instruction_role_def role_of_def)
  ultimately show ?thesis
    using plan_context_overflow_iff [of JNull 0 demo_request 5 demo_history 6 35 2 12] by simp
qed

text \<open>
  Segmentation only regroups: its units hold exactly the messages of the input; the
  instructions and the remaining messages each keep their order; every unit has the shape of its
  kind (one instruction; a user message with everything up to the next one; a prefill without
  either) and carries the token count of its messages.
\<close>

lemma segment_messages_partition:
  assumes "segment_messages TokenCounter ms = Inr us"
  shows "mset (unit_messages us) = mset ms
    \<and> unit_messages (filter is_system us) = filter is_instruction ms
    \<and> unit_messages (filter (Not \<circ> is_system) us) = filter (Not \<circ> is_instruction) ms
    \<and> (\<forall>u \<in> set us. unit_shape u \<and> messages_tokens (u_messages u) = Inr (u_tokens u))"
  using segment_messages_mset [OF assms] segment_messages_spec [OF assms]
  by (simp add: TokenCounter_simps)

lemma segment_messages_partition_witness:
  "\<exists>us. segment_messages TokenCounter demo_history = Inr us \<and> mset (unit_messages us) = mset demo_history"
proof -
  have "segment_messages TokenCounter demo_history =
    Inr [mk_unit System_unit [chat_msg ''system'' ''be brief''] 6,
      mk_unit Turn_unit [chat_msg ''user'' ''first question'', chat_msg ''assistant'' ''an answer''] 15,
      mk_unit Turn_unit [chat_msg ''user'' ''second question'', chat_msg ''assistant'' ''again''] 14]"
    by code_simp
  from segment_messages_partition [OF this] this show ?thesis by blast
qed

end
