(* ===== verification/Validation.thy ===== *)
theory Validation
  imports Planner
begin

text \<open>
  Structural validation of chat payloads, \<open>api/validation.py\<close>.  A rejected payload is
  \<open>Inl message\<close> with the text of the \<open>PayloadValidationError\<close>, an accepted one \<open>Inr ()\<close>.

  The lemmas describe exactly what an accepted message, tool call and tool definition look
  like, which the token counter and the segmentation rely on.
\<close>

section \<open>Model\<close>

definition reject :: "string \<Rightarrow> string + 'a" where
  "reject msg = Inl msg"

definition require :: "bool \<Rightarrow> string \<Rightarrow> string + unit" where
  "require b msg = (if b then Inr () else reject msg)"

text \<open>\<open>for index, x in enumerate(xs): check(x, index)\<close>\<close>

fun check_each :: "(json \<Rightarrow> nat \<Rightarrow> string + unit) \<Rightarrow> nat \<Rightarrow> json list \<Rightarrow> string + unit" where
  "check_each chk i [] = Inr ()"
| "check_each chk i (x # xs) = bind_r (chk x i) (\<lambda>_. check_each chk (Suc i) xs)"

definition indexed :: "string \<Rightarrow> nat \<Rightarrow> string" where
  "indexed loc i = loc @ ''['' @ nat_digits i @ '']''"

definition quoted :: "string \<Rightarrow> string" where
  "quoted s = [CHR 0x27] @ s @ [CHR 0x27]"

definition nonempty_str :: "json \<Rightarrow> bool" where
  "nonempty_str v = (is_str v \<and> truthy v)"

definition function_parameters_or_none :: "string \<Rightarrow> pydict \<Rightarrow> json" where
  "function_parameters_or_none tool_type container =
     (if tool_type = ''function'' then dget container ''parameters'' else JNull)"

definition validate_tool :: "json \<Rightarrow> string \<Rightarrow> string + unit" where
  "validate_tool tool loc =
     (case tool of
        JObj d \<Rightarrow>
          (case dget d ''type'' of
             JStr tool_type \<Rightarrow>
               if tool_type = [] then reject (loc @ ''.type must be a non-empty string'')
               else if tool_type \<noteq> ''function'' \<and> tool_type \<noteq> ''custom'' then Inr ()
               else
                 let container_key = (if tool_type = ''function'' then ''function'' else ''custom'') in
                 (case dget d container_key of
                    JObj container \<Rightarrow>
                      bind_r (require (nonempty_str (dget container ''name''))
                        (loc @ ''.'' @ container_key @ ''.name must be a non-empty string'')) (\<lambda>_.
                      let description = dget container ''description'' in
                      bind_r (require (description = JNull \<or> is_str description)
                        (loc @ ''.'' @ container_key @ ''.description must be a string when present'')) (\<lambda>_.
                      let parameters = function_parameters_or_none tool_type container in
                      require (parameters = JNull \<or> is_dict parameters)
                        (loc @ ''.'' @ container_key @ ''.parameters must be an object when present'')))
                  | _ \<Rightarrow> reject (loc @ ''.'' @ container_key @ '' must be an object for '' @ tool_type @ '' tools''))
           | _ \<Rightarrow> reject (loc @ ''.type must be a non-empty string''))
      | _ \<Rightarrow> reject (loc @ '' must be an object''))"

text \<open>The payload container a call is checked by, with its key.\<close>

definition call_container :: "pydict \<Rightarrow> string \<Rightarrow> string + (json \<times> string)" where
  "call_container call call_loc =
     (let call_type = dget call ''type'' in
      if call_type = JStr ''custom'' then Inr (dget call ''custom'', ''custom'')
      else if call_type = JStr ''function'' then Inr (dget call ''function'', ''function'')
      else if has_key call ''function'' then Inr (dget call ''function'', ''function'')
      else if has_key call ''custom'' then Inr (dget call ''custom'', ''custom'')
      else reject (call_loc @ '' must carry a '' @ quoted ''function'' @ '' or '' @ quoted ''custom'' @ '' payload''))"

definition validate_call_container :: "json \<Rightarrow> string \<Rightarrow> string \<Rightarrow> string + unit" where
  "validate_call_container container key call_loc =
     (case container of
        JObj c \<Rightarrow>
          bind_r (require (nonempty_str (dget c ''name''))
            (call_loc @ ''.'' @ key @ ''.name must be a non-empty string'')) (\<lambda>_.
          let field = (if key = ''function'' then ''arguments'' else ''input'');
              arguments_or_input = dget c field in
          require (arguments_or_input = JNull \<or> is_str arguments_or_input)
            (call_loc @ ''.'' @ key @ ''.'' @ field @ '' must be a string when present''))
      | _ \<Rightarrow> reject (call_loc @ ''.'' @ key @ '' must be an object''))"

definition validate_tool_call :: "string \<Rightarrow> json \<Rightarrow> nat \<Rightarrow> string + unit" where
  "validate_tool_call loc call_json index =
     (let call_loc = indexed loc index in
      case call_json of
        JObj call \<Rightarrow>
          bind_r (require (dget call ''id'' = JNull \<or> is_str (dget call ''id''))
            (call_loc @ ''.id must be a string when present'')) (\<lambda>_.
          let call_type = dget call ''type'' in
          if is_str call_type \<and> call_type \<noteq> JStr ''function'' \<and> call_type \<noteq> JStr ''custom''
          then Inr ()
          else bind_r (call_container call call_loc) (\<lambda>(container, key).
               validate_call_container container key call_loc))
      | _ \<Rightarrow> reject (call_loc @ '' must be an object''))"

definition validate_tool_calls :: "json list \<Rightarrow> string \<Rightarrow> string + unit" where
  "validate_tool_calls tool_calls loc = check_each (validate_tool_call loc) 0 tool_calls"

definition validate_message :: "json \<Rightarrow> nat \<Rightarrow> string + unit" where
  "validate_message message index =
     (let loc = indexed ''messages'' index in
      case message of
        JObj m \<Rightarrow>
          bind_r (require (nonempty_str (dget m ''role'')) (loc @ ''.role must be a non-empty string'')) (\<lambda>_.
          bind_r (if has_key m ''content'' then
                    (case dget m ''content'' of
                       JNull \<Rightarrow> Inr ()
                     | JStr _ \<Rightarrow> Inr ()
                     | JArr parts \<Rightarrow>
                         check_each (\<lambda>part part_index. require (is_dict part)
                           (indexed (loc @ ''.content'') part_index @ '' must be an object'')) 0 parts
                     | _ \<Rightarrow> reject (loc @ ''.content must be a string, array, or null''))
                  else Inr ()) (\<lambda>_.
          (case dget m ''tool_calls'' of
             JNull \<Rightarrow> Inr ()
           | JArr calls \<Rightarrow> validate_tool_calls calls loc
           | _ \<Rightarrow> reject (loc @ ''.tool_calls must be an array when present''))))
      | _ \<Rightarrow> reject (loc @ '' must be an object''))"

definition validate_n :: "json \<Rightarrow> string + unit" where
  "validate_n n =
     (case n of
        JNull \<Rightarrow> Inr ()
      | JInt i \<Rightarrow> require (\<not> i > 1) ''only n=1 is supported by this proxy''
      | _ \<Rightarrow> reject (quoted ''n'' @ '' must be an integer when present''))"

definition validate_chat_payload :: "json \<Rightarrow> string + unit" where
  "validate_chat_payload payload_json =
     (case payload_json of
        JObj payload \<Rightarrow>
          bind_r (case dget payload ''messages'' of
              JArr messages \<Rightarrow>
                if messages = [] then reject (quoted ''messages'' @ '' must not be empty'')
                else check_each validate_message 0 messages
            | _ \<Rightarrow> reject (quoted ''messages'' @ '' must be an array of message objects'')) (\<lambda>_.
          bind_r (case dget payload ''tools'' of
              JNull \<Rightarrow> Inr ()
            | JArr tools \<Rightarrow> check_each (\<lambda>tool i. validate_tool tool (indexed ''tools'' i)) 0 tools
            | _ \<Rightarrow> reject (quoted ''tools'' @ '' must be an array when present'')) (\<lambda>_.
          bind_r (case dget payload ''stream'' of
              JNull \<Rightarrow> Inr ()
            | JBool _ \<Rightarrow> Inr ()
            | _ \<Rightarrow> reject (quoted ''stream'' @ '' must be a boolean when present'')) (\<lambda>_.
          validate_n (dget payload ''n''))))
      | _ \<Rightarrow> reject ''request body must be a JSON object'')"

section \<open>What an accepted payload looks like\<close>

lemma require_Inr [simp]: "require b msg = Inr u \<longleftrightarrow> b"
  by (simp add: require_def reject_def)

lemma reject_Inr [simp]: "reject msg \<noteq> Inr u"
  by (simp add: reject_def)

lemma check_each_Inr:
  "check_each chk i xs = Inr () \<longleftrightarrow> (\<forall>j < length xs. chk (xs ! j) (i + j) = Inr ())"
proof (induction xs arbitrary: i)
  case (Cons x xs)
  show ?case by (auto simp: Cons.IH result_simps nth_Cons' less_Suc_eq_0_disj)
qed simp

lemma check_each_const:
  assumes "\<And>x i. chk x i = Inr () \<longleftrightarrow> P x"
  shows "check_each chk i xs = Inr () \<longleftrightarrow> (\<forall>x \<in> set xs. P x)"
  by (auto simp: check_each_Inr assms all_set_conv_all_nth)

definition valid_container :: "string \<Rightarrow> json \<Rightarrow> bool" where
  "valid_container key v \<longleftrightarrow>
     (\<exists>c. v = JObj c \<and> nonempty_str (dget c ''name'')
        \<and> (let a = dget c (if key = ''function'' then ''arguments'' else ''input'') in a = JNull \<or> is_str a))"

text \<open>A call of an unknown string type is opaque; any other call has a checked container.\<close>

definition valid_tool_call :: "json \<Rightarrow> bool" where
  "valid_tool_call v \<longleftrightarrow>
     (\<exists>c. v = JObj c \<and> (dget c ''id'' = JNull \<or> is_str (dget c ''id''))
        \<and> (if is_str (dget c ''type'') \<and> dget c ''type'' \<noteq> JStr ''function'' \<and> dget c ''type'' \<noteq> JStr ''custom''
           then True
           else if dget c ''type'' = JStr ''custom'' then valid_container ''custom'' (dget c ''custom'')
           else if dget c ''type'' = JStr ''function'' \<or> has_key c ''function''
           then valid_container ''function'' (dget c ''function'')
           else has_key c ''custom'' \<and> valid_container ''custom'' (dget c ''custom'')))"

definition valid_message :: "json \<Rightarrow> bool" where
  "valid_message v \<longleftrightarrow>
     (\<exists>m. v = JObj m \<and> nonempty_str (dget m ''role'')
        \<and> (case dget m ''content'' of
              JNull \<Rightarrow> True | JStr _ \<Rightarrow> True | JArr ps \<Rightarrow> \<forall>p \<in> set ps. is_dict p | _ \<Rightarrow> False)
        \<and> (case dget m ''tool_calls'' of
              JNull \<Rightarrow> True | JArr cs \<Rightarrow> \<forall>c \<in> set cs. valid_tool_call c | _ \<Rightarrow> False))"

lemma validate_call_container_Inr:
  "validate_call_container v key w = Inr () \<longleftrightarrow> valid_container key v"
  by (cases v) (auto simp: validate_call_container_def valid_container_def result_simps Let_def)

lemma validate_tool_call_Inr: "validate_tool_call loc v i = Inr () \<longleftrightarrow> valid_tool_call v"
  by (cases v)
    (auto simp: validate_tool_call_def valid_tool_call_def call_container_def Let_def result_simps
       validate_call_container_Inr)

text \<open>A call of an unknown type passes whatever it carries, or if it carries nothing.\<close>

lemma opaque_call_accepted:
  assumes "dget c ''type'' = JStr t" "t \<noteq> ''function''" "t \<noteq> ''custom''" "dget c ''id'' = JNull \<or> is_str (dget c ''id'')"
  shows "validate_tool_call loc (JObj c) i = Inr ()"
  using assms by (simp add: validate_tool_call_Inr valid_tool_call_def)

lemma dget_no_key: "\<not> has_key m k \<Longrightarrow> dget m k = JNull"
  by (simp add: has_key_def dget_def)

lemma validate_message_Inr: "validate_message v i = Inr () \<longleftrightarrow> valid_message v"
proof (cases v)
  case (JObj m)
  have "check_each (\<lambda>part part_index. require (is_dict part) (f part_index)) 0 ps = Inr ()
      \<longleftrightarrow> (\<forall>p \<in> set ps. is_dict p)" for f :: "nat \<Rightarrow> string" and ps
    by (rule check_each_const) simp
  moreover have "validate_tool_calls cs loc = Inr () \<longleftrightarrow> (\<forall>c \<in> set cs. valid_tool_call c)" for cs loc
    unfolding validate_tool_calls_def by (rule check_each_const) (rule validate_tool_call_Inr)
  ultimately show ?thesis
    using JObj by (auto simp: validate_message_def valid_message_def Let_def result_simps dget_no_key
      split: json.splits if_splits)
qed (auto simp: validate_message_def valid_message_def Let_def)

lemma validate_chat_payload_messages:
  assumes "validate_chat_payload p = Inr ()"
  obtains d vs where "p = JObj d" "dget d ''messages'' = JArr vs" "vs \<noteq> []" "\<forall>v \<in> set vs. valid_message v"
proof -
  from assms obtain d vs where "p = JObj d" "dget d ''messages'' = JArr vs" "vs \<noteq> []"
    "check_each validate_message 0 vs = Inr ()"
    by (auto simp: validate_chat_payload_def result_simps split: json.splits if_splits)
  then show ?thesis
    using that check_each_const [of validate_message valid_message, OF validate_message_Inr] by blast
qed

section \<open>Accepted messages and the token counter\<close>

text \<open>
  Validation leaves three fields open that the counter measures: \<open>name\<close> and \<open>tool_call_id\<close>
  of a message, and the \<open>function\<close> field of a call whose checked container is another one.
  \<open>measurable\<close> says they have the types the counter expects.
\<close>

definition null_or_str :: "json \<Rightarrow> bool" where
  "null_or_str v = (v = JNull \<or> is_str v)"

definition measurable :: "pydict \<Rightarrow> bool" where
  "measurable m \<longleftrightarrow>
     null_or_str (dget m ''name'') \<and> null_or_str (dget m ''tool_call_id'')
     \<and> (\<forall>cs c. dget m ''tool_calls'' = JArr cs \<longrightarrow> JObj c \<in> set cs
          \<longrightarrow> dget c ''function'' = JNull \<or> valid_container ''function'' (dget c ''function''))"

lemma text_tokens_total: "null_or_str v \<Longrightarrow> \<exists>n. text_tokens v = Inr n"
  by (cases v) (auto simp: null_or_str_def text_tokens_str text_tokens_def)

lemma tool_call_tokens_total:
  assumes "dget c ''function'' = JNull \<or> valid_container ''function'' (dget c ''function'')"
  shows "\<exists>n. tool_call_tokens (JObj c) = Inr n"
proof -
  obtain f where f: "or_else (dget c ''function'') (JObj []) = JObj f" "null_or_str (dget f ''name'')"
  proof (cases "dget c ''function'' = JNull")
    case True
    with that [of "[]"] show ?thesis by (simp add: or_else_def null_or_str_def)
  next
    case False
    with assms obtain f where "dget c ''function'' = JObj f" "nonempty_str (dget f ''name'')"
      by (auto simp: valid_container_def)
    moreover from this have "f \<noteq> []" by (auto simp: nonempty_str_def)
    ultimately show ?thesis using that [of f] by (simp add: or_else_def nonempty_str_def null_or_str_def)
  qed
  from text_tokens_total [OF f(2)] serialized_tokens_total [of "dget f ''arguments''"] f(1)
  show ?thesis by (auto simp: tool_call_tokens_def)
qed

lemma message_tokens_total:
  assumes "valid_message (JObj m)" "measurable m"
  shows "\<exists>n. message_tokens m = Inr n"
proof -
  obtain cs where cs: "py_iter (or_else (dget m ''tool_calls'') (JArr [])) = Inr cs"
    and vcs: "\<forall>c \<in> set cs. \<exists>n. tool_call_tokens c = Inr n"
  proof (cases "dget m ''tool_calls''")
    case (JArr cs)
    have "\<exists>n. tool_call_tokens c = Inr n" if "c \<in> set cs" for c
    proof -
      from assms(1) JArr that obtain d where "c = JObj d"
        by (auto simp: valid_message_def valid_tool_call_def)
      with assms(2) JArr that show ?thesis by (auto simp: measurable_def intro: tool_call_tokens_total)
    qed
    with JArr that [of cs] show ?thesis by (cases cs) (auto simp: or_else_def)
  qed (use assms(1) that [of "[]"] in \<open>auto simp: valid_message_def or_else_def\<close>)
  have opt: "\<exists>n. opt_text_tokens (dget m k) = Inr n" if "null_or_str (dget m k)" for k
    using text_tokens_total [OF that] by (simp add: opt_text_tokens_def)
  from vcs obtain tcs where "map_r tool_call_tokens cs = Inr tcs"
    using map_r_total [of tool_call_tokens cs] by blast
  moreover obtain c where "serialized_tokens (dget m ''content'') = Inr c"
    using serialized_tokens_total by blast
  moreover obtain i n where "opt_text_tokens (dget m ''tool_call_id'') = Inr i"
    "opt_text_tokens (dget m ''name'') = Inr n"
    using opt assms(2) unfolding measurable_def by blast
  ultimately show ?thesis using cs by (simp add: message_tokens_def)
qed

lemma is_instruction_role_total:
  "valid_message (JObj m) \<Longrightarrow> \<exists>b. is_instruction_role (dget m ''role'') = Inr b"
  by (auto simp: valid_message_def nonempty_str_def is_str_iff is_instruction_role_def)

lemma serialized_map_total:
  "\<exists>ns. map_r (\<lambda>tool. bind_r (serialized_tokens tool) (\<lambda>n. Inr (TOOL_DEF_OVERHEAD_TOKENS + n))) ts = Inr ns"
proof -
  have "\<exists>y. bind_r (serialized_tokens tool) (\<lambda>n. Inr (TOOL_DEF_OVERHEAD_TOKENS + n)) = (Inr y :: int result)" for tool
    using serialized_tokens_total [of tool] by auto
  then show ?thesis by (subst map_r_total) blast
qed

lemma tools_tokens_total: "t = JNull \<or> is_list t \<Longrightarrow> \<exists>n. tools_tokens_of t = Inr n"
  using serialized_map_total by (cases t) (auto simp: tools_tokens_of_def result_simps)

section \<open>Exactly which payloads are accepted\<close>

definition valid_tool :: "json \<Rightarrow> bool" where
  "valid_tool v \<longleftrightarrow>
     (\<exists>d. v = JObj d \<and> nonempty_str (dget d ''type'')
        \<and> (\<forall>key \<in> {''function'', ''custom''}. dget d ''type'' = JStr key \<longrightarrow>
             (\<exists>c. dget d key = JObj c \<and> nonempty_str (dget c ''name'')
                \<and> null_or_str (dget c ''description'')
                \<and> (key = ''function'' \<longrightarrow> dget c ''parameters'' = JNull \<or> is_dict (dget c ''parameters'')))))"

definition valid_payload :: "json \<Rightarrow> bool" where
  "valid_payload p \<longleftrightarrow>
     (\<exists>d ms. p = JObj d \<and> dget d ''messages'' = JArr ms \<and> ms \<noteq> [] \<and> (\<forall>m \<in> set ms. valid_message m)
        \<and> (dget d ''tools'' = JNull \<or> (\<exists>ts. dget d ''tools'' = JArr ts \<and> (\<forall>t \<in> set ts. valid_tool t)))
        \<and> (dget d ''stream'' = JNull \<or> (\<exists>b. dget d ''stream'' = JBool b))
        \<and> (dget d ''n'' = JNull \<or> (\<exists>i \<le> 1. dget d ''n'' = JInt i)))"

lemma nonempty_str_iff: "nonempty_str v \<longleftrightarrow> (\<exists>s. v = JStr s \<and> s \<noteq> [])"
  by (cases v) (auto simp: nonempty_str_def)

lemma validate_tool_Inr: "validate_tool v w = Inr () \<longleftrightarrow> valid_tool v"
proof (cases v)
  case (JObj d)
  show ?thesis
  proof (cases "dget d ''type''")
    case (JStr ty)
    consider "ty = ''function''" | "ty = ''custom''" | "ty \<noteq> ''function''" "ty \<noteq> ''custom''" by blast
    then show ?thesis
      using JObj JStr
      by cases (auto simp: validate_tool_def valid_tool_def nonempty_str_iff null_or_str_def
          function_parameters_or_none_def result_simps Let_def split: json.split)
  qed (use JObj in \<open>simp_all add: validate_tool_def valid_tool_def nonempty_str_iff\<close>)
qed (simp_all add: validate_tool_def valid_tool_def)

lemma validate_n_Inr: "validate_n v = Inr () \<longleftrightarrow> v = JNull \<or> (\<exists>i \<le> 1. v = JInt i)"
  by (cases v) (auto simp: validate_n_def)

lemma validate_tools_Inr:
  "check_each (\<lambda>tool i. validate_tool tool (indexed ''tools'' i)) 0 ts = Inr () \<longleftrightarrow> (\<forall>t \<in> set ts. valid_tool t)"
  by (rule check_each_const) (rule validate_tool_Inr)

lemma validate_messages_Inr: "check_each validate_message 0 ms = Inr () \<longleftrightarrow> (\<forall>m \<in> set ms. valid_message m)"
  by (rule check_each_const) (rule validate_message_Inr)

section \<open>Properties\<close>

text \<open>
  C18. \<open>validate_chat_payload\<close> accepts exactly the payloads of \<open>valid_payload\<close>: a non-empty array
  of well-shaped messages, well-shaped tools, a boolean \<open>stream\<close> and an \<open>n\<close> of at most 1.  A tool call whose type is
  a string other than \<open>function\<close> and \<open>custom\<close> is accepted whatever it carries (lemma \<open>opaque_call_accepted\<close>), although
  the docstring of \<open>_validate_tool_calls\<close> wants the container it carries checked, and a call without one rejected.
\<close>

theorem validate_chat_payload_iff: "validate_chat_payload p = Inr () \<longleftrightarrow> valid_payload p"
proof (cases p)
  case (JObj d)
  have tools: "(case dget d ''tools'' of
        JNull \<Rightarrow> Inr ()
      | JArr tools \<Rightarrow> check_each (\<lambda>tool i. validate_tool tool (indexed ''tools'' i)) 0 tools
      | _ \<Rightarrow> reject m) = Inr ()
      \<longleftrightarrow> dget d ''tools'' = JNull \<or> (\<exists>ts. dget d ''tools'' = JArr ts \<and> (\<forall>t \<in> set ts. valid_tool t))" for m
    by (cases "dget d ''tools''") (simp_all add: validate_tools_Inr)
  have stream: "(case dget d ''stream'' of JNull \<Rightarrow> Inr () | JBool _ \<Rightarrow> Inr () | _ \<Rightarrow> reject m) = Inr ()
      \<longleftrightarrow> dget d ''stream'' = JNull \<or> (\<exists>b. dget d ''stream'' = JBool b)" for m
    by (cases "dget d ''stream''") simp_all
  show ?thesis
    using JObj by (cases "dget d ''messages''")
      (simp_all add: validate_chat_payload_def valid_payload_def result_simps tools stream
        validate_messages_Inr validate_n_Inr)
qed (simp_all add: validate_chat_payload_def valid_payload_def)

text \<open>
  C19. A validated payload never crashes the planner: if the fields that validation leaves open
  are \<open>measurable\<close>, then however the messages are split into history and current request,
  planning returns a plan or raises \<open>ContextOverflowError\<close>, never another exception.
\<close>

theorem validated_payload_plans:
  assumes "validate_chat_payload (JObj d) = Inr ()" "dget d ''messages'' = JArr (map JObj (hist @ cur))"
    and "\<forall>m \<in> set (hist @ cur). measurable m" "0 \<le> R"
  shows "plan_context TokenCounter hist cur (dget d ''tools'') B R \<noteq> Inl (Raised e)"
proof -
  have valid: "valid_message (JObj m)" if "m \<in> set (hist @ cur)" for m
    using assms(1)
  proof (rule validate_chat_payload_messages)
    fix d' vs
    assume "JObj d = JObj d'" "dget d' ''messages'' = JArr vs" "\<forall>v \<in> set vs. valid_message v"
    with assms(2) that show ?thesis by auto
  qed
  have counted: "tc.countable m" if "m \<in> set (hist @ cur)" for m
    using message_tokens_total [OF valid [OF that]] assms(3) that
    by (auto simp: tc.countable_def TokenCounter_simps)
  have "\<forall>m \<in> set hist. tc.countable m \<and> (\<exists>b. is_instruction_role (dget m ''role'') = Inr b)"
    using counted valid is_instruction_role_total by simp
  then obtain us where us: "segment_messages TokenCounter hist = Inr us"
    using tc.segment_messages_total [of hist] by blast
  obtain ct where ct: "count_messages TokenCounter cur = Inr ct"
    using counted by (simp add: tc.count_messages_Inr)
  have "dget d ''tools'' = JNull \<or> is_list (dget d ''tools'')"
    using assms(1) by (cases "dget d ''tools''") (simp_all add: validate_chat_payload_def result_simps)
  then obtain tt where tt: "count_tools TokenCounter (dget d ''tools'') = Inr tt"
    using tools_tokens_total by (auto simp: TokenCounter_simps)
  from tc.plan_context_result [OF tt ct us assms(4), of B] show ?thesis
    by (metis Inl_inject plan_error.distinct(1) sum.distinct(1))
qed

theorem validated_payload_plans_witness:
  "plan_context TokenCounter demo_history demo_request JNull 3 0 \<noteq> Inl (Raised AttributeError)"
proof -
  let ?d = "[(''messages'', JArr (map JObj (demo_history @ demo_request)))]"
  have "validate_chat_payload (JObj ?d) = Inr ()" by code_simp
  moreover have "\<forall>m \<in> set (demo_history @ demo_request). measurable m"
    by (simp add: demo_history_def demo_request_def chat_msg_def measurable_def null_or_str_def)
  ultimately show ?thesis
    using validated_payload_plans [of ?d demo_history demo_request 0 3 AttributeError] by simp
qed

definition opaque_call_message :: pydict where
  "opaque_call_message = [(''role'', JStr ''assistant''),
     (''tool_calls'', JArr [JObj [(''type'', JStr ''mcp''), (''function'', JStr ''search'')]])]"

definition numeric_name_message :: pydict where
  "numeric_name_message = [(''role'', JStr ''user''), (''content'', JStr ''hi''), (''name'', JInt 7)]"

text \<open>
  C20. Without \<open>measurable\<close> this fails: validation accepts a call of an unknown type whose
  \<open>function\<close> is a string, and a message whose \<open>name\<close> is a number, and the planner then raises
  \<open>AttributeError\<close> and \<open>TypeError\<close>, which no handler of the chat route expects.
\<close>

theorem validated_payload_can_crash:
  "validate_chat_payload (JObj [(''messages'', JArr [JObj opaque_call_message])]) = Inr ()
   \<and> plan_context TokenCounter [] [opaque_call_message] JNull B R = Inl (Raised AttributeError)
   \<and> validate_chat_payload (JObj [(''messages'', JArr [JObj numeric_name_message])]) = Inr ()
   \<and> plan_context TokenCounter [] [numeric_name_message] JNull B R = Inl (Raised TypeError)"
proof -
  have count: "messages_tokens [opaque_call_message] = Inl AttributeError"
    "messages_tokens [numeric_name_message] = Inl TypeError" by code_simp+
  have "validate_chat_payload (JObj [(''messages'', JArr [JObj opaque_call_message])]) = Inr ()"
    "validate_chat_payload (JObj [(''messages'', JArr [JObj numeric_name_message])]) = Inr ()" by code_simp+
  then show ?thesis
    using count by (simp add: plan_context_def TokenCounter_simps lift_py_def tools_tokens_of_def)
qed

end
