(* ===== verification/Reconciliation.thy ===== *)
theory Reconciliation
  imports PyJson
begin

text \<open>
  Projection-aware history reconciliation, \<open>conversation/reconciliation.py\<close>: when is a
  client's message list a faithful view of the stored transcript, and from which index on
  is it new.

  Indices that run down to \<open>-1\<close> in the source are kept as the count of remaining elements,
  one more than the index.  The lemmas give, for every mode, the alignment with the stored
  transcript that the mode stands for, and that reconciling a second time appends nothing.
\<close>

section \<open>Model\<close>

definition PRUNED_TOOL_RESULT :: string where
  "PRUNED_TOOL_RESULT = ''[Old tool result content cleared]''"

datatype recon_mode = Exact | Append | Truncate | Truncate_append | Compacted | Conflict

record recon_result =
  r_mode :: recon_mode
  append_from :: "nat option"

definition result_of :: "recon_mode \<Rightarrow> nat option \<Rightarrow> recon_result" where
  "result_of m a = \<lparr>r_mode = m, append_from = a\<rparr>"

text \<open>The text of one part, if it is a text part with a string.\<close>

definition text_part :: "json \<Rightarrow> string option" where
  "text_part part =
     (case part of
        JObj d \<Rightarrow> if dget d ''type'' \<noteq> JStr ''text'' then None
                  else (case dget d ''text'' of JStr s \<Rightarrow> Some s | _ \<Rightarrow> None)
      | _ \<Rightarrow> None)"

fun text_parts :: "json list \<Rightarrow> string list option" where
  "text_parts [] = Some []"
| "text_parts (p # ps) =
     (case text_part p of
        None \<Rightarrow> None
      | Some s \<Rightarrow> (case text_parts ps of None \<Rightarrow> None | Some ss \<Rightarrow> Some (s # ss)))"

definition text_content :: "json \<Rightarrow> string option" where
  "text_content value =
     (case value of
        JStr s \<Rightarrow> Some s
      | JArr parts \<Rightarrow> map_option concat (text_parts parts)
      | _ \<Rightarrow> None)"

definition canonical_message :: "pydict \<Rightarrow> pydict" where
  "canonical_message message =
     (let res = dpop ''reasoning_text'' (dpop ''reasoning'' (dpop ''reasoning_content'' message))
      in case text_content (dget res ''content'') of
           None \<Rightarrow> res
         | Some text \<Rightarrow> dset ''content'' (JStr text) res)"

definition equivalent :: "pydict \<Rightarrow> pydict \<Rightarrow> bool" where
  "equivalent a b =
     (let left = canonical_message a; right = canonical_message b in
      if py_eq (JObj left) (JObj right) then True
      else if py_eq (dget left ''role'') (dget right ''role'') \<and> py_eq (dget right ''role'') (JStr ''tool'')
      then (let tool_call_id = dget left ''tool_call_id'' in
            if \<not> truthy tool_call_id \<or> \<not> py_eq tool_call_id (dget right ''tool_call_id'') then False
            else py_eq (dget right ''content'') (JStr PRUNED_TOOL_RESULT))
      else False)"

definition COMPACTION_WRAPPER :: string where
  "COMPACTION_WRAPPER =
     ''The conversation history before this point was compacted into the following summary:''"

definition is_compaction_summary :: "pydict \<Rightarrow> bool" where
  "is_compaction_summary message =
     (if dget message ''summary'' = JBool True then True
      else if lower (py_str (dget_default message ''mode'' (JStr []))) = ''compaction'' then True
      else if (case dget message ''metadata'' of
                 JObj metadata \<Rightarrow> dget metadata ''compaction'' = JBool True
                                  \<or> dget metadata ''compaction_continue'' = JBool True
               | _ \<Rightarrow> False) then True
      else (case text_content (dget message ''content'') of
              None \<Rightarrow> False
            | Some text \<Rightarrow> text \<noteq> [] \<and> contains COMPACTION_WRAPPER text
                            \<and> contains ''<summary>'' text \<and> contains ''</summary>'' text))"

function prefix_loop :: "pydict list \<Rightarrow> pydict list \<Rightarrow> nat \<Rightarrow> nat" where
  "prefix_loop persisted incoming index =
     (if index < min (length persisted) (length incoming)
         \<and> equivalent (persisted ! index) (incoming ! index)
      then prefix_loop persisted incoming (Suc index) else index)"
  by pat_completeness auto
termination
  by (relation "measure (\<lambda>(p, i, index). length p - index)") auto

declare prefix_loop.simps [simp del]

definition prefix_len :: "pydict list \<Rightarrow> pydict list \<Rightarrow> nat" where
  "prefix_len persisted incoming = prefix_loop persisted incoming 0"

text \<open>
  The loop \<open>while p >= lo and i >= lo and equivalent(persisted[p], incoming[i])\<close>, with
  \<open>pe = p + 1\<close> and \<open>ie = i + 1\<close>.
\<close>

fun match_back :: "nat \<Rightarrow> pydict list \<Rightarrow> pydict list \<Rightarrow> nat \<Rightarrow> nat \<Rightarrow> nat \<times> nat" where
  "match_back lo persisted incoming (Suc p) (Suc i) =
     (if lo \<le> p \<and> lo \<le> i \<and> equivalent (persisted ! p) (incoming ! i)
      then match_back lo persisted incoming p i else (Suc p, Suc i))"
| "match_back lo persisted incoming pe ie = (pe, ie)"

definition suffix_match :: "pydict list \<Rightarrow> pydict list \<Rightarrow> (nat \<times> nat) option" where
  "suffix_match persisted incoming =
     (let (pe, ie) = match_back 0 persisted incoming (length persisted) (length incoming)
      in if pe = length persisted then None else Some (pe, ie))"

definition max_scan :: nat where
  "max_scan = 128"

primrec anchor_scan ::
  "pydict list \<Rightarrow> pydict list \<Rightarrow> nat \<Rightarrow> nat list \<Rightarrow> (nat \<times> nat \<times> nat) option"
where
  "anchor_scan persisted incoming prefix [] = None"
| "anchor_scan persisted incoming prefix (incoming_end # ends) =
     (if length persisted \<le> prefix \<or> incoming_end \<le> prefix
      then anchor_scan persisted incoming prefix ends
      else let (pe, ie) = match_back prefix persisted incoming (length persisted) incoming_end
           in if ie < incoming_end then Some (pe, ie, incoming_end)
              else anchor_scan persisted incoming prefix ends)"

definition anchor_before_tail ::
  "pydict list \<Rightarrow> pydict list \<Rightarrow> nat \<Rightarrow> (nat \<times> nat \<times> nat) option"
where
  "anchor_before_tail persisted incoming prefix =
     (if length incoming \<le> prefix \<or> length persisted \<le> prefix then None
      else let lower = max (prefix + 1) (length incoming - max_scan)
           in anchor_scan persisted incoming prefix (rev [lower ..< length incoming + 1]))"

definition reconcile_tail :: "pydict list \<Rightarrow> pydict list \<Rightarrow> recon_result" where
  "reconcile_tail persisted incoming =
     (case suffix_match persisted incoming of
        Some (ps, is) \<Rightarrow> if is = 0 \<and> ps > 0 then result_of Truncate None else result_of Conflict None
      | None \<Rightarrow> result_of Conflict None)"

text \<open>The part after the two comparisons with the common prefix.\<close>

definition reconcile_anchored :: "pydict list \<Rightarrow> pydict list \<Rightarrow> nat \<Rightarrow> recon_result" where
  "reconcile_anchored persisted incoming prefix =
     (case anchor_before_tail persisted incoming prefix of
        None \<Rightarrow> reconcile_tail persisted incoming
      | Some (persisted_start, incoming_start, incoming_end) \<Rightarrow>
          (let gap = drop prefix (take incoming_start incoming) in
           if persisted_start > prefix then
             (if list_ex is_compaction_summary gap then result_of Compacted (Some incoming_end)
              else if incoming_start = 0 then
                (if incoming_end = length incoming then result_of Truncate None
                 else result_of Truncate_append (Some incoming_end))
              else reconcile_tail persisted incoming)
           else reconcile_tail persisted incoming))"

definition reconcile_projection :: "pydict list \<Rightarrow> pydict list \<Rightarrow> recon_result" where
  "reconcile_projection persisted incoming =
     (if incoming = [] then result_of Exact None
      else if persisted = [] then result_of Append (Some 0)
      else
      let prefix = prefix_len persisted incoming in
      if prefix = length incoming then
        (if length incoming = length persisted then result_of Exact None
         else result_of Truncate None)
      else if prefix = length persisted then result_of Append (Some (length persisted))
      else reconcile_anchored persisted incoming prefix)"

section \<open>The loops\<close>

lemma prefix_loop_common:
  "i \<le> length ps \<Longrightarrow> i \<le> length ms
   \<Longrightarrow> prefix_loop ps ms i = i + common_prefix equivalent (drop i ps) (drop i ms)"
proof (induction ps ms i rule: prefix_loop.induct)
  case (1 ps ms i)
  show ?case
  proof (cases "i < length ps \<and> i < length ms")
    case True
    then have "drop i ps = ps ! i # drop (Suc i) ps" "drop i ms = ms ! i # drop (Suc i) ms"
      by (simp_all add: Cons_nth_drop_Suc)
    with True 1 show ?thesis by (auto simp: prefix_loop.simps [of ps ms i])
  next
    case False
    with 1 show ?thesis by (auto simp: prefix_loop.simps [of ps ms i])
  qed
qed

lemma prefix_len_common: "prefix_len ps ms = common_prefix equivalent ps ms"
  by (simp add: prefix_len_def prefix_loop_common)

lemmas prefix_len_le = common_prefix_le [where R = equivalent, folded prefix_len_common]
lemmas prefix_len_all2 = common_prefix_all2 [where R = equivalent, folded prefix_len_common]
lemmas prefix_len_stop = common_prefix_stop [where R = equivalent, folded prefix_len_common]

text \<open>
  \<open>match_back\<close> aligns the two ends: it steps back by the same number \<open>n\<close> in both lists, over
  equivalent messages, and stops at the bound or at the first pair that differs.
\<close>

lemma match_back_spec:
  assumes "match_back lo ps ms pe ie = (p, i)"
  obtains n where "pe = p + n" "ie = i + n" "n = 0 \<or> lo \<le> p \<and> lo \<le> i"
    "\<And>k. k < n \<Longrightarrow> equivalent (ps ! (p + k)) (ms ! (i + k))"
    "\<not> (lo < p \<and> lo < i \<and> equivalent (ps ! (p - 1)) (ms ! (i - 1)))"
  using assms
proof (induction lo ps ms pe ie arbitrary: thesis rule: match_back.induct)
  case (1 lo ps ms pe ie)
  show ?case
  proof (cases "lo \<le> pe \<and> lo \<le> ie \<and> equivalent (ps ! pe) (ms ! ie)")
    case True
    with 1(3) have "match_back lo ps ms pe ie = (p, i)" by simp
    from 1(1) [OF True _ this] obtain n where n: "pe = p + n" "ie = i + n" "n = 0 \<or> lo \<le> p \<and> lo \<le> i"
      "\<And>k. k < n \<Longrightarrow> equivalent (ps ! (p + k)) (ms ! (i + k))"
      "\<not> (lo < p \<and> lo < i \<and> equivalent (ps ! (p - 1)) (ms ! (i - 1)))" by blast
    show ?thesis using True n by (intro 1(2) [of "Suc n"]) (auto simp: less_Suc_eq)
  next
    case False
    with 1(3) have "p = Suc pe" "i = Suc ie" by auto
    with False show ?thesis by (intro 1(2) [of 0]) auto
  qed
qed auto

lemma match_back_aligned:
  assumes m: "match_back lo ps ms (length ps) e = (p, i)" and e: "e \<le> length ms"
  shows "p \<le> length ps" "i \<le> e" "length ps - p = e - i"
    "list_all2 equivalent (drop p ps) (drop i (take e ms))"
    "i < e \<Longrightarrow> lo \<le> p \<and> lo \<le> i"
    "\<not> (lo < p \<and> lo < i \<and> equivalent (ps ! (p - 1)) (ms ! (i - 1)))"
proof -
  from m obtain n where n: "length ps = p + n" "e = i + n" "n = 0 \<or> lo \<le> p \<and> lo \<le> i"
    "\<And>k. k < n \<Longrightarrow> equivalent (ps ! (p + k)) (ms ! (i + k))"
    "\<not> (lo < p \<and> lo < i \<and> equivalent (ps ! (p - 1)) (ms ! (i - 1)))"
    using match_back_spec by blast
  from n e show "p \<le> length ps" "i \<le> e" "length ps - p = e - i"
    "list_all2 equivalent (drop p ps) (drop i (take e ms))"
    "i < e \<Longrightarrow> lo \<le> p \<and> lo \<le> i"
    "\<not> (lo < p \<and> lo < i \<and> equivalent (ps ! (p - 1)) (ms ! (i - 1)))"
    by (auto simp: list_all2_conv_all_nth)
qed

lemma match_back_progress:
  assumes "lo < length ps" "lo < e"
  shows "snd (match_back lo ps ms (length ps) e) < e \<longleftrightarrow> equivalent (last ps) (ms ! (e - 1))"
proof -
  obtain p q where "length ps = Suc p" "e = Suc q" using assms by (metis less_imp_Suc_add)
  moreover have "snd (match_back lo ps ms p q) \<le> q"
    using match_back_spec [of lo ps ms p q "fst (match_back lo ps ms p q)" "snd (match_back lo ps ms p q)"]
    by fastforce
  moreover have "last ps = ps ! p" using calculation(1) by (cases ps rule: rev_cases) auto
  ultimately show ?thesis using assms by auto
qed

lemma anchor_scan_Some:
  assumes "anchor_scan ps ms lo ends = Some (p, i, e)"
  shows "e \<in> set ends \<and> lo < length ps \<and> lo < e \<and> i < e \<and> match_back lo ps ms (length ps) e = (p, i)"
  using assms by (induction ends) (auto split: if_splits prod.splits)

lemma anchor_scan_None:
  assumes "anchor_scan ps ms lo ends = None" "lo < length ps" "e \<in> set ends" "lo < e"
  shows "\<not> equivalent (last ps) (ms ! (e - 1))"
  using assms
proof (induction ends)
  case (Cons e' ends)
  then show ?case
    using match_back_progress [of lo ps e' ms] by (auto split: if_splits prod.splits)
qed simp

lemma anchor_before_tail_Some:
  assumes "anchor_before_tail ps ms lo = Some (p, i, e)"
  shows "e \<le> length ms" "i < e" "lo \<le> p" "lo \<le> i" "p < length ps" "length ps - p = e - i"
    "list_all2 equivalent (drop p ps) (drop i (take e ms))"
    "\<not> (lo < p \<and> lo < i \<and> equivalent (ps ! (p - 1)) (ms ! (i - 1)))"
proof -
  from assms have "anchor_scan ps ms lo (rev [max (lo + 1) (length ms - max_scan) ..< length ms + 1]) = Some (p, i, e)"
    by (auto simp: anchor_before_tail_def Let_def split: if_splits)
  from anchor_scan_Some [OF this] have e: "e \<le> length ms" "i < e" "match_back lo ps ms (length ps) e = (p, i)"
    by auto
  from match_back_aligned [OF e(3,1)] e(1,2)
  show "e \<le> length ms" "i < e" "lo \<le> p" "lo \<le> i" "p < length ps" "length ps - p = e - i"
    "list_all2 equivalent (drop p ps) (drop i (take e ms))"
    "\<not> (lo < p \<and> lo < i \<and> equivalent (ps ! (p - 1)) (ms ! (i - 1)))"
    by auto
qed

section \<open>What each mode stands for\<close>

text \<open>
  The abstract contract: \<open>projection stored view mode k\<close> says that \<open>view\<close> is a view of the
  stored transcript of the given mode and that its messages from index \<open>k\<close> on are new.
\<close>

inductive projection :: "pydict list \<Rightarrow> pydict list \<Rightarrow> recon_mode \<Rightarrow> nat \<Rightarrow> bool" where
  nothing_sent: "projection ps [] Exact 0"
| replay: "list_all2 equivalent ps ms \<Longrightarrow> projection ps ms Exact (length ms)"
| continuation: "list_all2 equivalent ps ms \<Longrightarrow> projection ps (ms @ tail) Append (length ms)"
| prefix_view: "list_all2 equivalent ps ms \<Longrightarrow> projection (ps @ rest) ms Truncate (length ms)"
| suffix_view: "list_all2 equivalent ps ms \<Longrightarrow> projection (hidden @ ps) ms Truncate (length ms)"
| suffix_continuation:
    "list_all2 equivalent ps ms \<Longrightarrow> ps \<noteq> []
     \<Longrightarrow> projection (hidden @ ps) (ms @ tail) Truncate_append (length ms)"
| compaction:
    "list_all2 equivalent ps ms \<Longrightarrow> list_all2 equivalent qs ns \<Longrightarrow> qs \<noteq> [] \<Longrightarrow> hidden \<noteq> []
     \<Longrightarrow> s \<in> set gap \<Longrightarrow> is_compaction_summary s
     \<Longrightarrow> projection (ps @ hidden @ qs) (ms @ gap @ ns @ tail) Compacted (length (ms @ gap @ ns))"

definition new_from :: "recon_result \<Rightarrow> pydict list \<Rightarrow> nat" where
  "new_from r ms = (case append_from r of None \<Rightarrow> length ms | Some k \<Rightarrow> k)"

lemma result_of_simps [simp]:
  "r_mode (result_of m a) = m" "append_from (result_of m a) = a"
  "result_of m a = result_of m' a' \<longleftrightarrow> m = m' \<and> a = a'"
  "new_from (result_of m None) ms = length ms" "new_from (result_of m (Some k)) ms = k"
  by (simp_all add: result_of_def new_from_def)

lemma reconcile_tail_sound:
  assumes "r = reconcile_tail ps ms" "r_mode r \<noteq> Conflict"
  shows "projection ps ms (r_mode r) (new_from r ms)"
proof -
  from assms obtain p where m: "match_back 0 ps ms (length ps) (length ms) = (p, 0)" "r = result_of Truncate None"
    by (auto simp: reconcile_tail_def suffix_match_def split: option.splits prod.splits if_splits)
  have "list_all2 equivalent (drop p ps) ms" using match_back_aligned(4) [OF m(1)] by simp
  from projection.suffix_view [OF this, of "take p ps"] m(2) show ?thesis by simp
qed

lemma list_all2_take_prefix:
  "prefix_len ps ms = length ps \<Longrightarrow> list_all2 equivalent ps (take (length ps) ms)"
  using prefix_len_all2 [of ps ms] by simp

lemma anchored_split:
  fixes ps ms :: "pydict list"
  assumes "lo \<le> p" "lo \<le> i" "i \<le> e" "e \<le> length ms"
  shows "ps = take lo ps @ drop lo (take p ps) @ drop p ps"
    and "ms = take lo ms @ drop lo (take i ms) @ drop i (take e ms) @ drop e ms"
proof -
  have seg: "xs = take a xs @ drop a xs" for a and xs :: "pydict list" by simp
  have "take lo (take k xs) = take lo xs" if "lo \<le> k" for k and xs :: "pydict list"
    using that by (simp add: min_absorb1)
  then have front: "take k xs = take lo xs @ drop lo (take k xs)" if "lo \<le> k" for k and xs :: "pydict list"
    using seg [of "take k xs" lo] that by simp
  show "ps = take lo ps @ drop lo (take p ps) @ drop p ps"
    using seg [of ps p] front [OF assms(1), of ps] by (metis append_assoc)
  have "take i (take e ms) = take i ms" using assms(3) by (simp add: min_absorb1)
  then have "ms = take i ms @ drop i (take e ms) @ drop e ms"
    using seg [of ms e] seg [of "take e ms" i] by (metis append_assoc)
  then show "ms = take lo ms @ drop lo (take i ms) @ drop i (take e ms) @ drop e ms"
    using front [OF assms(2), of ms] by (metis append_assoc)
qed

lemma reconcile_anchored_sound:
  assumes a: "anchor_before_tail ps ms lo = Some (p, i, e)" "lo < p"
    and pre: "list_all2 equivalent (take lo ps) (take lo ms)"
  shows "list_ex is_compaction_summary (drop lo (take i ms)) \<Longrightarrow> projection ps ms Compacted e"
    and "i = 0 \<Longrightarrow> projection ps ms (if e = length ms then Truncate else Truncate_append) e"
proof -
  note an = anchor_before_tail_Some [OF a(1)]
  note sp = anchored_split [OF an(3,4) less_imp_le [OF an(2)] an(1)]
  have qs: "drop p ps \<noteq> []" using an(5) by simp
  have len: "length (take lo ms @ drop lo (take i ms) @ drop i (take e ms)) = e"
    using an(1,2,4) by simp
  show "projection ps ms Compacted e" if "list_ex is_compaction_summary (drop lo (take i ms))"
  proof -
    from that obtain s where s: "s \<in> set (drop lo (take i ms))" "is_compaction_summary s"
      by (auto simp: list_ex_iff)
    have "drop lo (take p ps) \<noteq> []" using a(2) an(5) by simp
    from projection.compaction [OF pre an(7) qs this s, of "drop e ms"]
    show ?thesis by (simp only: len flip: sp)
  qed
  show "projection ps ms (if e = length ms then Truncate else Truncate_append) e" if "i = 0"
  proof -
    have al: "list_all2 equivalent (drop p ps) (take e ms)" and le: "length (take e ms) = e"
      using an(1,7) that by simp_all
    from projection.suffix_view [OF al, of "take p ps"] projection.suffix_continuation [OF al qs, of "take p ps" "drop e ms"]
    show ?thesis using an(1) by (auto simp: min_absorb2)
  qed
qed

text \<open>The modes of the anchored part: the final suffix check, or an anchor beyond the prefix.\<close>

lemma reconcile_anchored_cases:
  obtains (tail) "reconcile_anchored ps ms lo = reconcile_tail ps ms"
  | (anchor) p i e where "anchor_before_tail ps ms lo = Some (p, i, e)" "lo < p"
      "list_ex is_compaction_summary (drop lo (take i ms)) \<or> i = 0"
      "reconcile_anchored ps ms lo =
         (if list_ex is_compaction_summary (drop lo (take i ms)) then result_of Compacted (Some e)
          else if e = length ms then result_of Truncate None else result_of Truncate_append (Some e))"
proof (cases "anchor_before_tail ps ms lo")
  case None
  then show ?thesis by (intro tail) (simp add: reconcile_anchored_def)
next
  case (Some a)
  obtain p i e where "a = (p, i, e)" by (cases a)
  with Some show ?thesis using tail anchor [of p i e]
    by (cases "lo < p \<and> (list_ex is_compaction_summary (drop lo (take i ms)) \<or> i = 0)")
      (auto simp: reconcile_anchored_def)
qed

lemma reconcile_anchored_projection:
  assumes "r_mode (reconcile_anchored ps ms lo) \<noteq> Conflict" "list_all2 equivalent (take lo ps) (take lo ms)"
  shows "projection ps ms (r_mode (reconcile_anchored ps ms lo)) (new_from (reconcile_anchored ps ms lo) ms)"
proof (cases rule: reconcile_anchored_cases [where ps = ps and ms = ms and lo = lo])
  case tail
  then show ?thesis using assms(1) reconcile_tail_sound by metis
next
  case (anchor p i e)
  with reconcile_anchored_sound [OF anchor(1,2) assms(2)] show ?thesis by auto
qed

lemma reconcile_sound:
  assumes r: "r = reconcile_projection ps ms" and ok: "r_mode r \<noteq> Conflict"
  shows "projection ps ms (r_mode r) (new_from r ms)"
proof (cases "ms = [] \<or> ps = []")
  case True
  then show ?thesis
    using r projection.nothing_sent projection.continuation [of "[]" "[]" ms]
    by (auto simp: reconcile_projection_def)
next
  case ne: False
  define lo where "lo = prefix_len ps ms"
  have pre: "list_all2 equivalent (take lo ps) (take lo ms)" by (simp add: lo_def prefix_len_all2)
  consider "lo = length ms" | "lo \<noteq> length ms" "lo = length ps" | "lo \<noteq> length ms" "lo \<noteq> length ps" by blast
  then show ?thesis
  proof cases
    case 1
    then have "list_all2 equivalent (take lo ps) ms" using pre by simp
    from projection.prefix_view [OF this, of "drop lo ps"] projection.replay [OF this] show ?thesis
      using r ne 1 by (auto simp: reconcile_projection_def lo_def [symmetric])
  next
    case 2
    then have "list_all2 equivalent ps (take lo ms)" "lo \<le> length ms"
      using pre prefix_len_le(2) [of ps ms] by (simp_all add: lo_def)
    with projection.continuation [of ps "take lo ms" "drop lo ms"] show ?thesis
      using r ne 2 by (simp add: reconcile_projection_def lo_def [symmetric])
  next
    case 3
    then have "r = reconcile_anchored ps ms lo"
      using r ne by (simp add: reconcile_projection_def lo_def)
    with ok pre show ?thesis by (metis reconcile_anchored_projection)
  qed
qed

lemma projection_bound: "projection ps ms m k \<Longrightarrow> k \<le> length ms"
  by (induction rule: projection.induct) auto

section \<open>Forks are rejected\<close>

lemma reconcile_fork:
  assumes "prefix_len ps ms < length ps" "prefix_len ps ms < length ms"
    and "\<forall>m \<in> set (drop (prefix_len ps ms) ms). \<not> equivalent (last ps) m"
  shows "reconcile_projection ps ms = result_of Conflict None"
proof -
  define lo where "lo = prefix_len ps ms"
  have new: "\<not> equivalent (last ps) (ms ! (e - 1))" if "lo < e" "e \<le> length ms" for e
  proof -
    have "ms ! (e - 1) = drop lo ms ! (e - 1 - lo)" "e - 1 - lo < length (drop lo ms)" using that by auto
    then have "ms ! (e - 1) \<in> set (drop lo ms)" by (metis nth_mem)
    with assms(3) show ?thesis by (simp add: lo_def)
  qed
  have "anchor_before_tail ps ms lo = None"
  proof (rule ccontr)
    assume "anchor_before_tail ps ms lo \<noteq> None"
    then obtain p i e where a: "anchor_before_tail ps ms lo = Some (p, i, e)" by auto
    note an = anchor_before_tail_Some [OF a]
    from an(2,4,6) have "drop p ps \<noteq> []" "drop i (take e ms) \<noteq> []" "lo < e" using an(1,5) by auto
    then have "last (drop p ps) = last ps" "last (drop i (take e ms)) = ms ! (e - 1)"
      using an(1,2,5) by (simp add: last_drop, simp add: last_conv_nth)
    moreover have "equivalent (last (drop p ps)) (last (drop i (take e ms)))"
      using an(7) \<open>drop p ps \<noteq> []\<close> by (auto simp: list_all2_conv_all_nth last_conv_nth)
    ultimately show False using new [OF \<open>lo < e\<close> an(1)] by simp
  qed
  moreover have "suffix_match ps ms = None"
  proof -
    have "match_back 0 ps ms (length ps) (length ms) = (length ps, length ms)"
      using new [of "length ms"] assms(1,2) match_back_progress [of 0 ps "length ms" ms]
        match_back_aligned [of 0 ps ms "length ms"]
      by (cases "match_back 0 ps ms (length ps) (length ms)") (fastforce simp: lo_def)
    then show ?thesis by (simp add: suffix_match_def)
  qed
  ultimately show ?thesis
    using assms(1,2) by (auto simp: reconcile_projection_def reconcile_anchored_def reconcile_tail_def lo_def [symmetric])
qed

section \<open>Reconciling again appends nothing\<close>

lemma canonical_wf: "wf_dict m \<Longrightarrow> wf_dict (canonical_message m)"
  unfolding canonical_message_def Let_def
  by (auto simp del: wf_json.simps(2) intro!: wf_dict_dpop wf_dict_dset split: option.split)

lemma case_str_or_none:
  "(case v of JStr s \<Rightarrow> Some s | _ \<Rightarrow> None) = (if is_str v then Some (py_str v) else None)"
  by (cases v) auto

lemma text_part_py_eq:
  assumes "py_eq v w" "wf_json v" "wf_json w"
  shows "text_part v = text_part w"
proof (cases "is_dict v \<or> is_dict w")
  case True
  with assms(1) obtain a b where ab: "v = JObj a" "w = JObj b"
    by (cases v; cases w) auto
  have eq: "rel_option py_eq (map_of a k) (map_of b k)" for k
    using assms py_eq_dict_iff [of a b] unfolding ab by blast
  have str: "dget a k = JStr s \<longleftrightarrow> dget b k = JStr s" for k s
    using eq [of k] by (auto simp: dget_def split: option.splits)
  have "(case dget a k of JStr s \<Rightarrow> Some s | _ \<Rightarrow> None) = (case dget b k of JStr s \<Rightarrow> Some s | _ \<Rightarrow> None)" for k
  proof (cases "is_str (dget a k)")
    case True
    then obtain s where "dget a k = JStr s" by (auto simp: is_str_iff)
    moreover from this have "dget b k = JStr s" using str by blast
    ultimately show ?thesis by simp
  next
    case False
    with str have "\<not> is_str (dget b k)" by (auto simp: is_str_iff)
    with False show ?thesis by (simp add: case_str_or_none)
  qed
  with str show ?thesis by (simp add: ab text_part_def)
qed (cases v; cases w; simp add: text_part_def)

lemma text_content_py_eq:
  assumes "py_eq v w" "wf_json v" "wf_json w"
  shows "text_content v = text_content w"
proof (cases "is_list v \<or> is_list w")
  case True
  with assms(1) obtain xs ys where xs: "v = JArr xs" "w = JArr ys" "list_all2 py_eq xs ys"
    by (cases v; cases w) (auto simp: py_eq_list_iff)
  have "text_parts xs = text_parts ys"
    using xs(3) assms(2,3) unfolding xs(1,2)
    by (induction xs ys rule: list_all2_induct) (auto simp: text_part_py_eq split: option.split)
  then show ?thesis by (simp add: xs text_content_def)
next
  case False
  with assms(1) show ?thesis by (cases v; cases w) (auto simp: text_content_def)
qed

text \<open>Messages that are equal under \<open>==\<close> are equivalent.\<close>

lemma equivalent_py_eq:
  assumes "py_eq (JObj a) (JObj b)" "wf_dict a" "wf_dict b"
  shows "equivalent a b"
proof -
  define ra rb where "ra = dpop ''reasoning_text'' (dpop ''reasoning'' (dpop ''reasoning_content'' a))"
    and "rb = dpop ''reasoning_text'' (dpop ''reasoning'' (dpop ''reasoning_content'' b))"
  have wf: "wf_dict ra" "wf_dict rb" using assms(2,3) by (auto simp only: ra_def rb_def intro!: wf_dict_dpop)
  have eq: "py_eq (JObj ra) (JObj rb)" unfolding ra_def rb_def
    using assms by (intro py_eq_dpop wf_dict_dpop)
  then have c: "py_eq (dget ra ''content'') (dget rb ''content'')"
    using wf by (rule py_eq_dget)
  from text_content_py_eq [OF c] wf have "text_content (dget ra ''content'') = text_content (dget rb ''content'')"
    using wf_dict_dget by blast
  then have "py_eq (JObj (canonical_message a)) (JObj (canonical_message b))"
    using eq wf unfolding canonical_message_def Let_def
    by (auto simp del: py_eq.simps wf_json.simps(2) simp flip: ra_def rb_def intro!: py_eq_dset split: option.split)
  then show ?thesis by (simp add: equivalent_def)
qed

lemma equivalent_refl: "wf_dict m \<Longrightarrow> equivalent m m"
  by (simp add: equivalent_def py_eq_refl canonical_wf del: py_eq.simps wf_json.simps)

abbreviation wf_messages :: "pydict list \<Rightarrow> bool" where
  "wf_messages ms \<equiv> \<forall>m \<in> set ms. wf_dict m"

lemma common_prefix_append:
  "common_prefix R xs ys < length xs \<Longrightarrow> common_prefix R (xs @ zs) ys = common_prefix R xs ys"
  by (induction R xs ys rule: common_prefix.induct) auto

lemma common_prefix_full: "list_all2 R xs ys \<Longrightarrow> common_prefix R xs ys = length ys"
  by (induction xs ys rule: list_all2_induct) auto

lemma match_back_take:
  "pe \<le> length ps \<Longrightarrow> match_back lo (ps @ tail) ms pe ie = match_back lo ps ms pe ie"
  by (induction lo ps ms pe ie rule: match_back.induct) (auto simp: nth_append)

lemma match_back_tail:
  assumes "list_all2 equivalent ts (drop e ms)" "lo < length ps" "lo < e" "e + t \<le> length ms"
  shows "match_back lo (ps @ ts) ms (length ps + t) (e + t) = match_back lo ps ms (length ps) e"
  using assms(4)
proof (induction t)
  case 0
  then show ?case by (simp add: match_back_take)
next
  case (Suc t)
  have "equivalent ((ps @ ts) ! (length ps + t)) (ms ! (e + t))"
    using list_all2_nthD2 [OF assms(1), of t] Suc.prems by (simp add: nth_append add.commute)
  then show ?case using Suc assms(2,3) by simp
qed

lemma anchor_after_append:
  assumes a: "anchor_before_tail ps ms lo = Some (p, i, e)" and ts: "list_all2 equivalent ts (drop e ms)"
  shows "anchor_before_tail (ps @ ts) ms lo = Some (p, i, length ms)"
proof -
  from a have sc: "anchor_scan ps ms lo (rev [max (lo + 1) (length ms - max_scan) ..< length ms + 1]) = Some (p, i, e)"
    and lo: "lo < length ms" "lo < length ps"
    by (auto simp: anchor_before_tail_def Let_def split: if_splits)
  note sc = anchor_scan_Some [OF sc]
  have e: "e \<le> length ms" using anchor_before_tail_Some(1) [OF a] .
  have "match_back lo (ps @ ts) ms (length (ps @ ts)) (length ms) = (p, i)"
    using match_back_tail [OF ts lo(2), of "length ms - e"] sc e list_all2_lengthD [OF ts] by simp
  moreover have "rev [max (lo + 1) (length ms - max_scan) ..< length ms + 1]
      = length ms # rev [max (lo + 1) (length ms - max_scan) ..< length ms]"
    using lo(1) by simp
  moreover have "lo < length (ps @ ts)" using lo by simp
  ultimately show ?thesis using lo sc e by (simp add: anchor_before_tail_def del: length_append upt_Suc)
qed

lemma reconcile_whole:
  assumes "list_all2 equivalent ps ms"
  shows "reconcile_projection ps ms = result_of Exact None"
  using assms common_prefix_full [OF assms] list_all2_lengthD [OF assms]
  by (auto simp: reconcile_projection_def prefix_len_common)

lemma reconcile_after_continuation:
  assumes "list_all2 equivalent ps (take k ms)" "list_all2 equivalent ts (drop k ms)"
  shows "reconcile_projection (ps @ ts) ms = result_of Exact None"
proof (rule reconcile_whole)
  from list_all2_appendI [OF assms] show "list_all2 equivalent (ps @ ts) ms" by simp
qed

lemma reconcile_after_anchor:
  assumes a: "anchor_before_tail ps ms lo = Some (p, i, e)" "lo < p"
      "list_ex is_compaction_summary (drop lo (take i ms)) \<or> i = 0"
    and lo: "lo = prefix_len ps ms" "lo < length ps" "lo < length ms"
    and ts: "list_all2 equivalent ts (drop e ms)"
  shows "reconcile_projection (ps @ ts) ms =
    (if list_ex is_compaction_summary (drop lo (take i ms)) then result_of Compacted (Some (length ms))
     else result_of Truncate None)"
proof -
  have "prefix_len (ps @ ts) ms = lo"
    using lo common_prefix_append [of equivalent ps ms] by (simp add: prefix_len_common)
  then show ?thesis
    using anchor_after_append [OF a(1) ts] a(2,3) lo(2,3)
    by (auto simp: reconcile_projection_def reconcile_anchored_def)
qed

lemma reconcile_tail_new: "new_from (reconcile_tail ps ms) ms = length ms"
  by (auto simp: reconcile_tail_def split: option.split)

lemma reconcile_idempotent:
  assumes ok: "r_mode (reconcile_projection ps ms) \<noteq> Conflict"
  defines "k \<equiv> new_from (reconcile_projection ps ms) ms"
  assumes ts: "list_all2 equivalent ts (drop k ms)"
  defines "r' \<equiv> reconcile_projection (ps @ ts) ms"
  shows "r_mode r' \<noteq> Conflict \<and> new_from r' ms = length ms"
proof (cases "k = length ms")
  case True
  with ts have "r' = reconcile_projection ps ms" by (simp add: r'_def)
  with True ok show ?thesis by (simp add: k_def)
next
  case False
  then have ne: "ms \<noteq> []" by (auto simp: k_def reconcile_projection_def)
  define lo where "lo = prefix_len ps ms"
  show ?thesis
  proof (cases "ps = [] \<or> lo = length ps")
    case True
    then have "list_all2 equivalent ps (take (length ps) ms)" "k = length ps"
      using False ne prefix_len_all2 [of ps ms]
      by (auto simp: k_def reconcile_projection_def lo_def [symmetric])
    with reconcile_after_continuation [of ps "length ps" ms ts] ts show ?thesis by (simp add: r'_def)
  next
    case notpre: False
    have lo: "lo \<noteq> length ms" using False ne notpre by (auto simp: k_def reconcile_projection_def lo_def)
    then have eq: "reconcile_projection ps ms = reconcile_anchored ps ms lo"
      using ne notpre by (simp add: reconcile_projection_def lo_def)
    have lt: "lo < length ps" "lo < length ms"
      using prefix_len_le [of ps ms] notpre lo by (auto simp: lo_def)
    show ?thesis
    proof (cases rule: reconcile_anchored_cases [where ps = ps and ms = ms and lo = lo])
      case tail
      with eq False show ?thesis by (simp add: k_def reconcile_tail_new)
    next
      case (anchor p i e)
      with eq False have "k = e" by (auto simp: k_def split: if_splits)
      with reconcile_after_anchor [OF anchor(1-3) lo_def lt] ts show ?thesis by (auto simp: r'_def)
    qed
  qed
qed

text \<open>Some non-empty start of the view is equivalent to an end of the transcript.\<close>

definition starts_with_end :: "pydict list \<Rightarrow> pydict list \<Rightarrow> bool" where
  "starts_with_end ps ms \<longleftrightarrow> (\<exists>hidden qs ns tail. ps = hidden @ qs \<and> ms = ns @ tail \<and> ns \<noteq> [] \<and> list_all2 equivalent qs ns)"

lemma starts_with_endI: "list_all2 equivalent (drop p ps) (take e ms) \<Longrightarrow> take e ms \<noteq> [] \<Longrightarrow> starts_with_end ps ms"
  unfolding starts_with_end_def by (metis append_take_drop_id)

lemma reconcile_rewritten:
  assumes "prefix_len ps ms < length ps" "prefix_len ps ms < length ms"
    and "\<forall>m \<in> set (drop (prefix_len ps ms) ms). \<not> is_compaction_summary m" "\<not> starts_with_end ps ms"
  shows "reconcile_projection ps ms = result_of Conflict None"
proof -
  let ?lo = "prefix_len ps ms"
  have ms: "ms \<noteq> []" using assms(2) by auto
  have "reconcile_anchored ps ms ?lo = result_of Conflict None"
  proof (cases rule: reconcile_anchored_cases [where ps = ps and ms = ms and lo = ?lo])
    case tail
    have "i \<noteq> 0" if mb: "match_back 0 ps ms (length ps) (length ms) = (p, i)" for p i
    proof
      assume "i = 0"
      with match_back_aligned(4) [OF mb order_refl] starts_with_endI [of p ps "length ms" ms] assms(4) ms show False by simp
    qed
    with tail show ?thesis by (auto simp: reconcile_tail_def suffix_match_def split: option.split prod.splits)
  next
    case (anchor p i e)
    note an = anchor_before_tail_Some [OF anchor(1)]
    have "set (drop ?lo (take i ms)) \<subseteq> set (drop ?lo ms)" by (metis drop_take set_take_subset)
    then have "i = 0" using anchor(3) assms(3) by (auto simp: list_ex_iff)
    then have False using an(1,2,7) starts_with_endI [of p ps e ms] assms(4) ms by auto
    then show ?thesis ..
  qed
  then show ?thesis using assms(1,2) ms by (auto simp: reconcile_projection_def)
qed

lemma common_prefix_both: "list_all2 R xs ys \<Longrightarrow> common_prefix R (xs @ us) (ys @ vs) = length ys + common_prefix R us vs"
  by (induction xs ys rule: list_all2_induct) auto

section \<open>Properties\<close>

text \<open>
  C7. Every accepted view is a faithful one: unless the mode is \<open>Conflict\<close>, the incoming list
  stands in the relation \<open>projection\<close> of that mode to the stored transcript, and the index from
  which messages are appended lies within the incoming list.
\<close>

theorem reconcile_projection_sound:
  assumes "r_mode (reconcile_projection ps ms) \<noteq> Conflict"
  shows "projection ps ms (r_mode (reconcile_projection ps ms)) (new_from (reconcile_projection ps ms) ms)
    \<and> new_from (reconcile_projection ps ms) ms \<le> length ms"
  using reconcile_sound [OF refl assms] projection_bound by blast

definition said :: "string \<Rightarrow> string \<Rightarrow> pydict" where
  "said role content = [(''role'', JStr role), (''content'', JStr content)]"

definition compaction_notice :: pydict where
  "compaction_notice = [(''role'', JStr ''user''), (''content'', JStr ''earlier turns''), (''summary'', JBool True)]"

theorem reconcile_projection_sound_witness:
  "projection [said ''user'' ''a'', said ''assistant'' ''b'', said ''user'' ''c'']
     [compaction_notice, said ''user'' ''c'', said ''assistant'' ''d''] Compacted 2"
proof -
  have "reconcile_projection [said ''user'' ''a'', said ''assistant'' ''b'', said ''user'' ''c'']
     [compaction_notice, said ''user'' ''c'', said ''assistant'' ''d''] = result_of Compacted (Some 2)"
    by code_simp
  with reconcile_projection_sound show ?thesis by (metis recon_mode.distinct(29) result_of_simps(1,5))
qed

text \<open>
  C21. The ordinary full-history client is always accepted: a list that starts with a view
  of the stored transcript, message by message equivalent, is an exact replay or is appended
  from right after that view.
\<close>

theorem reconcile_projection_continuation:
  assumes "list_all2 equivalent ps ms"
  shows "reconcile_projection ps (ms @ tail) =
    (if tail = [] then result_of Exact None else result_of Append (Some (length ps)))"
proof (cases "tail = []")
  case True
  then show ?thesis using reconcile_whole [OF assms] by simp
next
  case False
  have "common_prefix equivalent ps (ms @ tail) = length ps"
    using assms by (induction ps ms rule: list_all2_induct) (auto simp: neq_Nil_conv)
  with False list_all2_lengthD [OF assms] show ?thesis
    by (auto simp: reconcile_projection_def prefix_len_common)
qed

theorem reconcile_projection_continuation_witness:
  "reconcile_projection [said ''user'' ''a''] ([said ''user'' ''a''] @ [said ''assistant'' ''b''])
     = result_of Append (Some 1)"
proof -
  have "list_all2 equivalent [said ''user'' ''a''] [said ''user'' ''a'']" by code_simp
  from reconcile_projection_continuation [OF this, of "[said ''assistant'' ''b'']"] show ?thesis by simp
qed

text \<open>
  C22. Forked histories are rejected.  Two lists that differ at some position are a \<open>Conflict\<close> in each of two cases: no
  incoming message from there on is equivalent to the last stored one; or none of them is a compaction summary and the
  view does not start with a part that is equivalent to an end of the stored transcript, which covers a rewritten prefix
  followed by a valid suffix.
\<close>

theorem reconcile_projection_rejects_fork:
  assumes "prefix_len ps ms < length ps" "prefix_len ps ms < length ms"
    and "(\<forall>m \<in> set (drop (prefix_len ps ms) ms). \<not> equivalent (last ps) m)
      \<or> (\<forall>m \<in> set (drop (prefix_len ps ms) ms). \<not> is_compaction_summary m) \<and> \<not> starts_with_end ps ms"
  shows "reconcile_projection ps ms = result_of Conflict None"
  using assms reconcile_fork reconcile_rewritten by blast

theorem reconcile_projection_rejects_fork_witness:
  "reconcile_projection [said ''user'' ''a'', said ''user'' ''b''] [said ''user'' ''a'', said ''user'' ''c'']
     = result_of Conflict None
   \<and> reconcile_projection [said ''user'' ''a'', said ''user'' ''b''] [said ''user'' ''z'', said ''user'' ''b'']
     = result_of Conflict None"
proof -
  let ?ps = "[said ''user'' ''a'', said ''user'' ''b'']" and ?ms = "[said ''user'' ''a'', said ''user'' ''c'']"
    and ?ns = "[said ''user'' ''z'', said ''user'' ''b'']"
  have "prefix_len ?ps ?ms = 1" "\<not> equivalent (said ''user'' ''b'') (said ''user'' ''c'')" by code_simp+
  then have fork: "reconcile_projection ?ps ?ms = result_of Conflict None" using reconcile_projection_rejects_fork [of ?ps ?ms] by simp
  have ns: "prefix_len ?ps ?ns = 0" "\<not> is_compaction_summary (said ''user'' ''z'')" "\<not> is_compaction_summary (said ''user'' ''b'')"
    "\<not> equivalent (said ''user'' ''a'') (said ''user'' ''z'')" "\<not> equivalent (said ''user'' ''b'') (said ''user'' ''z'')" by code_simp+
  then have "\<not> starts_with_end ?ps ?ns"
    by (auto simp: starts_with_end_def Cons_eq_append_conv list_all2_Cons1)
  with ns reconcile_projection_rejects_fork [of ?ps ?ns] fork show ?thesis by simp
qed

text \<open>
  C23. The anchor of a compacted view is the last incoming message that matches.  When the newest message \<open>m\<close> repeats the
  last stored one, whatever stands between the summary and it counts as known: nothing is appended, although \<open>mid\<close> may hold
  messages that were never stored.  The one exception is a view that ends with all of the stored messages \<open>qs\<close>.
\<close>

theorem reconcile_compaction_skips_repeated_tail:
  assumes "list_all2 equivalent ps ns" "is_compaction_summary notice" "\<forall>q \<in> set (ps @ qs). \<not> equivalent q notice"
    and "equivalent (last (ps @ qs)) m" "\<forall>r t. mid @ [m] = r @ t \<longrightarrow> \<not> list_all2 equivalent qs t"
  shows "reconcile_projection (ps @ qs) (ns @ notice # mid @ [m])
    = result_of Compacted (Some (length (ns @ notice # mid @ [m])))"
proof -
  let ?ps = "ps @ qs" and ?ms = "ns @ notice # mid @ [m]"
  have ne: "qs \<noteq> []" using assms(5) by auto
  then have "\<not> equivalent (hd qs) notice" using assms(3) by simp
  then have lo: "prefix_len ?ps ?ms = length ns"
    using common_prefix_both [OF assms(1), of qs "notice # mid @ [m]"] ne by (cases qs) (auto simp: prefix_len_common)
  have len: "length ns = length ps" using assms(1) by (simp add: list_all2_lengthD)
  have lt: "length ns < length ?ps" "length ns < length ?ms" using ne len by auto
  obtain p i where mb: "match_back (length ns) ?ps ?ms (length ?ps) (length ?ms) = (p, i)" by fastforce
  have "i < length ?ms" using match_back_progress [OF lt, of ?ms] assms(4) mb by (simp add: nth_append)
  note al = match_back_aligned [OF mb order_refl]
  have lo_le: "length ns \<le> p" "length ns \<le> i" using al(5) \<open>i < length ?ms\<close> by auto
  have all: "list_all2 equivalent (drop p ?ps) (drop i ?ms)" using al(4) by simp
  have "i \<noteq> length ns"
  proof
    assume i: "i = length ns"
    with all have "list_all2 equivalent (drop p ?ps) (notice # mid @ [m])" by simp
    then obtain q where "q \<in> set (drop p ?ps)" "equivalent q notice" unfolding list_all2_Cons2 by (metis list.set_intros(1))
    then show False using assms(3) by (meson in_set_dropD)
  qed
  then have i: "length ns < i" using lo_le by simp
  have "p \<noteq> length ns"
  proof
    assume "p = length ns"
    then have "list_all2 equivalent qs (drop (i - Suc (length ns)) (mid @ [m]))" using all i len by (simp add: drop_Cons')
    then show False using assms(5) by (metis append_take_drop_id)
  qed
  then have p: "length ns < p" using lo_le by simp
  have "rev [max (length ns + 1) (length ?ms - max_scan) ..< length ?ms + 1]
      = length ?ms # rev [max (length ns + 1) (length ?ms - max_scan) ..< length ?ms]" by simp
  then have "anchor_before_tail ?ps ?ms (length ns) = Some (p, i, length ?ms)"
    using mb lt \<open>i < length ?ms\<close> by (simp add: anchor_before_tail_def Let_def del: upt_Suc length_append)
  moreover have "list_ex is_compaction_summary (drop (length ns) (take i ?ms))"
    using i assms(2) by (simp add: take_Cons')
  ultimately have "reconcile_anchored ?ps ?ms (length ns) = result_of Compacted (Some (length ?ms))"
    using p by (simp add: reconcile_anchored_def)
  then show ?thesis using lo lt ne by (simp add: reconcile_projection_def)
qed

theorem reconcile_compaction_skips_repeated_tail_witness:
  "reconcile_projection [said ''user'' ''go'', said ''user'' ''yes'']
     [compaction_notice, said ''user'' ''yes'', said ''assistant'' ''ready?'', said ''user'' ''yes'']
   = result_of Compacted (Some 4)"
proof -
  have eq: "equivalent (said ''user'' ''yes'') (said ''user'' ''yes'')" "\<not> equivalent (said ''user'' ''go'') (said ''assistant'' ''ready?'')"
    "is_compaction_summary compaction_notice" "\<not> equivalent (said ''user'' ''go'') compaction_notice"
    "\<not> equivalent (said ''user'' ''yes'') compaction_notice" by code_simp+
  have "\<forall>r t. [said ''user'' ''yes'', said ''assistant'' ''ready?''] @ [said ''user'' ''yes''] = r @ t
      \<longrightarrow> \<not> list_all2 equivalent [said ''user'' ''go'', said ''user'' ''yes''] t"
    using eq by (auto simp: Cons_eq_append_conv)
  from reconcile_compaction_skips_repeated_tail [OF list.rel_intros(1) eq(3) _ _ this] eq show ?thesis by simp
qed

end
