(* ===== verification/Store.thy ===== *)
theory Store
  imports Reconciliation Sha256 "HOL-Library.Sublist"
begin

text \<open>
  The conversation stores, \<open>conversation/store.py\<close> and \<open>conversation/projection_store.py\<close>,
  over the tables of \<open>db/migrations\<close>.  The database is a record of tables, a table a list of
  rows in insertion order, and every SQL statement of the source is an operation on it.

  PostgreSQL itself is the record \<open>pg\<close> of two parameters: \<open>gen_uuid n\<close> is the \<open>n\<close>-th draw of
  \<open>gen_random_uuid()\<close>, and \<open>jsonb v\<close> is what \<open>json.loads\<close> reads back from a \<open>JSONB\<close> column
  into which \<open>json.dumps(v)\<close> was written, \<open>None\<close> when the server refuses the document.
  What the store relies on is \<open>jsonb_faithful\<close>: a document reads back equal under \<open>==\<close>.

  Every write is one transaction under the row lock of its conversation, so it is one atomic
  step: \<open>in_transaction\<close> keeps the old database when the body raises.  A conversation id is the
  canonical text of a UUID, as \<open>resolve_conversation_id\<close> returns it.
\<close>

section \<open>Model\<close>

record pg =
  gen_uuid :: "nat \<Rightarrow> string"
  jsonb :: "json \<Rightarrow> json option"

record msg_row =
  row_id :: string
  row_conv :: string
  row_seq :: int
  row_role :: string
  row_content :: pydict
  row_meta :: json

record call_row =
  tc_id :: string
  tc_message :: string
  tc_call_id :: string
  tc_type :: string
  tc_name :: string
  tc_arguments :: "json option"
  tc_input :: "json option"
  tc_extra :: json
  tc_created :: nat

record result_row =
  tr_id :: string
  tr_message :: string
  tr_ref :: "string option"
  tr_call_id :: string
  tr_content :: json

record media_row =
  md_conv :: string
  md_message :: string
  md_index :: nat
  md_kind :: string
  md_source :: string
  md_hash :: string
  md_size :: nat

text \<open>\<open>db_clock\<close> is \<open>now()\<close> of the running transaction, \<open>db_draws\<close> the UUIDs drawn so far.\<close>

record db =
  db_conversations :: "(string \<times> nat) list"
  db_messages :: "msg_row list"
  db_calls :: "call_row list"
  db_results :: "result_row list"
  db_media :: "media_row list"
  db_draws :: nat
  db_clock :: nat

definition empty_db :: db where
  "empty_db = \<lparr>db_conversations = [], db_messages = [], db_calls = [], db_results = [], db_media = [],
     db_draws = 0, db_clock = 0\<rparr>"

subsection \<open>Diagnostics of a divergence\<close>

definition message_fingerprint :: "pydict \<Rightarrow> string" where
  "message_fingerprint message = take 16 (sha256_hex (dumps_canonical (JObj message)))"

definition field_differs :: "pydict \<Rightarrow> pydict \<Rightarrow> string \<Rightarrow> bool" where
  "field_differs persisted incoming key =
     (case (map_of persisted key, map_of incoming key) of
        (Some v, Some w) \<Rightarrow> \<not> py_eq v w
      | (None, None) \<Rightarrow> False
      | _ \<Rightarrow> True)"

definition differing_fields :: "pydict \<Rightarrow> pydict \<Rightarrow> string list" where
  "differing_fields persisted incoming =
     sort (filter (field_differs persisted incoming) (remdups (map fst persisted @ map fst incoming)))"

record divergence =
  dv_conversation :: string
  dv_index :: nat
  dv_persisted_hash :: "string option"
  dv_incoming_hash :: "string option"
  dv_fields :: "string list"

definition HistoryDivergenceError ::
  "string \<Rightarrow> nat \<Rightarrow> pydict option \<Rightarrow> pydict option \<Rightarrow> divergence"
where
  "HistoryDivergenceError conversation_id index persisted incoming =
     (case (persisted, incoming) of
        (Some p, Some i) \<Rightarrow>
          \<lparr>dv_conversation = conversation_id, dv_index = index,
           dv_persisted_hash = Some (message_fingerprint p),
           dv_incoming_hash = Some (message_fingerprint i),
           dv_fields = differing_fields p i\<rparr>
      | _ \<Rightarrow>
          \<lparr>dv_conversation = conversation_id, dv_index = index, dv_persisted_hash = None,
           dv_incoming_hash = None, dv_fields = []\<rparr>)"

text \<open>What a write raises: a divergence, an error of the database, or another exception.\<close>

datatype store_error = Divergence divergence | DatabaseError | StoreRaised pyerr

definition lift_store :: "'a result \<Rightarrow> store_error + 'a" where
  "lift_store m = (case m of Inl e \<Rightarrow> Inl (StoreRaised e) | Inr x \<Rightarrow> Inr x)"

subsection \<open>Statements\<close>

text \<open>A value bound to a \<open>TEXT NOT NULL\<close> column: a string without NUL.\<close>

definition text_param :: "json \<Rightarrow> store_error + string" where
  "text_param v =
     (case v of JStr s \<Rightarrow> if CHR 0x00 \<in> set s then Inl DatabaseError else Inr s | _ \<Rightarrow> Inl DatabaseError)"

definition jsonb_param :: "pg \<Rightarrow> json \<Rightarrow> store_error + json" where
  "jsonb_param pg v = (case jsonb pg v of None \<Rightarrow> Inl DatabaseError | Some w \<Rightarrow> Inr w)"

definition jsonb_object :: "pg \<Rightarrow> pydict \<Rightarrow> store_error + pydict" where
  "jsonb_object pg d = (case jsonb pg (JObj d) of Some (JObj e) \<Rightarrow> Inr e | _ \<Rightarrow> Inl DatabaseError)"

definition ROLE_CHECK :: "string list" where
  "ROLE_CHECK = [''system'', ''developer'', ''user'', ''assistant'', ''tool'']"

definition draw_uuid :: "pg \<Rightarrow> db \<Rightarrow> string \<times> db" where
  "draw_uuid pg d = (gen_uuid pg (db_draws d), d\<lparr>db_draws := Suc (db_draws d)\<rparr>)"

definition ensure_conversation :: "string \<Rightarrow> db \<Rightarrow> db" where
  "ensure_conversation conversation_id d =
     d\<lparr>db_conversations := AList.update conversation_id (db_clock d) (db_conversations d)\<rparr>"

definition conv_rows :: "string \<Rightarrow> db \<Rightarrow> msg_row list" where
  "conv_rows conversation_id d = filter (\<lambda>r. row_conv r = conversation_id) (db_messages d)"

definition fetch_messages :: "string \<Rightarrow> db \<Rightarrow> pydict list" where
  "fetch_messages conversation_id d = map row_content (sort_key row_seq (conv_rows conversation_id d))"

definition max_seq :: "string \<Rightarrow> db \<Rightarrow> int" where
  "max_seq conversation_id d = foldr (max \<circ> row_seq) (conv_rows conversation_id d) (- 1)"

subsection \<open>Inserting messages\<close>

definition insert_tool_call :: "pg \<Rightarrow> string \<Rightarrow> db \<Rightarrow> json \<Rightarrow> store_error + db" where
  "insert_tool_call pg message_id d tool_call =
     (case tool_call of
        JObj call \<Rightarrow>
          let call_type =
                (if dget call ''type'' = JNull
                 then JStr (if has_key call ''custom'' then ''custom'' else ''function'')
                 else dget call ''type'') in
          bind_r (if call_type = JStr ''custom''
             then let custom = or_else (dget call ''custom'') (JObj []) in
                  bind_r (lift_store (jget custom ''name'')) (\<lambda>name.
                  bind_r (lift_store (jget custom ''input'')) (\<lambda>inp.
                  bind_r (jsonb_param pg inp) (\<lambda>call_input.
                  Inr (name, None, Some call_input))))
             else let function = or_else (dget call ''function'') (JObj []) in
                  bind_r (lift_store (jget function ''name'')) (\<lambda>name.
                  bind_r (lift_store (jget function ''arguments'')) (\<lambda>args.
                  bind_r (jsonb_param pg args) (\<lambda>arguments.
                  Inr (name, Some arguments, None))))) (\<lambda>(name, arguments, call_input).
          let extra = filter (\<lambda>kv. fst kv \<notin> {''id'', ''type'', ''function'', ''custom''}) call in
          bind_r (text_param (dget call ''id'')) (\<lambda>tool_call_id.
          bind_r (text_param (JStr (py_str call_type))) (\<lambda>type_text.
          bind_r (text_param name) (\<lambda>name_text.
          bind_r (jsonb_param pg (JObj extra)) (\<lambda>extra_json.
          if list_ex (\<lambda>r. tc_message r = message_id \<and> tc_call_id r = tool_call_id) (db_calls d)
          then Inr d
          else
            let (new_id, d1) = draw_uuid pg d in
            Inr (d1\<lparr>db_calls := db_calls d1 @
              [\<lparr>tc_id = new_id, tc_message = message_id, tc_call_id = tool_call_id, tc_type = type_text,
                tc_name = name_text, tc_arguments = arguments, tc_input = call_input,
                tc_extra = extra_json, tc_created = db_clock d1\<rparr>]\<rparr>))))))
      | _ \<Rightarrow> Inl (StoreRaised AttributeError))"

text \<open>The calls of a conversation with a given id, and the newest of them.\<close>

definition matching_calls :: "string \<Rightarrow> string \<Rightarrow> db \<Rightarrow> call_row list" where
  "matching_calls conversation_id tool_call_id d =
     filter (\<lambda>c. tc_call_id c = tool_call_id
         \<and> list_ex (\<lambda>m. row_id m = tc_message c) (conv_rows conversation_id d)) (db_calls d)"

fun newest_call :: "call_row list \<Rightarrow> call_row option" where
  "newest_call [] = None"
| "newest_call (c # cs) =
     (case newest_call cs of
        None \<Rightarrow> Some c
      | Some b \<Rightarrow> if tc_created b < tc_created c \<or> tc_created b = tc_created c \<and> tc_id b < tc_id c
                  then Some c else Some b)"

definition find_tool_call :: "string \<Rightarrow> string \<Rightarrow> db \<Rightarrow> string option" where
  "find_tool_call conversation_id tool_call_id d =
     map_option tc_id (newest_call (matching_calls conversation_id tool_call_id d))"

definition persist_tool_parts ::
  "pg \<Rightarrow> string \<Rightarrow> string \<Rightarrow> pydict \<Rightarrow> db \<Rightarrow> store_error + db"
where
  "persist_tool_parts pg conversation_id message_id message d =
     bind_r (lift_store (py_iter (or_else (dget message ''tool_calls'') (JArr [])))) (\<lambda>calls.
     bind_r (fold_r (insert_tool_call pg message_id) d calls) (\<lambda>d1.
     if dget message ''role'' = JStr ''tool'' \<and> truthy (dget message ''tool_call_id'') then
       bind_r (text_param (dget message ''tool_call_id'')) (\<lambda>tool_call_id.
       let tool_call_ref = find_tool_call conversation_id tool_call_id d1 in
       bind_r (jsonb_param pg (dget message ''content'')) (\<lambda>content.
       let (new_id, d2) = draw_uuid pg d1 in
       Inr (d2\<lparr>db_results := db_results d2 @
         [\<lparr>tr_id = new_id, tr_message = message_id, tr_ref = tool_call_ref,
           tr_call_id = tool_call_id, tr_content = content\<rparr>]\<rparr>)))
     else Inr d1))"

definition media_url :: "pydict \<Rightarrow> string" where
  "media_url part =
     (case or_else (dget part ''image_url'') (JObj []) of
        JObj image_url \<Rightarrow> py_str (dget_default image_url ''url'' (JStr []))
      | v \<Rightarrow> py_str v)"

definition insert_media :: "string \<Rightarrow> string \<Rightarrow> db \<Rightarrow> nat \<times> json \<Rightarrow> db" where
  "insert_media conversation_id message_id d ip =
     (case snd ip of
        JObj part \<Rightarrow>
          if dget part ''type'' \<noteq> JStr ''image_url'' then d
          else
            let url = media_url part;
                source = (if starts_with ''data:'' url then ''data'' else ''url'') in
            if list_ex (\<lambda>r. md_message r = message_id \<and> md_index r = fst ip) (db_media d) then d
            else d\<lparr>db_media := db_media d @
              [\<lparr>md_conv = conversation_id, md_message = message_id, md_index = fst ip,
                md_kind = ''image_url'', md_source = source, md_hash = sha256_hex url,
                md_size = length url\<rparr>]\<rparr>
      | _ \<Rightarrow> d)"

definition persist_media_parts :: "string \<Rightarrow> string \<Rightarrow> pydict \<Rightarrow> db \<Rightarrow> db" where
  "persist_media_parts conversation_id message_id message d =
     (case dget message ''content'' of
        JArr content \<Rightarrow> foldl (insert_media conversation_id message_id) d (enumerate 0 content)
      | _ \<Rightarrow> d)"

definition insert_message_row ::
  "pg \<Rightarrow> string \<Rightarrow> int \<Rightarrow> json \<Rightarrow> pydict \<Rightarrow> db \<Rightarrow> store_error + (string \<times> db)"
where
  "insert_message_row pg conversation_id seq meta message d =
     (case dget message ''role'' of
        JStr role \<Rightarrow>
          if role \<notin> set ROLE_CHECK then Inl DatabaseError
          else
            bind_r (jsonb_object pg message) (\<lambda>content.
            bind_r (jsonb_param pg meta) (\<lambda>meta_json.
            let (message_id, d1) = draw_uuid pg d in
            Inr (message_id, d1\<lparr>db_messages := db_messages d1 @
              [\<lparr>row_id = message_id, row_conv = conversation_id, row_seq = seq, row_role = role,
                row_content = content, row_meta = meta_json\<rparr>]\<rparr>)))
      | _ \<Rightarrow> Inl DatabaseError)"

text \<open>One round of the loop of \<open>_insert_messages\<close>: its state is the database, \<open>seq\<close> and the ids.\<close>

definition insert_one ::
  "pg \<Rightarrow> string \<Rightarrow> json \<Rightarrow> db \<times> int \<times> string list \<Rightarrow> pydict
   \<Rightarrow> store_error + (db \<times> int \<times> string list)"
where
  "insert_one pg conversation_id meta s message =
     (case s of (d, seq0, message_ids) \<Rightarrow>
        let seq = seq0 + 1 in
        bind_r (insert_message_row pg conversation_id seq meta message d) (\<lambda>(message_id, d1).
        bind_r (persist_tool_parts pg conversation_id message_id message d1) (\<lambda>d2.
        Inr (persist_media_parts conversation_id message_id message d2, seq, message_ids @ [message_id]))))"

definition insert_messages ::
  "pg \<Rightarrow> string \<Rightarrow> pydict list \<Rightarrow> json \<Rightarrow> db \<Rightarrow> store_error + (db \<times> string list)"
where
  "insert_messages pg conversation_id messages metadata d =
     (if messages = [] then Inr (d, [])
      else
        let meta = (if truthy metadata then metadata else JObj []) in
        bind_r (fold_r (insert_one pg conversation_id meta) (d, max_seq conversation_id d, []) messages)
          (\<lambda>(d1, seq, message_ids). Inr (d1, message_ids)))"

subsection \<open>Transactions\<close>

definition in_transaction :: "(db \<Rightarrow> store_error + (db \<times> 'a)) \<Rightarrow> db \<Rightarrow> db \<times> (store_error + 'a)" where
  "in_transaction body d =
     (case body (d\<lparr>db_clock := Suc (db_clock d)\<rparr>) of
        Inl e \<Rightarrow> (d, Inl e)
      | Inr (d1, x) \<Rightarrow> (d1, Inr x))"

definition append_messages ::
  "pg \<Rightarrow> db \<Rightarrow> string \<Rightarrow> pydict list \<Rightarrow> json \<Rightarrow> db \<times> (store_error + string list)"
where
  "append_messages pg d conversation_id messages metadata =
     (if messages = [] then (d, Inr [])
      else in_transaction (\<lambda>d1.
             insert_messages pg conversation_id messages metadata
               (ensure_conversation conversation_id d1)) d)"

text \<open>The part the two stores share once the mode is not a conflict.\<close>

definition append_new ::
  "pg \<Rightarrow> string \<Rightarrow> pydict list \<Rightarrow> json \<Rightarrow> recon_result \<Rightarrow> db \<Rightarrow> store_error + (db \<times> string list)"
where
  "append_new pg conversation_id messages metadata res d =
     (case append_from res of
        None \<Rightarrow> Inr (d, [])
      | Some k \<Rightarrow>
          if length messages \<le> k then Inr (d, [])
          else insert_messages pg conversation_id (drop k messages) metadata d)"

definition nth_opt :: "'a list \<Rightarrow> nat \<Rightarrow> 'a option" where
  "nth_opt xs i = (if i < length xs then Some (xs ! i) else None)"

definition first_difference :: "pydict list \<Rightarrow> pydict list \<Rightarrow> nat" where
  "first_difference persisted messages =
     (let index = min (length persisted) (length messages) in
      case find (\<lambda>i. \<not> equivalent (persisted ! i) (messages ! i)) [0 ..< index] of
        None \<Rightarrow> index
      | Some candidate \<Rightarrow> candidate)"

definition reconcile_history ::
  "pg \<Rightarrow> db \<Rightarrow> string \<Rightarrow> pydict list \<Rightarrow> json \<Rightarrow> db \<times> (store_error + string list)"
where
  "reconcile_history pg d conversation_id messages metadata =
     in_transaction (\<lambda>d0.
       let d1 = ensure_conversation conversation_id d0;
           persisted = fetch_messages conversation_id d1;
           res = reconcile_projection persisted messages in
       if r_mode res = Conflict then
         let index = first_difference persisted messages in
         Inl (Divergence (HistoryDivergenceError conversation_id index
               (nth_opt persisted index) (nth_opt messages index)))
       else append_new pg conversation_id messages metadata res d1) d"

text \<open>The override of \<open>ProjectionAwareConversationStore\<close>.\<close>

definition projection_reconcile_history ::
  "pg \<Rightarrow> db \<Rightarrow> string \<Rightarrow> pydict list \<Rightarrow> json \<Rightarrow> db \<times> (store_error + string list)"
where
  "projection_reconcile_history pg d conversation_id messages metadata =
     in_transaction (\<lambda>d0.
       let d1 = ensure_conversation conversation_id d0;
           persisted = fetch_messages conversation_id d1;
           res = reconcile_projection persisted messages in
       if r_mode res = Conflict then
         let index = min (length persisted) (length messages) in
         Inl (Divergence (HistoryDivergenceError conversation_id index
               (nth_opt persisted index) (nth_opt messages index)))
       else append_new pg conversation_id messages metadata res d1) d"

definition get_messages :: "db \<Rightarrow> string \<Rightarrow> pydict list" where
  "get_messages d conversation_id = fetch_messages conversation_id d"

section \<open>Tables only grow\<close>

definition extends :: "db \<Rightarrow> db \<Rightarrow> bool" where
  "extends d d' \<longleftrightarrow> prefix (db_messages d) (db_messages d') \<and> prefix (db_calls d) (db_calls d')
     \<and> prefix (db_results d) (db_results d') \<and> prefix (db_media d) (db_media d')
     \<and> fst ` set (db_conversations d) \<subseteq> fst ` set (db_conversations d') \<and> db_clock d \<le> db_clock d'"

lemma extends_refl [simp]: "extends d d"
  by (simp add: extends_def)

lemma extends_trans: "extends d d1 \<Longrightarrow> extends d1 d2 \<Longrightarrow> extends d d2"
  by (auto simp: extends_def intro: prefix_order.trans)

lemma draw_uuid_simps [simp]:
  "fst (draw_uuid pg d) = gen_uuid pg (db_draws d)"
  "snd (draw_uuid pg d) = d\<lparr>db_draws := Suc (db_draws d)\<rparr>"
  by (simp_all add: draw_uuid_def)

lemma draw_uuid_eq: "draw_uuid pg d = (i, d') \<longleftrightarrow> i = gen_uuid pg (db_draws d) \<and> d' = d\<lparr>db_draws := Suc (db_draws d)\<rparr>"
  by (auto simp: draw_uuid_def)

text \<open>Persisting the parts of a message leaves messages and conversations alone.\<close>

definition parts_step :: "db \<Rightarrow> db \<Rightarrow> bool" where
  "parts_step d d' \<longleftrightarrow> extends d d' \<and> db_messages d' = db_messages d
     \<and> db_conversations d' = db_conversations d \<and> db_clock d' = db_clock d"

lemma parts_step_refl [simp]: "parts_step d d"
  by (simp add: parts_step_def)

lemma parts_step_trans: "parts_step d d1 \<Longrightarrow> parts_step d1 d2 \<Longrightarrow> parts_step d d2"
  by (auto simp: parts_step_def intro: extends_trans)

text \<open>An accepted tool call: either it is already there, or one row of its message is added.\<close>

lemma insert_tool_call_cases:
  assumes "insert_tool_call pg mid d v = Inr d'"
  obtains (same) "d' = d"
  | (added) row where "d' = d\<lparr>db_draws := Suc (db_draws d), db_calls := db_calls d @ [row]\<rparr>"
      "tc_message row = mid" "tc_created row = db_clock d" "tc_id row = gen_uuid pg (db_draws d)"
      "\<not> list_ex (\<lambda>r. tc_message r = mid \<and> tc_call_id r = tc_call_id row) (db_calls d)"
      "\<exists>call. v = JObj call \<and> dget call ''id'' = JStr (tc_call_id row)"
proof (cases v)
  case (JObj call)
  from assms obtain name arguments inp tcid ty nm ex where
    "text_param (dget call ''id'') = Inr tcid" and
    step: "(if list_ex (\<lambda>r. tc_message r = mid \<and> tc_call_id r = tcid) (db_calls d) then Inr d
      else let (new_id, d1) = draw_uuid pg d in
            Inr (d1\<lparr>db_calls := db_calls d1 @
              [\<lparr>tc_id = new_id, tc_message = mid, tc_call_id = tcid, tc_type = ty,
                tc_name = nm, tc_arguments = arguments, tc_input = inp,
                tc_extra = ex, tc_created = db_clock d1\<rparr>]\<rparr>)) = (Inr d' :: store_error + db)"
    unfolding insert_tool_call_def JObj json.case Let_def bind_r_eq_Inr prod.case_eq_if by blast
  from this(1) have id: "dget call ''id'' = JStr tcid"
    by (auto simp: text_param_def split: json.splits if_splits)
  show ?thesis
  proof (cases "list_ex (\<lambda>r. tc_message r = mid \<and> tc_call_id r = tcid) (db_calls d)")
    case True
    with step show ?thesis by (intro same) simp
  next
    case False
    with step id JObj show ?thesis by (intro added) (auto simp: draw_uuid_def)
  qed
qed (use assms in \<open>simp_all add: insert_tool_call_def\<close>)

lemma insert_tool_call_step: "insert_tool_call pg mid d v = Inr d' \<Longrightarrow> parts_step d d'"
  by (erule insert_tool_call_cases) (auto simp: parts_step_def extends_def)

lemma fold_parts_step:
  assumes "fold_r f d xs = Inr d'" "\<And>d x d'. f d x = Inr d' \<Longrightarrow> parts_step d d'"
  shows "parts_step d d'"
  using assms(1) by (rule fold_r_invariant [where P = "parts_step d"])
    (auto intro: parts_step_trans assms(2))

lemma lift_store_Inr [simp]: "lift_store m = Inr x \<longleftrightarrow> m = Inr x"
  by (cases m) (auto simp: lift_store_def)

text \<open>The parts of a message: the calls, and one result row for a tool message.\<close>

lemma persist_tool_parts_cases:
  assumes "persist_tool_parts pg c mid m d = Inr d'"
  obtains calls d1 where
    "fold_r (insert_tool_call pg mid) d calls = Inr d1"
    "d' = d1 \<or> (\<exists>row. d' = d1\<lparr>db_draws := Suc (db_draws d1), db_results := db_results d1 @ [row]\<rparr>
        \<and> tr_message row = mid \<and> tr_ref row = find_tool_call c (tr_call_id row) d1
        \<and> dget m ''tool_call_id'' = JStr (tr_call_id row))"
proof -
  from assms obtain calls d1 where d1: "fold_r (insert_tool_call pg mid) d calls = Inr d1"
    and rest: "(if dget m ''role'' = JStr ''tool'' \<and> truthy (dget m ''tool_call_id'') then
       bind_r (text_param (dget m ''tool_call_id'')) (\<lambda>tool_call_id.
       let tool_call_ref = find_tool_call c tool_call_id d1 in
       bind_r (jsonb_param pg (dget m ''content'')) (\<lambda>content.
       let (new_id, d2) = draw_uuid pg d1 in
       Inr (d2\<lparr>db_results := db_results d2 @
         [\<lparr>tr_id = new_id, tr_message = mid, tr_ref = tool_call_ref,
           tr_call_id = tool_call_id, tr_content = content\<rparr>]\<rparr>)))
     else Inr d1) = Inr d'"
    unfolding persist_tool_parts_def bind_r_eq_Inr by blast
  from rest have "d' = d1 \<or> (\<exists>row. d' = d1\<lparr>db_draws := Suc (db_draws d1), db_results := db_results d1 @ [row]\<rparr>
        \<and> tr_message row = mid \<and> tr_ref row = find_tool_call c (tr_call_id row) d1
        \<and> dget m ''tool_call_id'' = JStr (tr_call_id row))"
    by (auto simp: result_simps draw_uuid_def Let_def text_param_def split: if_splits json.splits)
  with d1 that show ?thesis by blast
qed

lemma persist_tool_parts_step: "persist_tool_parts pg c mid m d = Inr d' \<Longrightarrow> parts_step d d'"
proof (erule persist_tool_parts_cases)
  fix calls d1
  assume 1: "fold_r (insert_tool_call pg mid) d calls = Inr d1"
    and 2: "d' = d1 \<or> (\<exists>row. d' = d1\<lparr>db_draws := Suc (db_draws d1), db_results := db_results d1 @ [row]\<rparr>
        \<and> tr_message row = mid \<and> tr_ref row = find_tool_call c (tr_call_id row) d1
        \<and> dget m ''tool_call_id'' = JStr (tr_call_id row))"
  have "parts_step d1 d'" using 2 by (auto simp: parts_step_def extends_def)
  with fold_parts_step [OF 1] insert_tool_call_step show ?thesis by (blast intro: parts_step_trans)
qed

lemma insert_media_step: "parts_step d (insert_media c mid d ip)"
  by (auto simp: insert_media_def parts_step_def extends_def Let_def split: json.split)

lemma persist_media_parts_step: "parts_step d (persist_media_parts c mid m d)"
proof -
  have "parts_step d (foldl (insert_media c mid) d ips)" for ips
    by (induction ips arbitrary: d) (auto intro: parts_step_trans insert_media_step)
  then show ?thesis by (auto simp: persist_media_parts_def split: json.split)
qed

section \<open>What inserting messages does\<close>

text \<open>\<open>stored_as pg m row\<close>: the row holds the message as the \<open>JSONB\<close> column reads it back.\<close>

definition stored_as :: "pg \<Rightarrow> pydict \<Rightarrow> msg_row \<Rightarrow> bool" where
  "stored_as pg m row \<longleftrightarrow> jsonb_object pg m = Inr (row_content row)"

lemma insert_one_Inr:
  assumes "insert_one pg c meta (d, seq, ids) m = Inr s'"
  obtains row d' where "s' = (d', seq + 1, ids @ [row_id row])" "extends d d'"
    "db_messages d' = db_messages d @ [row]" "row_conv row = c" "row_seq row = seq + 1"
    "stored_as pg m row"
proof -
  from assms obtain mid d1 d2 where
    r: "insert_message_row pg c (seq + 1) meta m d = Inr (mid, d1)"
    and t: "persist_tool_parts pg c mid m d1 = Inr d2"
    and s': "s' = (persist_media_parts c mid m d2, seq + 1, ids @ [mid])"
    by (auto simp: insert_one_def Let_def result_simps)
  from r obtain role content mj where cj: "jsonb_object pg m = Inr content"
    and mid: "mid = gen_uuid pg (db_draws d)"
    and d1: "d1 = d\<lparr>db_draws := Suc (db_draws d), db_messages := db_messages d @
       [\<lparr>row_id = mid, row_conv = c, row_seq = seq + 1, row_role = role, row_content = content, row_meta = mj\<rparr>]\<rparr>"
    by (auto simp: insert_message_row_def result_simps draw_uuid_def Let_def split: json.splits if_splits)
  define row where "row = \<lparr>row_id = mid, row_conv = c, row_seq = seq + 1, row_role = role, row_content = content, row_meta = mj\<rparr>"
  have row: "d1 = d\<lparr>db_draws := Suc (db_draws d), db_messages := db_messages d @ [row]\<rparr>"
    "row_id row = mid" "row_conv row = c" "row_seq row = seq + 1" "stored_as pg m row"
    using cj d1 by (simp_all add: row_def stored_as_def)
  have "parts_step d1 (persist_media_parts c mid m d2)"
    using persist_tool_parts_step [OF t] persist_media_parts_step by (rule parts_step_trans)
  moreover have "extends d d1" by (simp add: row(1) extends_def)
  ultimately show ?thesis
    using row s' by (intro that [of "persist_media_parts c mid m d2" row])
      (auto simp: parts_step_def intro: extends_trans)
qed

lemma insert_fold_Inr:
  assumes "fold_r (insert_one pg c meta) (d, seq, ids) ms = Inr (d', seq', ids')"
  obtains rows where "db_messages d' = db_messages d @ rows" "ids' = ids @ map row_id rows"
    "list_all2 (stored_as pg) ms rows" "\<forall>r \<in> set rows. row_conv r = c"
    "map row_seq rows = map (\<lambda>i. seq + 1 + int i) [0 ..< length rows]" "extends d d'"
  using assms
proof (induction ms arbitrary: d seq ids thesis)
  case Nil
  then show ?case by simp
next
  case (Cons m ms)
  from Cons.prems(2) obtain s1 where 1: "insert_one pg c meta (d, seq, ids) m = Inr s1"
    and 2: "fold_r (insert_one pg c meta) s1 ms = Inr (d', seq', ids')"
    by (auto simp: result_simps)
  from 1 obtain row d1 where row: "s1 = (d1, seq + 1, ids @ [row_id row])" "extends d d1"
    "db_messages d1 = db_messages d @ [row]" "row_conv row = c" "row_seq row = seq + 1" "stored_as pg m row"
    by (rule insert_one_Inr)
  from 2 row(1) have "fold_r (insert_one pg c meta) (d1, seq + 1, ids @ [row_id row]) ms = Inr (d', seq', ids')" by simp
  then obtain rows where rows: "db_messages d' = db_messages d1 @ rows" "ids' = (ids @ [row_id row]) @ map row_id rows"
    "list_all2 (stored_as pg) ms rows" "\<forall>r \<in> set rows. row_conv r = c"
    "map row_seq rows = map (\<lambda>i. (seq + 1) + 1 + int i) [0 ..< length rows]" "extends d1 d'"
    by (rule Cons.IH [rotated])
  have "map row_seq (row # rows) = map (\<lambda>i. seq + 1 + int i) [0 ..< length (row # rows)]"
    using rows(5) row(5) by (simp add: upt_rec [of 0] map_Suc_upt [symmetric] del: upt_Suc)
  with row rows show ?case by (intro Cons.prems(1) [of "row # rows"]) (auto intro: extends_trans)
qed

text \<open>The sequence numbers of a conversation are 0, 1, 2, ... in insertion order.\<close>

definition seq_ok :: "db \<Rightarrow> bool" where
  "seq_ok d \<longleftrightarrow> (\<forall>c. map row_seq (conv_rows c d) = map int [0 ..< length (conv_rows c d)])"

lemma seq_ok_sorted: "seq_ok d \<Longrightarrow> sort_key row_seq (conv_rows c d) = conv_rows c d"
proof (rule sort_key_id_if_sorted)
  assume "seq_ok d"
  then have "map row_seq (conv_rows c d) = map int [0 ..< length (conv_rows c d)]" by (simp add: seq_ok_def)
  then show "sorted (map row_seq (conv_rows c d))" by (simp add: sorted_iff_nth_mono)
qed

lemma fetch_messages_seq_ok: "seq_ok d \<Longrightarrow> fetch_messages c d = map row_content (conv_rows c d)"
  by (simp add: fetch_messages_def seq_ok_sorted)

lemma max_seq_seq_ok: "seq_ok d \<Longrightarrow> max_seq c d = int (length (conv_rows c d)) - 1"
proof -
  have fold: "foldr max (map int [0 ..< n]) b = (if n = 0 then b else max b (int n - 1))" for n and b :: int
    by (induction n arbitrary: b) auto
  assume "seq_ok d"
  then have "map row_seq (conv_rows c d) = map int [0 ..< length (conv_rows c d)]" by (simp add: seq_ok_def)
  moreover have "max_seq c d = foldr max (map row_seq (conv_rows c d)) (- 1)"
    by (simp add: max_seq_def foldr_map)
  ultimately show ?thesis using fold [of "length (conv_rows c d)" "-1"] by (auto simp del: foldr_map)
qed

text \<open>The effect of a write on the transcripts: some messages are added at the end of one of them.\<close>

definition appended :: "pg \<Rightarrow> string \<Rightarrow> pydict list \<Rightarrow> db \<Rightarrow> db \<Rightarrow> bool" where
  "appended pg c ms d d' \<longleftrightarrow> extends d d' \<and> seq_ok d'
     \<and> (\<exists>new. fetch_messages c d' = fetch_messages c d @ new
            \<and> list_all2 (\<lambda>m n. jsonb_object pg m = Inr n) ms new)
     \<and> (\<forall>c'. c' \<noteq> c \<longrightarrow> fetch_messages c' d' = fetch_messages c' d)"

lemma conv_rows_append: "db_messages d' = db_messages d @ rows
   \<Longrightarrow> conv_rows c d' = conv_rows c d @ filter (\<lambda>r. row_conv r = c) rows"
  by (simp add: conv_rows_def)

lemma rows_appended:
  assumes d': "db_messages d' = db_messages d @ rows" "extends d d'" and ok: "seq_ok d"
    and rows: "list_all2 (stored_as pg) ms rows" "\<forall>r \<in> set rows. row_conv r = c"
      "map row_seq rows = map (\<lambda>i. max_seq c d + 1 + int i) [0 ..< length rows]"
  shows "appended pg c ms d d'"
proof -
  have new: "conv_rows c d' = conv_rows c d @ rows"
    using conv_rows_append [OF d'(1)] rows(2) by (simp add: filter_id_conv)
  have old: "conv_rows c' d' = conv_rows c' d" if "c' \<noteq> c" for c'
    using conv_rows_append [OF d'(1)] rows(2) that by (auto simp: filter_empty_conv)
  have "map row_seq (conv_rows c d') = map int [0 ..< length (conv_rows c d')]"
  proof -
    let ?n = "length (conv_rows c d)"
    have "map row_seq rows = map (\<lambda>i. int (?n + i)) [0 ..< length rows]"
      using rows(3) max_seq_seq_ok [OF ok] by simp
    also have "\<dots> = map int [?n ..< ?n + length rows]"
      by (rule nth_equalityI) auto
    finally have "map row_seq rows = map int [?n ..< ?n + length rows]" .
    moreover have "map row_seq (conv_rows c d) = map int [0 ..< ?n]" using ok by (simp add: seq_ok_def)
    moreover have "[0 ..< ?n + length rows] = [0 ..< ?n] @ [?n ..< ?n + length rows]"
      by (rule upt_add_eq_append) simp
    ultimately show ?thesis by (simp only: new map_append length_append)
  qed
  then have ok': "seq_ok d'" using ok old unfolding seq_ok_def by metis
  have "list_all2 (\<lambda>m n. jsonb_object pg m = Inr n) ms (map row_content rows)"
    using rows(1) by (simp add: list_all2_map2 stored_as_def [abs_def])
  moreover have "fetch_messages c d' = fetch_messages c d @ map row_content rows"
    using new ok ok' by (simp add: fetch_messages_seq_ok)
  moreover have "\<forall>c'. c' \<noteq> c \<longrightarrow> fetch_messages c' d' = fetch_messages c' d"
    using old ok ok' by (simp add: fetch_messages_seq_ok)
  ultimately show ?thesis using d'(2) ok' unfolding appended_def by blast
qed

lemma insert_messages_appended:
  assumes "insert_messages pg c ms md d = Inr (d', ids)" and ok: "seq_ok d"
  shows "appended pg c ms d d' \<and> length ids = length ms"
proof (cases "ms = []")
  case True
  with assms show ?thesis by (simp add: insert_messages_def appended_def)
next
  case False
  with assms(1) obtain meta seq where
    "fold_r (insert_one pg c meta) (d, max_seq c d, []) ms = Inr (d', seq, ids)"
    by (auto simp: insert_messages_def Let_def result_simps)
  then obtain rows where "db_messages d' = db_messages d @ rows" "ids = [] @ map row_id rows"
    "list_all2 (stored_as pg) ms rows" "\<forall>r \<in> set rows. row_conv r = c"
    "map row_seq rows = map (\<lambda>i. max_seq c d + 1 + int i) [0 ..< length rows]" "extends d d'"
    by (rule insert_fold_Inr)
  with ok show ?thesis by (auto intro: rows_appended dest: list_all2_lengthD)
qed

text \<open>Opening a transaction and touching the conversation row keeps every transcript.\<close>

lemma touched:
  "db_messages (ensure_conversation c (d\<lparr>db_clock := n\<rparr>)) = db_messages d"
  "conv_rows c' (ensure_conversation c (d\<lparr>db_clock := n\<rparr>)) = conv_rows c' d"
  "seq_ok (ensure_conversation c (d\<lparr>db_clock := n\<rparr>)) = seq_ok d"
  "fetch_messages c' (ensure_conversation c (d\<lparr>db_clock := n\<rparr>)) = fetch_messages c' d"
  by (simp_all add: ensure_conversation_def conv_rows_def seq_ok_def fetch_messages_def)

lemma extends_touched: "extends d (ensure_conversation c (d\<lparr>db_clock := Suc (db_clock d)\<rparr>))"
  by (auto simp: extends_def ensure_conversation_def update_conv' simp flip: dom_map_of_conv_image_fst)

lemma appended_touched:
  "appended pg c ms (ensure_conversation c (d\<lparr>db_clock := Suc (db_clock d)\<rparr>)) d' \<Longrightarrow> appended pg c ms d d'"
  by (simp add: appended_def touched) (blast intro: extends_trans [OF extends_touched])

lemma append_new_appended:
  assumes "append_new pg c ms md r d = Inr (d', ids)" "seq_ok d"
  shows "appended pg c (drop (new_from r ms) ms) d d' \<and> length ids = length (drop (new_from r ms) ms)"
proof (cases "append_from r")
  case None
  with assms show ?thesis by (simp add: append_new_def new_from_def appended_def)
next
  case (Some k)
  show ?thesis
  proof (cases "length ms \<le> k")
    case True
    with Some assms show ?thesis by (simp add: append_new_def new_from_def appended_def)
  next
    case False
    with Some assms insert_messages_appended [of pg c "drop k ms" md d d' ids] show ?thesis
      by (simp add: append_new_def new_from_def)
  qed
qed

section \<open>The contract of a history store\<close>

text \<open>
  What PostgreSQL documents of \<open>jsonb\<close>: white space and the order of keys are lost, the value is
  not.  A document reads back as an equal one, and never with a duplicate key.
\<close>

definition jsonb_faithful :: "pg \<Rightarrow> bool" where
  "jsonb_faithful pg \<longleftrightarrow> (\<forall>v w. wf_json v \<longrightarrow> jsonb pg v = Some w \<longrightarrow> wf_json w \<and> py_eq w v)"

lemma stored_equivalent:
  assumes "jsonb_faithful pg" "wf_dict m" "jsonb_object pg m = Inr n"
  shows "equivalent n m"
proof -
  from assms(3) have "jsonb pg (JObj m) = Some (JObj n)"
    by (auto simp: jsonb_object_def split: option.splits json.splits)
  with assms(1,2) have "wf_dict n" "py_eq (JObj n) (JObj m)"
    unfolding jsonb_faithful_def by blast+
  with assms(2) show ?thesis by (intro equivalent_py_eq)
qed

lemma stored_list_equivalent:
  assumes "jsonb_faithful pg" "wf_messages ms" "list_all2 (\<lambda>m n. jsonb_object pg m = Inr n) ms ns"
  shows "list_all2 equivalent ns ms"
  using assms(3,2) by (induction ms ns rule: list_all2_induct)
    (auto simp del: wf_json.simps intro: stored_equivalent [OF assms(1)])

text \<open>
  The interface the chat route calls.  A rejected request leaves the database as it was; it is
  rejected for divergence exactly on a conflict; an accepted one appends the new tail.
\<close>

locale history_store =
  fixes server :: pg
    and reconcile :: "db \<Rightarrow> string \<Rightarrow> pydict list \<Rightarrow> json \<Rightarrow> db \<times> (store_error + string list)"
  assumes rejected: "reconcile d c ms md = (d', Inl e) \<Longrightarrow> d' = d"
    and conflict:
      "(\<exists>v. snd (reconcile d c ms md) = Inl (Divergence v))
         \<longleftrightarrow> r_mode (reconcile_projection (fetch_messages c d) ms) = Conflict"
    and accepted:
      "seq_ok d \<Longrightarrow> reconcile d c ms md = (d', Inr ids)
       \<Longrightarrow> appended server c (drop (new_from (reconcile_projection (fetch_messages c d) ms) ms) ms) d d'
         \<and> length ids = length ms - new_from (reconcile_projection (fetch_messages c d) ms) ms"
begin

lemma keeps_seq: "seq_ok d \<Longrightarrow> seq_ok (fst (reconcile d c ms md))"
  by (cases "reconcile d c ms md"; cases "snd (reconcile d c ms md)")
    (auto dest: rejected accepted simp: appended_def)

lemma never_rewrites: "seq_ok d \<Longrightarrow> extends d (fst (reconcile d c ms md))"
  by (cases "reconcile d c ms md"; cases "snd (reconcile d c ms md)")
    (auto dest: rejected accepted simp: appended_def)

lemma transcript_grows:
  assumes "seq_ok d"
  shows "prefix (fetch_messages c' d) (fetch_messages c' (fst (reconcile d c ms md)))"
proof (cases "snd (reconcile d c ms md)")
  case (Inl e)
  then have "fst (reconcile d c ms md) = d" by (intro rejected) (auto simp: prod_eq_iff)
  then show ?thesis by simp
next
  case (Inr ids)
  then have "appended server c (drop (new_from (reconcile_projection (fetch_messages c d) ms) ms) ms) d
      (fst (reconcile d c ms md))"
    using accepted [OF assms] by (auto simp: prod_eq_iff)
  then show ?thesis by (cases "c' = c") (auto simp: appended_def)
qed

text \<open>Sending the same list again stores nothing.\<close>

lemma retry_appends_nothing:
  assumes ok: "seq_ok d" and first: "reconcile d c ms md = (d1, Inr ids)"
    and again: "reconcile d1 c ms md' = (d2, Inr ids')"
    and pg: "jsonb_faithful server" and wf: "wf_messages ms"
  shows "ids' = [] \<and> (\<forall>c'. fetch_messages c' d2 = fetch_messages c' d1)"
proof -
  define r where "r = reconcile_projection (fetch_messages c d) ms"
  from accepted [OF ok first] obtain new where ok1: "seq_ok d1"
    and new: "fetch_messages c d1 = fetch_messages c d @ new"
      "list_all2 (\<lambda>m n. jsonb_object server m = Inr n) (drop (new_from r ms) ms) new"
    by (auto simp: appended_def r_def)
  have "r_mode r \<noteq> Conflict" using conflict [of d c ms md] first by (auto simp: r_def)
  moreover have "list_all2 equivalent new (drop (new_from r ms) ms)"
    using new(2) wf by (intro stored_list_equivalent [OF pg]) (auto simp del: wf_json.simps dest: in_set_dropD)
  ultimately have "new_from (reconcile_projection (fetch_messages c d1) ms) ms = length ms"
    using reconcile_idempotent [of "fetch_messages c d" ms new] new(1) by (simp add: r_def)
  with accepted [OF ok1 again] have "ids' = []" "appended server c [] d1 d2" by auto
  then show ?thesis unfolding appended_def by (metis append_Nil2 list_all2_Nil)
qed

end

text \<open>Both store classes keep the contract.\<close>

lemma in_transaction_Inl: "in_transaction body d = (d', Inl e) \<Longrightarrow> d' = d"
  by (auto simp: in_transaction_def split: sum.splits)

text \<open>Inserting raises database errors and Python exceptions, never a divergence.\<close>

definition no_divergence :: "store_error + 'a \<Rightarrow> bool" where
  "no_divergence m \<longleftrightarrow> (\<forall>v. m \<noteq> Inl (Divergence v))"

lemma no_divergence_basic [intro]:
  "no_divergence (Inr x)" "no_divergence (Inl DatabaseError)" "no_divergence (Inl (StoreRaised e))"
  "no_divergence (lift_store r)" "no_divergence (text_param v)" "no_divergence (jsonb_param pg v)"
  "no_divergence (jsonb_object pg o')"
  by (auto simp: no_divergence_def lift_store_def text_param_def jsonb_param_def jsonb_object_def
      split: sum.split json.split option.split)

lemma no_divergence_bind [intro]:
  "no_divergence m \<Longrightarrow> (\<And>x. no_divergence (f x)) \<Longrightarrow> no_divergence (bind_r m f)"
  by (cases m) (auto simp: no_divergence_def)

lemma no_divergence_if [intro]:
  "no_divergence m \<Longrightarrow> no_divergence n \<Longrightarrow> no_divergence (if b then m else n)"
  by simp

lemma no_divergence_fold: "(\<And>s x. no_divergence (f s x)) \<Longrightarrow> no_divergence (fold_r f s xs)"
  by (induction xs arbitrary: s) auto

lemma insert_tool_call_no_divergence: "no_divergence (insert_tool_call pg mid d v)"
proof (cases v)
  case (JObj call)
  show ?thesis unfolding insert_tool_call_def JObj json.case Let_def prod.case_eq_if
    by (intro no_divergence_bind no_divergence_if no_divergence_basic)
qed (auto simp: insert_tool_call_def)

lemma persist_tool_parts_no_divergence: "no_divergence (persist_tool_parts pg c mid m d)"
  unfolding persist_tool_parts_def Let_def prod.case_eq_if
  by (intro no_divergence_bind no_divergence_if no_divergence_basic no_divergence_fold
      insert_tool_call_no_divergence)

lemma insert_message_row_no_divergence: "no_divergence (insert_message_row pg c seq meta m d)"
  unfolding insert_message_row_def Let_def prod.case_eq_if
  by (cases "dget m ''role''") auto

lemma insert_messages_no_divergence: "no_divergence (insert_messages pg c ms md d)"
  unfolding insert_messages_def insert_one_def Let_def prod.case_eq_if
  by (intro no_divergence_bind no_divergence_if no_divergence_basic no_divergence_fold
      insert_message_row_no_divergence persist_tool_parts_no_divergence)

lemma append_new_no_divergence: "no_divergence (append_new pg c ms md r d)"
  unfolding append_new_def by (auto intro: insert_messages_no_divergence split: option.split)

lemma history_store_in_transaction:
  assumes run: "\<And>d c ms md. run d c ms md = in_transaction (\<lambda>d0.
    let res = reconcile_projection (fetch_messages c (ensure_conversation c d0)) ms in
    if r_mode res = Conflict then Inl (Divergence (diag (ensure_conversation c d0) c ms))
    else append_new pg c ms md res (ensure_conversation c d0)) d"
  shows "history_store pg run"
proof
  fix d :: db and c ms md
  define d1 where "d1 = ensure_conversation c (d\<lparr>db_clock := Suc (db_clock d)\<rparr>)"
  define res where "res = reconcile_projection (fetch_messages c d) ms"
  have tx: "run d c ms md =
      (if r_mode res = Conflict then (d, Inl (Divergence (diag d1 c ms)))
       else case append_new pg c ms md res d1 of Inl e \<Rightarrow> (d, Inl e) | Inr (d1, x) \<Rightarrow> (d1, Inr x))"
    by (simp add: run in_transaction_def Let_def d1_def touched res_def)
  show "d' = d" if "run d c ms md = (d', Inl e)" for d' e
    using that unfolding run by (rule in_transaction_Inl)
  show "(\<exists>v. snd (run d c ms md) = Inl (Divergence v))
      \<longleftrightarrow> r_mode (reconcile_projection (fetch_messages c d) ms) = Conflict"
    using append_new_no_divergence [of pg c ms md res d1]
    unfolding tx res_def [symmetric] by (auto simp: no_divergence_def split: sum.split)
  show "appended pg c (drop (new_from (reconcile_projection (fetch_messages c d) ms) ms) ms) d d'
      \<and> length ids = length ms - new_from (reconcile_projection (fetch_messages c d) ms) ms"
    if ok: "seq_ok d" and r: "run d c ms md = (d', Inr ids)" for d' ids
  proof -
    from r have "append_new pg c ms md res d1 = Inr (d', ids)"
      unfolding tx by (auto split: if_splits sum.splits)
    moreover have "seq_ok d1" using ok by (simp add: d1_def touched)
    ultimately have new: "appended pg c (drop (new_from res ms) ms) d1 d'
        \<and> length ids = length (drop (new_from res ms) ms)"
      by (rule append_new_appended)
    then have "appended pg c (drop (new_from res ms) ms) d d'"
      unfolding d1_def by (blast intro: appended_touched)
    with new show ?thesis by (simp add: res_def)
  qed
qed

interpretation base: history_store pg "reconcile_history pg" for pg
  by (rule history_store_in_transaction [where diag = "\<lambda>d c ms.
        let persisted = fetch_messages c d; index = first_difference persisted ms in
        HistoryDivergenceError c index (nth_opt persisted index) (nth_opt ms index)"])
    (unfold reconcile_history_def Let_def, rule refl)

interpretation aware: history_store pg "projection_reconcile_history pg" for pg
  by (rule history_store_in_transaction [where diag = "\<lambda>d c ms.
        let persisted = fetch_messages c d; index = min (length persisted) (length ms) in
        HistoryDivergenceError c index (nth_opt persisted index) (nth_opt ms index)"])
    (unfold projection_reconcile_history_def Let_def, rule refl)

section \<open>Referential integrity\<close>

text \<open>
  Calls, results and media rows belong to stored messages, and a result only ever refers to a
  call with its own call id in its own conversation.
\<close>

definition has_message :: "db \<Rightarrow> string \<Rightarrow> string \<Rightarrow> bool" where
  "has_message d mid c \<longleftrightarrow> (\<exists>m \<in> set (db_messages d). row_id m = mid \<and> row_conv m = c)"

definition result_ok :: "db \<Rightarrow> result_row \<Rightarrow> bool" where
  "result_ok d r \<longleftrightarrow> (\<exists>c. has_message d (tr_message r) c \<and>
     (\<forall>t. tr_ref r = Some t \<longrightarrow>
        (\<exists>call \<in> set (db_calls d). tc_id call = t \<and> tc_call_id call = tr_call_id r
           \<and> has_message d (tc_message call) c)))"

definition refs_ok :: "db \<Rightarrow> bool" where
  "refs_ok d \<longleftrightarrow> (\<forall>call \<in> set (db_calls d). \<exists>c. has_message d (tc_message call) c)
     \<and> (\<forall>r \<in> set (db_results d). result_ok d r)
     \<and> (\<forall>md \<in> set (db_media d). has_message d (md_message md) (md_conv md))"

lemma has_message_extends: "extends d d' \<Longrightarrow> has_message d mid c \<Longrightarrow> has_message d' mid c"
  by (auto simp: extends_def has_message_def dest: set_mono_prefix)

lemma result_ok_extends:
  assumes "extends d d'" "result_ok d r"
  shows "result_ok d' r"
proof -
  have "set (db_calls d) \<subseteq> set (db_calls d')" using assms(1) by (auto simp: extends_def dest: set_mono_prefix)
  with assms(2) has_message_extends [OF assms(1)] show ?thesis unfolding result_ok_def by (meson subsetD)
qed

lemma refs_ok_extends:
  assumes "refs_ok d" "extends d d'"
    and "\<And>call. call \<in> set (db_calls d') \<Longrightarrow> call \<notin> set (db_calls d) \<Longrightarrow> \<exists>c. has_message d' (tc_message call) c"
    and "\<And>r. r \<in> set (db_results d') \<Longrightarrow> r \<notin> set (db_results d) \<Longrightarrow> result_ok d' r"
    and "\<And>md. md \<in> set (db_media d') \<Longrightarrow> md \<notin> set (db_media d) \<Longrightarrow> has_message d' (md_message md) (md_conv md)"
  shows "refs_ok d'"
  using assms(1) has_message_extends [OF assms(2)] result_ok_extends [OF assms(2)] assms(3-5)
  unfolding refs_ok_def by meson

lemma insert_tool_call_refs:
  assumes "insert_tool_call pg mid d v = Inr d'" "refs_ok d" "has_message d mid c"
  shows "refs_ok d' \<and> has_message d' mid c"
proof -
  have ext: "extends d d'" using insert_tool_call_step [OF assms(1)] by (simp add: parts_step_def)
  have msg: "has_message d' mid c" using has_message_extends [OF ext assms(3)] .
  from assms(1) have "refs_ok d'"
    by (cases rule: insert_tool_call_cases) (use assms(2) msg ext in \<open>auto intro!: refs_ok_extends [of d]\<close>)
  with msg show ?thesis by simp
qed

lemma newest_call_mem: "newest_call cs = Some c \<Longrightarrow> c \<in> set cs"
  by (induction cs arbitrary: c) (auto split: option.splits if_splits)

lemma find_tool_call_Some:
  "find_tool_call c tcid d = Some t \<Longrightarrow>
     \<exists>call \<in> set (db_calls d). tc_id call = t \<and> tc_call_id call = tcid \<and> has_message d (tc_message call) c"
proof -
  assume "find_tool_call c tcid d = Some t"
  then obtain z where z: "z \<in> set (matching_calls c tcid d)" "tc_id z = t"
    by (auto simp: find_tool_call_def dest: newest_call_mem)
  then have "z \<in> set (db_calls d) \<and> tc_call_id z = tcid \<and> has_message d (tc_message z) c"
    by (auto simp: matching_calls_def conv_rows_def has_message_def list_ex_iff)
  with z(2) show ?thesis by blast
qed

lemma persist_tool_parts_refs:
  assumes "persist_tool_parts pg c mid m d = Inr d'" "refs_ok d" "has_message d mid c"
  shows "refs_ok d'"
  using assms(1)
proof (cases rule: persist_tool_parts_cases)
  case (1 calls d1)
  have d1: "refs_ok d1 \<and> has_message d1 mid c"
    using 1(1) by (rule fold_r_invariant) (use assms(2,3) insert_tool_call_refs in blast)+
  have "result_ok d' row" if row: "d' = d1\<lparr>db_draws := n, db_results := rs\<rparr>" "tr_message row = mid"
    "tr_ref row = find_tool_call c (tr_call_id row) d1" for row n rs
    using d1 row find_tool_call_Some [of c "tr_call_id row" d1]
    by (auto simp: result_ok_def has_message_def)
  moreover have "extends d1 d'" using 1(2) by (auto simp: extends_def)
  ultimately show ?thesis
    using 1(2) d1 by (auto intro!: refs_ok_extends [of d1])
qed

lemma insert_media_refs:
  assumes "refs_ok d" "has_message d mid c"
  shows "refs_ok (insert_media c mid d ip) \<and> has_message (insert_media c mid d ip) mid c"
proof -
  have ext: "extends d (insert_media c mid d ip)" using insert_media_step by (auto simp: parts_step_def)
  have msg: "has_message (insert_media c mid d ip) mid c" using has_message_extends [OF ext assms(2)] .
  have "db_calls (insert_media c mid d ip) = db_calls d" "db_results (insert_media c mid d ip) = db_results d"
    "md \<in> set (db_media (insert_media c mid d ip)) \<Longrightarrow> md \<notin> set (db_media d) \<Longrightarrow> md_message md = mid \<and> md_conv md = c" for md
    by (auto simp: insert_media_def Let_def split: json.splits if_splits)
  with assms(1) ext msg show ?thesis by (auto intro!: refs_ok_extends [of d])
qed

lemma persist_media_parts_refs:
  assumes "refs_ok d" "has_message d mid c"
  shows "refs_ok (persist_media_parts c mid m d)"
proof -
  have "refs_ok (foldl (insert_media c mid) d ips)" for ips
    using assms by (induction ips arbitrary: d) (auto simp: insert_media_refs)
  then show ?thesis using assms by (auto simp: persist_media_parts_def split: json.split)
qed

lemma insert_one_refs:
  assumes "insert_one pg c meta (d, seq, ids) m = Inr (d', seq', ids')" "refs_ok d"
  shows "refs_ok d'"
proof -
  from assms(1) obtain mid d1 d2 where
    r: "insert_message_row pg c (seq + 1) meta m d = Inr (mid, d1)"
    and t: "persist_tool_parts pg c mid m d1 = Inr d2" and d': "d' = persist_media_parts c mid m d2"
    by (auto simp: insert_one_def Let_def result_simps)
  from r have d1: "has_message d1 mid c" "extends d d1" "db_calls d1 = db_calls d"
    "db_results d1 = db_results d" "db_media d1 = db_media d"
    by (auto simp: insert_message_row_def result_simps draw_uuid_def Let_def has_message_def extends_def
        split: json.splits if_splits)
  then have "refs_ok d1" using assms(2) by (auto intro!: refs_ok_extends [of d])
  from persist_tool_parts_refs [OF t this d1(1)] have "refs_ok d2" .
  moreover have "has_message d2 mid c"
    using persist_tool_parts_step [OF t] d1(1) by (auto simp: parts_step_def intro: has_message_extends)
  ultimately show ?thesis unfolding d' by (rule persist_media_parts_refs)
qed

lemma insert_messages_refs:
  assumes "insert_messages pg c ms md d = Inr (d', ids)" "refs_ok d"
  shows "refs_ok d'"
proof (cases "ms = []")
  case True
  with assms show ?thesis by (simp add: insert_messages_def)
next
  case False
  with assms(1) obtain meta seq where
    f: "fold_r (insert_one pg c meta) (d, max_seq c d, []) ms = Inr (d', seq, ids)"
    by (auto simp: insert_messages_def Let_def result_simps)
  have "refs_ok (fst (d', seq, ids))"
    using f by (rule fold_r_invariant [where P = "\<lambda>s. refs_ok (fst s)"])
      (use assms(2) insert_one_refs in \<open>auto simp: split_paired_all\<close>)
  then show ?thesis by simp
qed

section \<open>Runs\<close>

text \<open>
  The writes the proxy issues against one database, in the order in which their transactions
  commit.  Concurrent writers of one conversation wait for its row lock, so any interleaving of
  requests, across conversations and processes, is such a sequence.
\<close>

datatype store_op =
    Reconcile string "pydict list" json
  | Append_reply string "pydict list" json
  | Touch string

definition store_step :: "pg \<Rightarrow> db \<Rightarrow> store_op \<Rightarrow> db" where
  "store_step pg d op =
     (case op of
        Reconcile c ms md \<Rightarrow> fst (projection_reconcile_history pg d c ms md)
      | Append_reply c ms md \<Rightarrow> fst (append_messages pg d c ms md)
      | Touch c \<Rightarrow> ensure_conversation c (d\<lparr>db_clock := Suc (db_clock d)\<rparr>))"

definition store_run :: "pg \<Rightarrow> db \<Rightarrow> store_op list \<Rightarrow> db" where
  "store_run pg d ops = foldl (store_step pg) d ops"

definition db_inv :: "db \<Rightarrow> bool" where
  "db_inv d \<longleftrightarrow> seq_ok d \<and> refs_ok d"

lemma append_messages_appended:
  assumes "append_messages pg d c ms md = (d', Inr ids)" "seq_ok d"
  shows "appended pg c ms d d' \<and> length ids = length ms"
proof (cases "ms = []")
  case True
  with assms show ?thesis by (simp add: append_messages_def appended_def)
next
  case False
  let ?d1 = "ensure_conversation c (d\<lparr>db_clock := Suc (db_clock d)\<rparr>)"
  from False assms(1) have "insert_messages pg c ms md ?d1 = Inr (d', ids)"
    by (auto simp: append_messages_def in_transaction_def split: sum.splits)
  from insert_messages_appended [OF this] assms(2) show ?thesis
    by (auto simp: touched intro: appended_touched)
qed

lemma append_messages_Inl: "append_messages pg d c ms md = (d', Inl e) \<Longrightarrow> d' = d"
  by (auto simp: append_messages_def dest: in_transaction_Inl split: if_splits)

lemma refs_ok_touched: "refs_ok d \<Longrightarrow> refs_ok (ensure_conversation c (d\<lparr>db_clock := n\<rparr>))"
  by (simp add: refs_ok_def result_ok_def has_message_def ensure_conversation_def)

lemma in_transaction_refs:
  assumes "refs_ok d" "\<And>d0 d' x. refs_ok d0 \<Longrightarrow> body d0 = Inr (d', x) \<Longrightarrow> refs_ok d'"
  shows "refs_ok (fst (in_transaction body d))"
proof -
  have "refs_ok (d\<lparr>db_clock := Suc (db_clock d)\<rparr>)"
    using assms(1) by (simp add: refs_ok_def result_ok_def has_message_def)
  with assms show ?thesis by (auto simp: in_transaction_def split: sum.split)
qed

lemma ensure_conversation_refs: "refs_ok d \<Longrightarrow> refs_ok (ensure_conversation c d)"
  by (simp add: refs_ok_def result_ok_def has_message_def ensure_conversation_def)

lemma append_new_refs:
  "append_new pg c ms md r d = Inr (d', ids) \<Longrightarrow> refs_ok d \<Longrightarrow> refs_ok d'"
  by (auto simp: append_new_def intro: insert_messages_refs split: option.splits if_splits)

lemma store_step_refs: "refs_ok d \<Longrightarrow> refs_ok (store_step pg d op)"
  by (cases op)
    (auto simp: store_step_def projection_reconcile_history_def append_messages_def Let_def
      intro!: in_transaction_refs ensure_conversation_refs refs_ok_touched
      intro: append_new_refs [OF _ ensure_conversation_refs] insert_messages_refs [OF _ ensure_conversation_refs]
      split: if_splits)

lemma store_step_appended:
  assumes "seq_ok d"
  shows "\<exists>c ms. appended pg c ms d (store_step pg d op)"
proof -
  have same: "appended pg c [] d d" for c using assms by (simp add: appended_def)
  show ?thesis
  proof (cases op)
    case (Reconcile c ms md)
    show ?thesis
    proof (cases "projection_reconcile_history pg d c ms md")
      case (Pair d' r)
      with Reconcile same aware.rejected aware.accepted [OF assms] show ?thesis
        by (cases r) (auto simp: store_step_def, blast+)
    qed
  next
    case (Append_reply c ms md)
    show ?thesis
    proof (cases "append_messages pg d c ms md")
      case (Pair d' r)
      with Append_reply same append_messages_Inl append_messages_appended [OF _ assms] show ?thesis
        by (cases r) (auto simp: store_step_def, blast+)
    qed
  next
    case (Touch c)
    with appended_touched [of pg c "[]" d] assms show ?thesis
      by (auto simp: store_step_def appended_def touched extends_touched)
  qed
qed

lemma store_run_inv: "db_inv d \<Longrightarrow> db_inv (store_run pg d ops) \<and> extends d (store_run pg d ops)
    \<and> prefix (fetch_messages c d) (fetch_messages c (store_run pg d ops))"
proof (induction ops arbitrary: d)
  case (Cons op ops)
  from store_step_appended [of d pg op] Cons.prems obtain c' ms where
    app: "appended pg c' ms d (store_step pg d op)" by (auto simp: db_inv_def)
  then have step: "seq_ok (store_step pg d op)" "extends d (store_step pg d op)"
      "prefix (fetch_messages c d) (fetch_messages c (store_step pg d op))"
    by (cases "c = c'"; auto simp: appended_def)+
  then have "db_inv (store_step pg d op)" using Cons.prems store_step_refs by (simp add: db_inv_def)
  from Cons.IH [OF this] step show ?case
    by (auto simp: store_run_def intro: extends_trans prefix_order.trans)
qed (simp add: store_run_def)

lemma empty_db_inv: "db_inv empty_db"
  by (simp add: db_inv_def seq_ok_def refs_ok_def empty_db_def conv_rows_def)

section \<open>Properties\<close>

text \<open>A server for the witnesses: it stores documents unchanged and numbers the UUIDs.\<close>

definition demo_pg :: pg where
  "demo_pg = \<lparr>gen_uuid = nat_digits, jsonb = Some\<rparr>"

lemma demo_pg_faithful: "jsonb_faithful demo_pg"
  by (simp add: jsonb_faithful_def demo_pg_def py_eq_refl)

definition demo_chat :: "pydict list" where
  "demo_chat = [said ''user'' ''hello'', said ''assistant'' ''hi'']"

definition demo_db :: db where
  "demo_db = fst (projection_reconcile_history demo_pg empty_db ''c'' demo_chat JNull)"

lemma demo_db_inv: "db_inv demo_db"
  using store_run_inv [OF empty_db_inv, of demo_pg "[Reconcile ''c'' demo_chat JNull]"]
  by (simp add: store_run_def store_step_def demo_db_def)

lemma demo_first: "projection_reconcile_history demo_pg empty_db ''c'' demo_chat JNull = (demo_db, Inr [''0'', ''1''])"
proof -
  have "snd (projection_reconcile_history demo_pg empty_db ''c'' demo_chat JNull) = Inr [''0'', ''1'']" by code_simp
  then show ?thesis by (simp add: demo_db_def prod_eq_iff)
qed

text \<open>
  C5. Stored history is append-only: whatever writes follow, in whatever interleaving over the
  conversations, every transcript that could be read before is a prefix of the one read later,
  no message, call, result or media row is changed or removed, and no conversation is removed.  (Of a
  conversation's own row only the time of its last update changes.)
\<close>

theorem store_append_only:
  "prefix (get_messages (store_run pg empty_db ops) c) (get_messages (store_run pg empty_db (ops @ later)) c)
   \<and> extends (store_run pg empty_db ops) (store_run pg empty_db (ops @ later))"
proof -
  have "db_inv (store_run pg empty_db ops)" using store_run_inv [OF empty_db_inv] by blast
  from store_run_inv [OF this, of pg later c] show ?thesis by (simp add: get_messages_def store_run_def)
qed

text \<open>
  C24. Every reachable database is well formed: the sequence numbers of each conversation are
  0, 1, 2, ... without gap or repetition, every call, result and media row belongs to a stored
  message, and a tool result refers to a call of its own conversation with its own call id.
\<close>

theorem store_run_well_formed:
  "map row_seq (conv_rows c (store_run pg empty_db ops))
     = map int [0 ..< length (conv_rows c (store_run pg empty_db ops))]
   \<and> refs_ok (store_run pg empty_db ops)"
  using store_run_inv [OF empty_db_inv, of pg ops c] by (simp add: db_inv_def seq_ok_def)

text \<open>
  C6. An accepted request appends exactly the new tail of its message list, as the database
  reads it back, to its own transcript, returns one id per appended message, and leaves every
  other conversation alone.
\<close>

theorem reconcile_history_appends_tail:
  assumes "db_inv d" "projection_reconcile_history pg d c ms md = (d', Inr ids)"
  shows "(\<exists>new. get_messages d' c = get_messages d c @ new \<and> length ids = length new
      \<and> list_all2 (\<lambda>m n. jsonb_object pg m = Inr n)
          (drop (new_from (reconcile_projection (get_messages d c) ms) ms) ms) new)
    \<and> (\<forall>c'. c' \<noteq> c \<longrightarrow> get_messages d' c' = get_messages d c')"
proof -
  have "seq_ok d" using assms(1) by (simp add: db_inv_def)
  from aware.accepted [OF this assms(2)] show ?thesis
    unfolding appended_def get_messages_def using list_all2_lengthD by fastforce
qed

theorem reconcile_history_appends_tail_witness:
  "\<exists>new. get_messages demo_db ''c'' = get_messages empty_db ''c'' @ new"
  using reconcile_history_appends_tail [OF empty_db_inv demo_first] by blast

text \<open>
  A rejected request changes nothing, whatever it is rejected for; and a request is rejected
  as divergent exactly when reconciliation finds a conflict.
\<close>

lemma reconcile_history_rejects:
  assumes "snd (projection_reconcile_history pg d c ms md) = Inl e"
  shows "fst (projection_reconcile_history pg d c ms md) = d
    \<and> ((\<exists>v. e = Divergence v) \<longleftrightarrow> r_mode (reconcile_projection (get_messages d c) ms) = Conflict)"
  using assms aware.rejected [of pg d c ms md "fst (projection_reconcile_history pg d c ms md)" e]
    aware.conflict [of pg d c ms md] by (simp add: get_messages_def prod_eq_iff)

lemma reconcile_history_rejects_witness:
  "fst (projection_reconcile_history demo_pg demo_db ''c'' [said ''user'' ''bye''] JNull) = demo_db"
proof -
  have "\<exists>e. snd (projection_reconcile_history demo_pg demo_db ''c'' [said ''user'' ''bye''] JNull) = Inl e"
  proof -
    have "(case snd (projection_reconcile_history demo_pg demo_db ''c'' [said ''user'' ''bye''] JNull) of
       Inl e \<Rightarrow> True | Inr x \<Rightarrow> False)" by code_simp
    then show ?thesis by (auto split: sum.splits)
  qed
  with reconcile_history_rejects show ?thesis by blast
qed

text \<open>
  Retries are idempotent: when the same well-formed message list is accepted twice in a row,
  the second time appends nothing and leaves every transcript as it is.  This rests on
  \<open>jsonb_faithful\<close>: a stored document reads back equal.
\<close>

lemma reconcile_history_retry:
  assumes "db_inv d" "projection_reconcile_history pg d c ms md = (d1, Inr ids)"
    and "projection_reconcile_history pg d1 c ms md' = (d2, Inr ids')"
    and "jsonb_faithful pg" "wf_messages ms"
  shows "ids' = [] \<and> get_messages d2 c' = get_messages d1 c'"
proof -
  have "seq_ok d" using assms(1) by (simp add: db_inv_def)
  from aware.retry_appends_nothing [OF this assms(2-5)] show ?thesis by (simp add: get_messages_def)
qed

lemma reconcile_history_retry_witness:
  "get_messages (fst (projection_reconcile_history demo_pg demo_db ''c'' demo_chat JNull)) ''c''
     = get_messages demo_db ''c''"
proof -
  have "snd (projection_reconcile_history demo_pg demo_db ''c'' demo_chat JNull) = Inr []" by code_simp
  then have again: "projection_reconcile_history demo_pg demo_db ''c'' demo_chat JNull
      = (fst (projection_reconcile_history demo_pg demo_db ''c'' demo_chat JNull), Inr [])"
    by (simp add: prod_eq_iff)
  have wf: "wf_messages demo_chat" by (simp add: demo_chat_def said_def)
  from reconcile_history_retry [OF empty_db_inv demo_first again demo_pg_faithful wf, of "''c''"]
  show ?thesis by simp
qed

text \<open>
  C25. The store the proxy installs behaves like its base class in everything but the diagnostics:
  the same database, the same ids, and an error in the same cases.  Its divergences, however,
  never carry the fingerprints and field names that the error was made for, because it takes the
  index one past the end of the shorter list.
\<close>

theorem projection_store_refines_base:
  "fst (projection_reconcile_history pg d c ms md) = fst (reconcile_history pg d c ms md)
   \<and> (\<forall>ids. snd (projection_reconcile_history pg d c ms md) = Inr ids
        \<longleftrightarrow> snd (reconcile_history pg d c ms md) = Inr ids)
   \<and> (\<forall>v. snd (projection_reconcile_history pg d c ms md) = Inl (Divergence v)
        \<longrightarrow> dv_persisted_hash v = None \<and> dv_incoming_hash v = None \<and> dv_fields v = [])"
proof -
  have none: "append_new pg c ms md r d1 \<noteq> Inl (Divergence v)" for r d1 v
    using append_new_no_divergence [of pg c ms md r d1] by (simp add: no_divergence_def)
  have blank: "dv_persisted_hash (HistoryDivergenceError c i p q) = None
      \<and> dv_incoming_hash (HistoryDivergenceError c i p q) = None
      \<and> dv_fields (HistoryDivergenceError c i p q) = []" if "p = None \<or> q = None" for i p q
    using that by (auto simp: HistoryDivergenceError_def split: option.split)
  have "nth_opt xs (min (length xs) (length ys)) = None \<or> nth_opt ys (min (length xs) (length ys)) = None"
    for xs ys :: "pydict list" by (auto simp: nth_opt_def)
  note blank = blank [OF this]
  show ?thesis
    unfolding projection_reconcile_history_def reconcile_history_def in_transaction_def Let_def
    by (auto simp: none blank split: sum.splits)
qed

theorem projection_store_refines_base_witness:
  "snd (projection_reconcile_history demo_pg demo_db ''c'' demo_chat JNull)
     = snd (reconcile_history demo_pg demo_db ''c'' demo_chat JNull)"
proof -
  have "snd (projection_reconcile_history demo_pg demo_db ''c'' demo_chat JNull) = Inr []" by code_simp
  with projection_store_refines_base [of demo_pg demo_db "''c''" demo_chat JNull] show ?thesis by metis
qed

end
