(* ===== verification/RateLimit.thy ===== *)
theory RateLimit
  imports PyJson
begin

text \<open>
  The token-bucket rate limiter, \<open>observability/ratelimit.py\<close>.  Its two dictionaries are
  association lists in insertion order, which \<open>min\<close> over the dictionary depends on; the clock
  reading is an argument of the operations; a \<open>del\<close> of a missing key raises.  Seconds and
  tokens are rational numbers: the arithmetic is exact where the source rounds to floats.
  The lock makes every operation one step.

  The lemmas show that the limiter never raises, that its table and its keys are bounded, that
  the advertised delay is long enough, and that a client's quota holds across conversations as
  long as the table has room for the identities in use.
\<close>

section \<open>Model\<close>

definition CLIENT_PREFIX :: string where "CLIENT_PREFIX = [CHR ''c'', CHR 0x00]"
definition CONVERSATION_PREFIX :: string where "CONVERSATION_PREFIX = [CHR ''v'', CHR 0x00]"

datatype scope = SCOPE_CLIENT | SCOPE_CONVERSATION

record admission_decision =
  ad_allowed :: bool
  ad_scope :: "scope option"
  ad_retry_after :: int

record rl_config =
  rl_rate :: rat
  rl_burst :: rat
  rl_max_identities :: nat
  rl_ttl :: rat
  rl_max_key_chars :: nat
  rl_sweep_interval :: rat

record limiter =
  rl_tokens :: "(string \<times> rat) list"
  rl_updated :: "(string \<times> rat) list"
  rl_last_sweep :: rat

definition RateLimiter_init ::
  "int \<Rightarrow> int \<Rightarrow> int \<Rightarrow> rat \<Rightarrow> int \<Rightarrow> rat \<Rightarrow> (rl_config \<times> limiter) result"
where
  "RateLimiter_init requests_per_minute burst max_identities identity_ttl_seconds max_identity_chars now =
     (if requests_per_minute \<le> 0 \<or> burst \<le> 0
      then Inl (ValueError ''requests_per_minute and burst must be positive'')
      else if max_identities < 1 then Inl (ValueError ''max_identities must be >= 1'')
      else if identity_ttl_seconds \<le> 0 then Inl (ValueError ''identity_ttl_seconds must be positive'')
      else if max_identity_chars < 1 then Inl (ValueError ''max_identity_chars must be >= 1'')
      else Inr
        (\<lparr>rl_rate = of_int requests_per_minute / 60, rl_burst = of_int burst,
          rl_max_identities = nat max_identities, rl_ttl = identity_ttl_seconds,
          rl_max_key_chars = nat max_identity_chars, rl_sweep_interval = identity_ttl_seconds / 2\<rparr>,
         \<lparr>rl_tokens = [], rl_updated = [], rl_last_sweep = now\<rparr>))"

definition normalize :: "rl_config \<Rightarrow> string \<Rightarrow> string" where
  "normalize cfg key = take (rl_max_key_chars cfg) key"

text \<open>\<open>del d[k]\<close>\<close>

definition py_del :: "string \<Rightarrow> (string \<times> 'v) list \<Rightarrow> (string \<times> 'v) list result" where
  "py_del k d = (if k \<in> set (map fst d) then Inr (AList.delete k d) else Inl KeyError)"

definition drop_bucket :: "limiter \<Rightarrow> string \<Rightarrow> limiter result" where
  "drop_bucket s k =
     bind_r (py_del k (rl_tokens s)) (\<lambda>tokens.
     bind_r (py_del k (rl_updated s)) (\<lambda>updated.
     Inr (s\<lparr>rl_tokens := tokens, rl_updated := updated\<rparr>)))"

definition expire_stale :: "rl_config \<Rightarrow> rat \<Rightarrow> limiter \<Rightarrow> limiter result" where
  "expire_stale cfg now s =
     fold_r drop_bucket s (map fst (filter (\<lambda>kl. now - snd kl > rl_ttl cfg) (rl_updated s)))"

text \<open>\<open>min(updated, key=updated.get)\<close>: the first key with the least time.\<close>

fun coldest :: "(string \<times> rat) list \<Rightarrow> (string \<times> rat) option" where
  "coldest [] = None"
| "coldest (kv # d) =
     (case coldest d of
        None \<Rightarrow> Some kv
      | Some best \<Rightarrow> if snd kv \<le> snd best then Some kv else Some best)"

lemma delete_shrinks: "k \<in> fst ` set d \<Longrightarrow> length (AList.delete k d) < length d"
  by (auto simp: AList.delete_eq intro: length_filter_less)

lemma drop_bucket_shrinks:
  "drop_bucket s k = Inr s' \<Longrightarrow> length (rl_tokens s') < length (rl_tokens s)"
  by (auto simp: drop_bucket_def py_del_def result_simps simp del: set_map split: if_splits)
    (simp add: delete_shrinks)

function make_room :: "rl_config \<Rightarrow> limiter \<Rightarrow> limiter result" where
  "make_room cfg s =
     (if length (rl_tokens s) \<ge> rl_max_identities cfg then
        (case coldest (rl_updated s) of
           None \<Rightarrow> Inl (ValueError ''min() iterable argument is empty'')
         | Some (k, _) \<Rightarrow> bind_r (drop_bucket s k) (make_room cfg))
      else Inr s)"
  by pat_completeness auto
termination
  by (relation "measure (\<lambda>(cfg, s). length (rl_tokens s))") (auto dest: drop_bucket_shrinks)

declare make_room.simps [simp del]

definition consume :: "rl_config \<Rightarrow> string \<Rightarrow> rat \<Rightarrow> limiter \<Rightarrow> (bool \<times> limiter) result" where
  "consume cfg namespaced_key now s =
     bind_r (if now - rl_last_sweep s \<ge> rl_sweep_interval cfg
             then bind_r (expire_stale cfg now s) (\<lambda>s1. Inr (s1\<lparr>rl_last_sweep := now\<rparr>))
             else Inr s) (\<lambda>s1.
     bind_r (if map_of (rl_updated s1) namespaced_key = None then make_room cfg s1 else Inr s1) (\<lambda>s2.
     let last = map_of (rl_updated s2) namespaced_key;
         tokens0 = (case map_of (rl_tokens s2) namespaced_key of None \<Rightarrow> rl_burst cfg | Some t \<Rightarrow> t);
         tokens = (case last of
                     None \<Rightarrow> tokens0
                   | Some l \<Rightarrow> min (rl_burst cfg) (tokens0 + (now - l) * rl_rate cfg));
         updated = AList.update namespaced_key now (rl_updated s2) in
     if tokens \<ge> 1
     then Inr (True, s2\<lparr>rl_tokens := AList.update namespaced_key (tokens - 1) (rl_tokens s2),
                        rl_updated := updated\<rparr>)
     else Inr (False, s2\<lparr>rl_tokens := AList.update namespaced_key tokens (rl_tokens s2),
                         rl_updated := updated\<rparr>)))"

definition seconds_until_token :: "rl_config \<Rightarrow> string \<Rightarrow> limiter \<Rightarrow> int" where
  "seconds_until_token cfg namespaced_key s =
     (let tokens = (case map_of (rl_tokens s) namespaced_key of None \<Rightarrow> rl_burst cfg | Some t \<Rightarrow> t);
          deficit = 1 - tokens in
      if deficit \<le> 0 then 1 else max 1 (\<lfloor>deficit / rl_rate cfg\<rfloor> + 1))"

definition client_ns :: "rl_config \<Rightarrow> string \<Rightarrow> string" where
  "client_ns cfg client_key = CLIENT_PREFIX @ normalize cfg client_key"

text \<open>An absent or empty conversation key has no bucket.\<close>

definition conversation_ns :: "rl_config \<Rightarrow> string option \<Rightarrow> string option" where
  "conversation_ns cfg conversation_key =
     (case conversation_key of
        None \<Rightarrow> None
      | Some key \<Rightarrow> if key = [] then None else Some (CONVERSATION_PREFIX @ normalize cfg key))"

definition admit ::
  "rl_config \<Rightarrow> string \<Rightarrow> string option \<Rightarrow> rat \<Rightarrow> limiter \<Rightarrow> (admission_decision \<times> limiter) result"
where
  "admit cfg client_key conversation_key now s =
     (let c = client_ns cfg client_key in
      bind_r (consume cfg c now s) (\<lambda>(ok, s1).
      if \<not> ok then
        Inr (\<lparr>ad_allowed = False, ad_scope = Some SCOPE_CLIENT,
              ad_retry_after = seconds_until_token cfg c s1\<rparr>, s1)
      else
      (case conversation_ns cfg conversation_key of
         None \<Rightarrow> Inr (\<lparr>ad_allowed = True, ad_scope = None, ad_retry_after = 1\<rparr>, s1)
       | Some v \<Rightarrow>
           bind_r (consume cfg v now s1) (\<lambda>(ok2, s2).
           if \<not> ok2 then
             Inr (\<lparr>ad_allowed = False, ad_scope = Some SCOPE_CONVERSATION,
                   ad_retry_after = seconds_until_token cfg v s2\<rparr>, s2)
           else Inr (\<lparr>ad_allowed = True, ad_scope = None, ad_retry_after = 1\<rparr>, s2)))))"

definition allow :: "rl_config \<Rightarrow> string \<Rightarrow> rat \<Rightarrow> limiter \<Rightarrow> (bool \<times> limiter) result" where
  "allow cfg key now s = bind_r (admit cfg key None now s) (\<lambda>(d, s1). Inr (ad_allowed d, s1))"

definition retry_after :: "rl_config \<Rightarrow> string \<Rightarrow> limiter \<Rightarrow> int" where
  "retry_after cfg key s = seconds_until_token cfg (client_ns cfg key) s"

definition identity_count :: "limiter \<Rightarrow> nat" where
  "identity_count s = length (rl_tokens s)"

definition reset :: "limiter \<Rightarrow> limiter" where
  "reset s = s\<lparr>rl_tokens := [], rl_updated := []\<rparr>"

section \<open>Buckets\<close>

text \<open>The contract of the configuration, which the constructor checks.\<close>

definition cfg_ok :: "rl_config \<Rightarrow> bool" where
  "cfg_ok cfg \<longleftrightarrow> 0 < rl_rate cfg \<and> 1 \<le> rl_burst cfg \<and> 1 \<le> rl_max_identities cfg \<and> 0 < rl_ttl cfg
     \<and> 1 \<le> rl_max_key_chars cfg \<and> rl_sweep_interval cfg = rl_ttl cfg / 2"

definition bounded_key :: "rl_config \<Rightarrow> string \<Rightarrow> bool" where
  "bounded_key cfg k \<longleftrightarrow> length k \<le> rl_max_key_chars cfg + 2"

definition rl_inv :: "rl_config \<Rightarrow> rat \<Rightarrow> limiter \<Rightarrow> bool" where
  "rl_inv cfg now s \<longleftrightarrow> distinct (map fst (rl_tokens s)) \<and> distinct (map fst (rl_updated s))
     \<and> fst ` set (rl_tokens s) = fst ` set (rl_updated s)
     \<and> length (rl_tokens s) \<le> rl_max_identities cfg
     \<and> (\<forall>t \<in> snd ` set (rl_tokens s). 0 \<le> t \<and> t \<le> rl_burst cfg)
     \<and> (\<forall>u \<in> snd ` set (rl_updated s). u \<le> now)
     \<and> (\<forall>k \<in> fst ` set (rl_tokens s). bounded_key cfg k)
     \<and> rl_last_sweep s \<le> now"

lemma rl_invD:
  assumes "rl_inv cfg now s"
  shows "distinct (map fst (rl_tokens s))" "distinct (map fst (rl_updated s))"
    "fst ` set (rl_tokens s) = fst ` set (rl_updated s)" "length (rl_tokens s) \<le> rl_max_identities cfg"
    "\<forall>t \<in> snd ` set (rl_tokens s). 0 \<le> t \<and> t \<le> rl_burst cfg" "\<forall>u \<in> snd ` set (rl_updated s). u \<le> now"
    "\<forall>k \<in> fst ` set (rl_tokens s). bounded_key cfg k" "rl_last_sweep s \<le> now"
  using assms unfolding rl_inv_def by iprover+

text \<open>Restricting the table to some keys, which is all that expiry and eviction do.\<close>

definition restrict_keys :: "(string \<Rightarrow> bool) \<Rightarrow> limiter \<Rightarrow> limiter" where
  "restrict_keys P s = s\<lparr>rl_tokens := filter (P \<circ> fst) (rl_tokens s), rl_updated := filter (P \<circ> fst) (rl_updated s)\<rparr>"

lemma restrict_keys_sel:
  "rl_tokens (restrict_keys P s) = filter (P \<circ> fst) (rl_tokens s)"
  "rl_updated (restrict_keys P s) = filter (P \<circ> fst) (rl_updated s)"
  "rl_last_sweep (restrict_keys P s) = rl_last_sweep s"
  by (simp_all add: restrict_keys_def)

lemma restrict_keys_restrict: "restrict_keys P (restrict_keys Q s) = restrict_keys (\<lambda>k. Q k \<and> P k) s"
  by (simp add: restrict_keys_def comp_def)

lemma restrict_keys_True [simp]: "restrict_keys (\<lambda>k. True) s = s"
  by (simp add: restrict_keys_def comp_def)

lemma restrict_keys_inv:
  assumes "rl_inv cfg now s"
  shows "rl_inv cfg now (restrict_keys P s)"
proof -
  have keys: "fst ` set (filter (P \<circ> fst) d) = {k \<in> fst ` set d. P k}" for d :: "(string \<times> rat) list" by auto
  have "length (filter (P \<circ> fst) (rl_tokens s)) \<le> rl_max_identities cfg"
    using assms by (intro le_trans [OF length_filter_le]) (simp add: rl_inv_def)
  moreover have "fst ` set (filter (P \<circ> fst) (rl_tokens s)) = fst ` set (filter (P \<circ> fst) (rl_updated s))"
    using assms unfolding keys by (simp add: rl_inv_def)
  moreover have "\<forall>k \<in> fst ` set (filter (P \<circ> fst) (rl_tokens s)). bounded_key cfg k"
    using assms by (auto simp: rl_inv_def)
  moreover have "\<forall>t \<in> snd ` set (filter (P \<circ> fst) (rl_tokens s)). 0 \<le> t \<and> t \<le> rl_burst cfg"
    "\<forall>u \<in> snd ` set (filter (P \<circ> fst) (rl_updated s)). u \<le> now"
    using assms by (auto simp: rl_inv_def)
  ultimately show ?thesis using assms unfolding rl_inv_def restrict_keys_sel
    by (intro conjI distinct_map_filter) (elim conjE, assumption)+
qed

lemma drop_bucket_restrict:
  assumes "k \<in> fst ` set (rl_tokens s)" "fst ` set (rl_tokens s) = fst ` set (rl_updated s)"
  shows "drop_bucket s k = Inr (restrict_keys (\<lambda>k'. k' \<noteq> k) s)"
proof -
  have "AList.delete k d = filter ((\<lambda>k'. k' \<noteq> k) \<circ> fst) d" for d :: "(string \<times> rat) list"
    by (auto simp: AList.delete_eq intro: filter_cong)
  then show ?thesis using assms by (simp add: drop_bucket_def py_del_def restrict_keys_def)
qed

lemma restrict_keys_keys:
  "fst ` set (rl_tokens (restrict_keys P s)) = {k \<in> fst ` set (rl_tokens s). P k}"
  "fst ` set (rl_updated (restrict_keys P s)) = {k \<in> fst ` set (rl_updated s). P k}"
  by (auto simp: restrict_keys_def)

lemma map_of_filter_keys: "map_of (filter (P \<circ> fst) d) k = (if P k then map_of d k else None)"
  by (induction d) auto

lemma drop_buckets_restrict:
  assumes "distinct ks" "set ks \<subseteq> fst ` set (rl_tokens s)" "fst ` set (rl_tokens s) = fst ` set (rl_updated s)"
  shows "fold_r drop_bucket s ks = Inr (restrict_keys (\<lambda>k. k \<notin> set ks) s)"
  using assms
proof (induction ks arbitrary: s)
  case (Cons k ks)
  let ?s1 = "restrict_keys (\<lambda>k'. k' \<noteq> k) s"
  have "fst ` set (rl_tokens ?s1) = fst ` set (rl_updated ?s1)" "set ks \<subseteq> fst ` set (rl_tokens ?s1)"
    using Cons.prems by (auto simp: restrict_keys_keys)
  with Cons.IH [of ?s1] Cons.prems have "fold_r drop_bucket ?s1 ks = Inr (restrict_keys (\<lambda>k. k \<notin> set ks) ?s1)"
    by simp
  moreover have "drop_bucket s k = Inr ?s1" using Cons.prems by (intro drop_bucket_restrict) auto
  ultimately show ?case by (simp add: restrict_keys_restrict conj_commute)
qed simp

definition stale :: "rl_config \<Rightarrow> rat \<Rightarrow> limiter \<Rightarrow> string \<Rightarrow> bool" where
  "stale cfg now s k \<longleftrightarrow> (\<exists>u. map_of (rl_updated s) k = Some u \<and> now - u > rl_ttl cfg)"

lemma expire_stale_restrict:
  assumes "rl_inv cfg t s"
  shows "expire_stale cfg now s = Inr (restrict_keys (\<lambda>k. \<not> stale cfg now s k) s)"
proof -
  let ?ks = "map fst (filter (\<lambda>kl. now - snd kl > rl_ttl cfg) (rl_updated s))"
  have d: "distinct (map fst (rl_updated s))" and keys: "fst ` set (rl_tokens s) = fst ` set (rl_updated s)"
    using assms by (simp_all add: rl_inv_def)
  have "k \<in> set ?ks \<longleftrightarrow> stale cfg now s k" for k
    using d by (force simp: stale_def)
  moreover have "fold_r drop_bucket s ?ks = Inr (restrict_keys (\<lambda>k. k \<notin> set ?ks) s)"
    using d keys by (intro drop_buckets_restrict) (auto simp: distinct_map_filter)
  ultimately show ?thesis by (simp add: expire_stale_def)
qed

lemma coldest_None: "coldest d = None \<longleftrightarrow> d = []"
  by (cases d) (auto split: option.split)

lemma coldest_mem: "coldest d = Some kv \<Longrightarrow> kv \<in> set d"
  by (induction d arbitrary: kv) (auto split: option.splits if_splits)

lemma coldest_least: "coldest d = Some kv \<Longrightarrow> kv' \<in> set d \<Longrightarrow> snd kv \<le> snd kv'"
proof (induction d arbitrary: kv)
  case (Cons a d)
  then show ?case by (cases "coldest d") (fastforce simp: coldest_None split: if_splits)+
qed simp

lemma make_room_restrict:
  assumes "rl_inv cfg t s" "1 \<le> rl_max_identities cfg"
  shows "\<exists>P. make_room cfg s = Inr (restrict_keys P s)
    \<and> length (rl_tokens (restrict_keys P s)) < rl_max_identities cfg
    \<and> (length (rl_tokens s) < rl_max_identities cfg \<longrightarrow> P = (\<lambda>k. True))"
  using assms
proof (induction cfg s rule: make_room.induct)
  case (1 cfg s)
  show ?case
  proof (cases "length (rl_tokens s) < rl_max_identities cfg")
    case True
    then show ?thesis by (intro exI [of _ "\<lambda>k. True"]) (simp add: make_room.simps [of cfg s])
  next
    case False
    have keys: "fst ` set (rl_tokens s) = fst ` set (rl_updated s)" using 1(2) by (simp add: rl_inv_def)
    from False 1(3) have "rl_tokens s \<noteq> []" by auto
    with keys obtain k u where c: "coldest (rl_updated s) = Some (k, u)"
      by (cases "coldest (rl_updated s)") (auto simp: coldest_None)
    then have "k \<in> fst ` set (rl_tokens s)" using coldest_mem [OF c] keys by (metis fst_conv image_eqI)
    then have d: "drop_bucket s k = Inr (restrict_keys (\<lambda>k'. k' \<noteq> k) s)" using keys by (rule drop_bucket_restrict)
    have "rl_inv cfg t (restrict_keys (\<lambda>k'. k' \<noteq> k) s)" using 1(2) by (rule restrict_keys_inv)
    from 1(1) [OF _ c refl d this 1(3)] False obtain P where
      "make_room cfg (restrict_keys (\<lambda>k'. k' \<noteq> k) s) = Inr (restrict_keys P (restrict_keys (\<lambda>k'. k' \<noteq> k) s))"
      "length (rl_tokens (restrict_keys P (restrict_keys (\<lambda>k'. k' \<noteq> k) s))) < rl_max_identities cfg" by auto
    with False c d show ?thesis
      by (intro exI [of _ "\<lambda>k'. k' \<noteq> k \<and> P k'"])
        (simp add: make_room.simps [of cfg s] restrict_keys_restrict)
  qed
qed

section \<open>The level of a bucket\<close>

text \<open>What the bucket of a key holds at a time: a missing bucket is a full one.\<close>

definition level :: "rl_config \<Rightarrow> limiter \<Rightarrow> string \<Rightarrow> rat \<Rightarrow> rat" where
  "level cfg s k now =
     (case map_of (rl_updated s) k of
        None \<Rightarrow> rl_burst cfg
      | Some u \<Rightarrow> min (rl_burst cfg)
          ((case map_of (rl_tokens s) k of None \<Rightarrow> rl_burst cfg | Some t \<Rightarrow> t) + (now - u) * rl_rate cfg))"

lemma rl_inv_values:
  assumes "rl_inv cfg now s"
  shows "map_of (rl_tokens s) k = Some t \<Longrightarrow> 0 \<le> t \<and> t \<le> rl_burst cfg"
    and "map_of (rl_updated s) k = Some u \<Longrightarrow> u \<le> now"
    and "map_of (rl_tokens s) k = None \<longleftrightarrow> map_of (rl_updated s) k = None"
proof -
  have mem: "v \<in> snd ` set d" if "map_of d k = Some v" for v and d :: "(string \<times> rat) list"
    using map_of_SomeD [OF that] by force
  show "map_of (rl_tokens s) k = Some t \<Longrightarrow> 0 \<le> t \<and> t \<le> rl_burst cfg"
    by (rule bspec [OF rl_invD(5) [OF assms] mem])
  show "map_of (rl_updated s) k = Some u \<Longrightarrow> u \<le> now"
    by (rule bspec [OF rl_invD(6) [OF assms] mem])
  show "map_of (rl_tokens s) k = None \<longleftrightarrow> map_of (rl_updated s) k = None"
    unfolding map_of_eq_None_iff rl_invD(3) [OF assms] ..
qed

lemma rl_inv_later:
  assumes "rl_inv cfg t s" "t \<le> now"
  shows "rl_inv cfg now s"
proof -
  note D = rl_invD [OF assms(1)]
  have "\<forall>u \<in> snd ` set (rl_updated s). u \<le> now"
    using D(6) assms(2) by (meson order_trans)
  moreover have "rl_last_sweep s \<le> now" using D(8) assms(2) by simp
  ultimately show ?thesis unfolding rl_inv_def by (intro conjI D)
qed

lemma level_bounds:
  assumes "rl_inv cfg t s" "t \<le> now" "cfg_ok cfg"
  shows "0 \<le> level cfg s k now" "level cfg s k now \<le> rl_burst cfg"
proof -
  have "0 \<le> (now - u) * rl_rate cfg" if "map_of (rl_updated s) k = Some u" for u
    using rl_inv_values(2) [OF assms(1) that] assms(2,3) by (simp add: cfg_ok_def)
  then show "0 \<le> level cfg s k now" "level cfg s k now \<le> rl_burst cfg"
    using assms(3) rl_inv_values(1) [OF assms(1)]
    by (auto simp: level_def cfg_ok_def split: option.split intro: add_nonneg_nonneg)
qed

lemma level_last_sweep [simp]: "level cfg (s\<lparr>rl_last_sweep := x\<rparr>) k now = level cfg s k now"
  by (simp add: level_def split: option.split)

lemma level_restrict: "level cfg (restrict_keys P s) k now = (if P k then level cfg s k now else rl_burst cfg)"
  by (simp add: level_def restrict_keys_sel map_of_filter_keys split: option.split)


lemma stale_full:
  assumes "stale cfg now s k" "rl_inv cfg t s" "cfg_ok cfg" "rl_burst cfg \<le> rl_ttl cfg * rl_rate cfg"
  shows "level cfg s k now = rl_burst cfg"
proof -
  obtain u where u: "map_of (rl_updated s) k = Some u" "now - u > rl_ttl cfg"
    using assms(1) by (auto simp: stale_def)
  obtain x where x: "map_of (rl_tokens s) k = Some x" "0 \<le> x"
    using u(1) rl_inv_values(1,3) [OF assms(2), of k] by (cases "map_of (rl_tokens s) k") auto
  have "rl_ttl cfg * rl_rate cfg \<le> (now - u) * rl_rate cfg"
    using u(2) assms(3) by (intro mult_right_mono) (simp_all add: cfg_ok_def)
  with assms(4) x u(1) show ?thesis by (simp add: level_def)
qed

text \<open>Writing one bucket.\<close>

definition write_bucket :: "string \<Rightarrow> rat \<Rightarrow> rat \<Rightarrow> limiter \<Rightarrow> limiter" where
  "write_bucket k v now s =
     s\<lparr>rl_tokens := AList.update k v (rl_tokens s), rl_updated := AList.update k now (rl_updated s)\<rparr>"

lemma write_bucket_sel:
  "rl_tokens (write_bucket k v now s) = AList.update k v (rl_tokens s)"
  "rl_updated (write_bucket k v now s) = AList.update k now (rl_updated s)"
  "rl_last_sweep (write_bucket k v now s) = rl_last_sweep s"
  by (simp_all add: write_bucket_def)

lemma keys_update: "fst ` set (AList.update k v d) = insert k (fst ` set d)"
  by (simp add: update_conv' flip: dom_map_of_conv_image_fst)

lemma length_keys: "distinct (map fst d) \<Longrightarrow> length d = card (fst ` set d)"
  by (metis distinct_card length_map set_map)

lemma values_update: "snd ` set (AList.update k v d) \<subseteq> insert v (snd ` set d)"
  by (induction d) auto

lemma write_bucket_inv:
  assumes inv: "rl_inv cfg now s" and k: "bounded_key cfg k" and v: "0 \<le> v" "v \<le> rl_burst cfg"
    and room: "k \<in> fst ` set (rl_tokens s) \<or> length (rl_tokens s) < rl_max_identities cfg"
  shows "rl_inv cfg now (write_bucket k v now s)"
proof -
  note D = rl_invD [OF inv]
  note d = D(1,2)
  have "length (AList.update k v (rl_tokens s)) = card (insert k (fst ` set (rl_tokens s)))"
    using length_keys [OF distinct_update [OF d(1), of k v]] unfolding keys_update .
  with D(4) have len: "length (AList.update k v (rl_tokens s)) \<le> rl_max_identities cfg"
    using room length_keys [OF d(1)] by (cases "k \<in> fst ` set (rl_tokens s)") (simp_all only: card_insert_if insert_absorb, simp)
  have 1: "\<forall>t \<in> snd ` set (AList.update k v (rl_tokens s)). 0 \<le> t \<and> t \<le> rl_burst cfg"
    using values_update [of k v] D(5) v by blast
  have 2: "\<forall>u \<in> snd ` set (AList.update k now (rl_updated s)). u \<le> now"
    using values_update [of k now] D(6) by blast
  have 3: "\<forall>k' \<in> fst ` set (AList.update k v (rl_tokens s)). bounded_key cfg k'"
    using D(7) k unfolding keys_update by blast
  have 4: "fst ` set (AList.update k v (rl_tokens s)) = fst ` set (AList.update k now (rl_updated s))"
    using D(3) by (simp only: keys_update)
  show ?thesis unfolding rl_inv_def write_bucket_sel
    by (intro conjI distinct_update d len 1 2 3 4 D(8))
qed

lemma level_write_bucket:
  assumes "v \<le> rl_burst cfg"
  shows "level cfg (write_bucket k v now s) k' now = (if k' = k then v else level cfg s k' now)"
  using assms by (simp add: level_def write_bucket_sel update_conv' min_absorb2 split: option.split)

section \<open>One consumption\<close>

text \<open>The table after a consumption: the surviving buckets, with the bucket of the key written.\<close>

definition after_consume :: "rl_config \<Rightarrow> string \<Rightarrow> rat \<Rightarrow> limiter \<Rightarrow> limiter" where
  "after_consume cfg k now s =
     (let l = level cfg s k now in write_bucket k (if 1 \<le> l then l - 1 else l) now s)"

lemma consume_tokens:
  assumes "rl_inv cfg now s"
  shows "(case map_of (rl_updated s) k of
       None \<Rightarrow> (case map_of (rl_tokens s) k of None \<Rightarrow> rl_burst cfg | Some t \<Rightarrow> t)
     | Some l \<Rightarrow> min (rl_burst cfg)
         ((case map_of (rl_tokens s) k of None \<Rightarrow> rl_burst cfg | Some t \<Rightarrow> t) + (now - l) * rl_rate cfg))
     = level cfg s k now"
  using rl_inv_values(3) [OF assms, of k] by (cases "map_of (rl_updated s) k") (simp_all add: level_def)

lemma sweep_restrict:
  assumes "rl_inv cfg t s" "t \<le> now"
  obtains P ls where
    "(if now - rl_last_sweep s \<ge> rl_sweep_interval cfg
      then bind_r (expire_stale cfg now s) (\<lambda>s1. Inr (s1\<lparr>rl_last_sweep := now\<rparr>)) else Inr s)
     = Inr (restrict_keys P (s\<lparr>rl_last_sweep := ls\<rparr>))"
    "ls \<le> now" "\<And>k. P k \<or> stale cfg now s k"
proof (cases "now - rl_last_sweep s \<ge> rl_sweep_interval cfg")
  case True
  have "(restrict_keys P s)\<lparr>rl_last_sweep := now\<rparr> = restrict_keys P (s\<lparr>rl_last_sweep := now\<rparr>)" for P
    by (simp add: restrict_keys_def)
  with True expire_stale_restrict [OF assms(1), of now] show ?thesis
    by (intro that [of "\<lambda>k. \<not> stale cfg now s k" now]) auto
next
  case False
  have "rl_last_sweep s \<le> now" using rl_invD(8) [OF assms(1)] assms(2) by simp
  with False show ?thesis by (intro that [of "\<lambda>k. True" "rl_last_sweep s"]) simp_all
qed

lemma make_room_if_restrict:
  assumes "rl_inv cfg now s" "cfg_ok cfg"
  obtains P where
    "(if map_of (rl_updated s) k = None then make_room cfg s else Inr s) = Inr (restrict_keys P s)"
    "k \<in> fst ` set (rl_tokens (restrict_keys P s)) \<or> length (rl_tokens (restrict_keys P s)) < rl_max_identities cfg"
    "card (insert k (fst ` set (rl_tokens s))) \<le> rl_max_identities cfg \<Longrightarrow> P = (\<lambda>k. True)"
proof (cases "map_of (rl_updated s) k = None")
  case True
  have max: "1 \<le> rl_max_identities cfg" using assms(2) by (simp add: cfg_ok_def)
  from make_room_restrict [OF assms(1) max] obtain P where P: "make_room cfg s = Inr (restrict_keys P s)"
    "length (rl_tokens (restrict_keys P s)) < rl_max_identities cfg"
    "length (rl_tokens s) < rl_max_identities cfg \<longrightarrow> P = (\<lambda>k. True)" by blast
  have "k \<notin> fst ` set (rl_tokens s)"
    using True unfolding rl_invD(3) [OF assms(1)] map_of_eq_None_iff .
  then have "card (insert k (fst ` set (rl_tokens s))) = Suc (length (rl_tokens s))"
    using length_keys [OF rl_invD(1) [OF assms(1)]] by simp
  with True P show ?thesis by (intro that [of P]) simp_all
next
  case False
  then have "k \<in> fst ` set (rl_tokens s)"
    unfolding rl_invD(3) [OF assms(1)] map_of_eq_None_iff by blast
  with False show ?thesis by (intro that [of "\<lambda>k. True"]) (simp_all only: if_False restrict_keys_True simp_thms)
qed

lemma consume_restrict:
  assumes "rl_inv cfg t s" "t \<le> now" "cfg_ok cfg" "bounded_key cfg k"
  obtains P ls where
    "consume cfg k now s =
       Inr (1 \<le> level cfg (restrict_keys P (s\<lparr>rl_last_sweep := ls\<rparr>)) k now,
         after_consume cfg k now (restrict_keys P (s\<lparr>rl_last_sweep := ls\<rparr>)))"
    "rl_inv cfg now (after_consume cfg k now (restrict_keys P (s\<lparr>rl_last_sweep := ls\<rparr>)))"
    "card (insert k (fst ` set (rl_tokens s))) \<le> rl_max_identities cfg \<Longrightarrow> \<forall>k'. P k' \<or> stale cfg now s k'"
proof -
  from sweep_restrict [OF assms(1,2)] obtain P ls where P:
    "(if now - rl_last_sweep s \<ge> rl_sweep_interval cfg
      then bind_r (expire_stale cfg now s) (\<lambda>s1. Inr (s1\<lparr>rl_last_sweep := now\<rparr>)) else Inr s)
     = Inr (restrict_keys P (s\<lparr>rl_last_sweep := ls\<rparr>))" "ls \<le> now" "\<And>k. P k \<or> stale cfg now s k" by blast
  define s1 where "s1 = restrict_keys P (s\<lparr>rl_last_sweep := ls\<rparr>)"
  have "rl_inv cfg now (s\<lparr>rl_last_sweep := ls\<rparr>)"
    using rl_invD(1-7) [OF rl_inv_later [OF assms(1,2)]] P(2) unfolding rl_inv_def by simp
  then have inv1: "rl_inv cfg now s1" unfolding s1_def by (rule restrict_keys_inv)
  from make_room_if_restrict [OF inv1 assms(3), of k] obtain Q where Q:
    "(if map_of (rl_updated s1) k = None then make_room cfg s1 else Inr s1) = Inr (restrict_keys Q s1)"
    "k \<in> fst ` set (rl_tokens (restrict_keys Q s1)) \<or> length (rl_tokens (restrict_keys Q s1)) < rl_max_identities cfg"
    "card (insert k (fst ` set (rl_tokens s1))) \<le> rl_max_identities cfg \<Longrightarrow> Q = (\<lambda>k. True)" by blast
  define s2 where "s2 = restrict_keys Q s1"
  have inv2: "rl_inv cfg now s2" unfolding s2_def using inv1 by (rule restrict_keys_inv)
  have s2: "s2 = restrict_keys (\<lambda>k. P k \<and> Q k) (s\<lparr>rl_last_sweep := ls\<rparr>)"
    by (simp add: s2_def s1_def restrict_keys_restrict)
  note bounds = level_bounds [OF inv2 order_refl assms(3), of k]
  have "consume cfg k now s = Inr (1 \<le> level cfg s2 k now, after_consume cfg k now s2)"
    unfolding consume_def P(1) s1_def [symmetric] bind_r_Inr Q(1) s2_def [symmetric] consume_tokens [OF inv2] Let_def
    by (simp add: after_consume_def write_bucket_def)
  moreover have "rl_inv cfg now (after_consume cfg k now s2)"
    unfolding after_consume_def Let_def
    using bounds Q(2) by (intro write_bucket_inv inv2 assms(4)) (auto simp: s2_def)
  moreover have "\<forall>k'. (P k' \<and> Q k') \<or> stale cfg now s k'"
    if "card (insert k (fst ` set (rl_tokens s))) \<le> rl_max_identities cfg"
  proof -
    have "card (insert k (fst ` set (rl_tokens s1))) \<le> card (insert k (fst ` set (rl_tokens s)))"
      by (rule card_mono) (auto simp: s1_def restrict_keys_sel)
    with that Q(3) P(3) show ?thesis by auto
  qed
  ultimately show ?thesis using that [of "\<lambda>k. P k \<and> Q k" ls] unfolding s2 by blast
qed

lemma after_consume_keys:
  "fst ` set (rl_tokens (after_consume cfg k now (restrict_keys P (s\<lparr>rl_last_sweep := ls\<rparr>))))
     \<subseteq> insert k (fst ` set (rl_tokens s))"
  by (auto simp: after_consume_def Let_def write_bucket_sel keys_update restrict_keys_sel)

lemma after_consume_level:
  assumes "level cfg s k now \<le> rl_burst cfg"
  shows "level cfg (after_consume cfg k now s) k' now =
    level cfg s k' now - (if k' = k \<and> 1 \<le> level cfg s k now then 1 else 0)"
  using assms by (simp add: after_consume_def Let_def level_write_bucket)

text \<open>
  A consumption never raises and keeps the invariant.  With room for the key, and a TTL in which
  a bucket refills, it takes one token from a bucket that has one and leaves the others alone.
\<close>

abbreviation roomy :: "rl_config \<Rightarrow> string set \<Rightarrow> bool" where
  "roomy cfg K \<equiv> card K \<le> rl_max_identities cfg \<and> rl_burst cfg \<le> rl_ttl cfg * rl_rate cfg"

lemma consume_step:
  assumes "rl_inv cfg t s" "t \<le> now" "cfg_ok cfg" "bounded_key cfg k"
  obtains ok s' where "consume cfg k now s = Inr (ok, s')" "rl_inv cfg now s'"
    "fst ` set (rl_tokens s') \<subseteq> insert k (fst ` set (rl_tokens s))"
    "\<And>k'. roomy cfg (insert k (fst ` set (rl_tokens s)))
       \<Longrightarrow> level cfg s' k' now = level cfg s k' now - (if k' = k \<and> ok then 1 else 0)"
proof -
  from consume_restrict [OF assms] obtain P ls where P:
    "consume cfg k now s = Inr (1 \<le> level cfg (restrict_keys P (s\<lparr>rl_last_sweep := ls\<rparr>)) k now,
       after_consume cfg k now (restrict_keys P (s\<lparr>rl_last_sweep := ls\<rparr>)))"
    "rl_inv cfg now (after_consume cfg k now (restrict_keys P (s\<lparr>rl_last_sweep := ls\<rparr>)))"
    "card (insert k (fst ` set (rl_tokens s))) \<le> rl_max_identities cfg \<Longrightarrow> \<forall>k'. P k' \<or> stale cfg now s k'"
    by blast
  define s2 where "s2 = restrict_keys P (s\<lparr>rl_last_sweep := ls\<rparr>)"
  have same: "level cfg s2 k' now = level cfg s k' now"
    if "roomy cfg (insert k (fst ` set (rl_tokens s)))" for k'
    using P(3) that stale_full [OF _ assms(1,3), of now k'] by (auto simp: s2_def level_restrict)
  have "level cfg (after_consume cfg k now s2) k' now
      = level cfg s k' now - (if k' = k \<and> 1 \<le> level cfg s2 k now then 1 else 0)"
    if "roomy cfg (insert k (fst ` set (rl_tokens s)))" for k'
    using after_consume_level [of cfg s2 k now k'] level_bounds(2) [OF assms(1,2,3), of k]
    unfolding same [OF that] by blast
  with P(1,2) after_consume_keys show ?thesis unfolding s2_def by (intro that) blast+
qed

lemma bounded_ns:
  "bounded_key cfg (client_ns cfg c)"
  "conversation_ns cfg v = Some k \<Longrightarrow> bounded_key cfg k"
  by (auto simp: bounded_key_def client_ns_def conversation_ns_def normalize_def CLIENT_PREFIX_def
      CONVERSATION_PREFIX_def split: option.splits if_splits)

definition request_keys :: "rl_config \<Rightarrow> string \<Rightarrow> string option \<Rightarrow> string set" where
  "request_keys cfg c v = insert (client_ns cfg c) (set_option (conversation_ns cfg v))"

lemma admit_step:
  assumes inv: "rl_inv cfg t s" and "t \<le> now" "cfg_ok cfg"
  obtains d s' where "admit cfg c v now s = Inr (d, s')" "rl_inv cfg now s'"
    "fst ` set (rl_tokens s') \<subseteq> fst ` set (rl_tokens s) \<union> request_keys cfg c v"
    "\<And>k. roomy cfg (fst ` set (rl_tokens s) \<union> request_keys cfg c v)
       \<Longrightarrow> level cfg s' k now + (if ad_allowed d \<and> client_ns cfg c = k then 1 else 0) \<le> level cfg s k now"
proof -
  let ?K = "\<lambda>s. fst ` set (rl_tokens s)" and ?c = "client_ns cfg c"
  from consume_step [OF assms bounded_ns(1), of c] obtain ok s1 where s1: "consume cfg ?c now s = Inr (ok, s1)"
    "rl_inv cfg now s1" "?K s1 \<subseteq> insert ?c (?K s)"
    "\<And>k'. roomy cfg (insert ?c (?K s)) \<Longrightarrow> level cfg s1 k' now = level cfg s k' now - (if k' = ?c \<and> ok then 1 else 0)"
    by blast
  have sub: "roomy cfg B" if "roomy cfg A" "B \<subseteq> A" "finite A" for A B
    using that card_mono [of A B] by auto
  have room1: "roomy cfg (insert ?c (?K s))" if "roomy cfg (?K s \<union> request_keys cfg c v)"
    using that by (rule sub) (auto simp: request_keys_def)
  show ?thesis
  proof (cases "ok \<and> conversation_ns cfg v \<noteq> None")
    case False
    then obtain d where "admit cfg c v now s = Inr (d, s1)" "ad_allowed d \<longrightarrow> ok"
      using s1(1) by (cases ok) (auto simp: admit_def)
    with s1 room1 show ?thesis by (intro that [of d s1]) (auto simp: request_keys_def)
  next
    case True
    then obtain kv where kv: "conversation_ns cfg v = Some kv" by auto
    from consume_step [OF s1(2) order_refl assms(3) bounded_ns(2) [OF kv]] obtain ok2 s2 where
      s2: "consume cfg kv now s1 = Inr (ok2, s2)" "rl_inv cfg now s2" "?K s2 \<subseteq> insert kv (?K s1)"
      "\<And>k'. roomy cfg (insert kv (?K s1)) \<Longrightarrow> level cfg s2 k' now = level cfg s1 k' now - (if k' = kv \<and> ok2 then 1 else 0)"
      by blast
    obtain d where d: "admit cfg c v now s = Inr (d, s2)"
      using True s1(1) s2(1) kv by (cases ok2) (auto simp: admit_def)
    have room2: "roomy cfg (insert kv (?K s1))" if "roomy cfg (?K s \<union> request_keys cfg c v)"
      using that by (rule sub) (use s1(3) kv in \<open>auto simp: request_keys_def\<close>)
    have "?K s2 \<subseteq> insert kv (insert ?c (?K s))" using s2(3) insert_mono [OF s1(3)] by (rule order_trans)
    moreover have "insert kv (insert ?c (?K s)) = ?K s \<union> request_keys cfg c v"
      using kv by (simp add: request_keys_def insert_commute)
    ultimately have "?K s2 \<subseteq> ?K s \<union> request_keys cfg c v" by (simp only:)
    moreover have "level cfg s2 k now + (if ad_allowed d \<and> ?c = k then 1 else 0) \<le> level cfg s k now"
      if "roomy cfg (?K s \<union> request_keys cfg c v)" for k
      using s1(4) [OF room1 [OF that], of k] s2(4) [OF room2 [OF that], of k] True by simp
    ultimately show ?thesis using d s2(2) by (rule that [rotated 2])
  qed
qed

lemma admit_total:
  assumes "rl_inv cfg t s" "t \<le> now" "cfg_ok cfg"
  shows "\<exists>d s'. admit cfg c v now s = Inr (d, s') \<and> rl_inv cfg now s'"
  by (rule admit_step [OF assms, of c v]) iprover

section \<open>Runs\<close>

text \<open>A request is its arrival time, its client and, if any, its conversation.\<close>

type_synonym rl_request = "rat \<times> string \<times> string option"

fun rl_run :: "rl_config \<Rightarrow> limiter \<Rightarrow> rl_request list \<Rightarrow> (admission_decision list \<times> limiter) result" where
  "rl_run cfg s [] = Inr ([], s)"
| "rl_run cfg s ((now, c, v) # rs) =
     bind_r (admit cfg c v now s) (\<lambda>(d, s1).
     bind_r (rl_run cfg s1 rs) (\<lambda>(ds, s2). Inr (d # ds, s2)))"

fun times_from :: "rat \<Rightarrow> rl_request list \<Rightarrow> bool" where
  "times_from t [] = True"
| "times_from t ((now, _, _) # rs) = (t \<le> now \<and> times_from now rs)"

fun end_time :: "rat \<Rightarrow> rl_request list \<Rightarrow> rat" where
  "end_time t [] = t"
| "end_time t ((now, _, _) # rs) = end_time now rs"




lemma rl_run_inv:
  assumes "rl_inv cfg t s" "cfg_ok cfg" "times_from t rs"
  shows "\<exists>ds s'. rl_run cfg s rs = Inr (ds, s') \<and> rl_inv cfg (end_time t rs) s' \<and> length ds = length rs"
  using assms
proof (induction rs arbitrary: t s)
  case (Cons r rs)
  obtain now c v where r: "r = (now, c, v)" by (cases r)
  have "t \<le> now" using Cons.prems(3) by (simp add: r)
  from admit_total [OF Cons.prems(1) this Cons.prems(2), of c v]
  obtain d s1 where "admit cfg c v now s = Inr (d, s1)" "rl_inv cfg now s1" by iprover
  with Cons.IH [of now s1] Cons.prems(2,3) show ?case by (auto simp: r)
qed simp


lemma init_inv:
  assumes "RateLimiter_init rpm burst maxi ttl chars now = Inr (cfg, s)"
  shows "cfg_ok cfg \<and> rl_inv cfg now s \<and> rl_tokens s = [] \<and> rl_rate cfg = of_int rpm / 60 \<and> rl_burst cfg = of_int burst
    \<and> rl_max_identities cfg = nat maxi \<and> rl_ttl cfg = ttl"
proof -
  from assms have pos: "0 < rpm" "0 < burst" "1 \<le> maxi" "0 < ttl" "1 \<le> chars"
    and s: "s = \<lparr>rl_tokens = [], rl_updated = [], rl_last_sweep = now\<rparr>"
    and cfg: "cfg = \<lparr>rl_rate = of_int rpm / 60, rl_burst = of_int burst, rl_max_identities = nat maxi,
      rl_ttl = ttl, rl_max_key_chars = nat chars, rl_sweep_interval = ttl / 2\<rparr>"
    by (simp_all add: RateLimiter_init_def split: if_splits)
  have "1 \<le> (of_int burst :: rat)" using pos(2) by simp
  moreover have "1 \<le> nat maxi" "1 \<le> nat chars" using pos(3,5) by linarith+
  ultimately show ?thesis using pos(1,4) by (simp add: s cfg cfg_ok_def rl_inv_def)
qed

section \<open>The advertised delay\<close>

lemma write_bucket_level_later:
  "level cfg (write_bucket k v now s) k later = min (rl_burst cfg) (v + (later - now) * rl_rate cfg)"
  by (simp add: level_def write_bucket_sel update_conv')

lemma delay_refills:
  assumes "cfg_ok cfg" "v < 1" "map_of (rl_tokens s) k = Some v"
  shows "1 \<le> v + of_int (seconds_until_token cfg k s) * rl_rate cfg"
proof -
  have r: "0 < rl_rate cfg" using assms(1) by (simp add: cfg_ok_def)
  have "(1 - v) / rl_rate cfg \<le> of_int (\<lfloor>(1 - v) / rl_rate cfg\<rfloor> + 1)" by linarith
  also have "\<dots> \<le> of_int (seconds_until_token cfg k s)"
    using assms(2,3) by (simp add: seconds_until_token_def Let_def)
  finally show ?thesis using r by (simp add: divide_le_eq)
qed

lemma consume_rejected:
  assumes "rl_inv cfg t s" "t \<le> now" "cfg_ok cfg" "bounded_key cfg k" "consume cfg k now s = Inr (False, s1)"
  obtains v where "rl_inv cfg now s1" "map_of (rl_tokens s1) k = Some v" "v < 1"
    "\<And>later. level cfg s1 k later = min (rl_burst cfg) (v + (later - now) * rl_rate cfg)"
proof -
  obtain P ls where P: "consume cfg k now s =
       Inr (1 \<le> level cfg (restrict_keys P (s\<lparr>rl_last_sweep := ls\<rparr>)) k now,
         after_consume cfg k now (restrict_keys P (s\<lparr>rl_last_sweep := ls\<rparr>)))"
    "rl_inv cfg now (after_consume cfg k now (restrict_keys P (s\<lparr>rl_last_sweep := ls\<rparr>)))"
    by (rule consume_restrict [OF assms(1-4)]) iprover
  define s2 where "s2 = restrict_keys P (s\<lparr>rl_last_sweep := ls\<rparr>)"
  define v where "v = level cfg s2 k now"
  from P(1) assms(5) have v: "v < 1" "s1 = write_bucket k v now s2"
    by (auto simp: after_consume_def Let_def not_le simp flip: s2_def v_def)
  show ?thesis
  proof (rule that)
    show "rl_inv cfg now s1" using P v by (simp add: after_consume_def Let_def flip: s2_def v_def)
    show "map_of (rl_tokens s1) k = Some v" by (simp add: v(2) write_bucket_sel update_conv')
  qed (simp_all add: v write_bucket_level_later)
qed

lemma consume_succeeds:
  assumes "rl_inv cfg t s" "t \<le> now" "cfg_ok cfg" "bounded_key cfg k" "1 \<le> level cfg s k now"
  obtains s' where "consume cfg k now s = Inr (True, s')" "rl_inv cfg now s'"
    "\<And>k'. k' \<noteq> k \<Longrightarrow> level cfg s k' now \<le> level cfg s' k' now"
proof -
  obtain P ls where P: "consume cfg k now s =
       Inr (1 \<le> level cfg (restrict_keys P (s\<lparr>rl_last_sweep := ls\<rparr>)) k now,
         after_consume cfg k now (restrict_keys P (s\<lparr>rl_last_sweep := ls\<rparr>)))"
    "rl_inv cfg now (after_consume cfg k now (restrict_keys P (s\<lparr>rl_last_sweep := ls\<rparr>)))"
    by (rule consume_restrict [OF assms(1-4)]) iprover
  define s2 where "s2 = restrict_keys P (s\<lparr>rl_last_sweep := ls\<rparr>)"
  have l: "level cfg s2 k' now = (if P k' then level cfg s k' now else rl_burst cfg)" for k' by (simp add: s2_def level_restrict)
  note b = level_bounds(2) [OF assms(1,2,3)]
  have le: "level cfg s2 k now \<le> rl_burst cfg" and enough: "1 \<le> level cfg s2 k now"
    using b [of k] assms(3,5) by (simp_all add: l cfg_ok_def)
  have "level cfg s k' now \<le> level cfg (after_consume cfg k now s2) k' now" if "k' \<noteq> k" for k'
    using after_consume_level [OF le, of k'] that b [of k'] by (simp add: l)
  with P enough show ?thesis unfolding s2_def by (intro that) simp_all
qed

section \<open>Properties\<close>

definition demo_requests :: "rl_request list" where
  "demo_requests = [(0, ''host'', Some ''a''), (0, ''host'', Some ''b''), (1, ''host'', None)]"

definition demo_limiter :: "(rl_config \<times> limiter) result" where
  "demo_limiter = RateLimiter_init 60 1 10 3600 256 0"

definition demo_cfg :: rl_config where
  "demo_cfg = \<lparr>rl_rate = 1, rl_burst = 1, rl_max_identities = 10, rl_ttl = 3600, rl_max_key_chars = 256,
     rl_sweep_interval = 1800\<rparr>"

definition demo_start :: limiter where
  "demo_start = \<lparr>rl_tokens = [], rl_updated = [], rl_last_sweep = 0\<rparr>"

lemma demo_limiter_init: "RateLimiter_init 60 1 10 3600 256 0 = Inr (demo_cfg, demo_start)"
  by (simp add: RateLimiter_init_def demo_cfg_def demo_start_def)

text \<open>
  C26. The limiter never raises and its memory is bounded: from a constructed limiter, any sequence
  of requests at non-decreasing times is decided without an exception, and afterwards there are
  at most \<open>max_identities\<close> buckets, each with a key of at most \<open>max_identity_chars\<close> characters
  behind its two-character prefix and between 0 and \<open>burst\<close> tokens.
\<close>

theorem limiter_total_and_bounded:
  assumes "RateLimiter_init rpm burst maxi ttl chars t0 = Inr (cfg, s0)" "times_from t0 rs"
  shows "\<exists>ds s. rl_run cfg s0 rs = Inr (ds, s) \<and> length ds = length rs
    \<and> int (identity_count s) \<le> maxi
    \<and> (\<forall>k t. map_of (rl_tokens s) k = Some t \<longrightarrow> int (length k) \<le> chars + 2 \<and> 0 \<le> t \<and> t \<le> of_int burst)"
proof -
  note i = init_inv [OF assms(1)]
  from rl_run_inv [of cfg t0 s0 rs] i assms(2) obtain ds s where
    run: "rl_run cfg s0 rs = Inr (ds, s)" "rl_inv cfg (end_time t0 rs) s" "length ds = length rs" by iprover
  have args: "0 \<le> maxi" "0 \<le> chars" "rl_max_key_chars cfg = nat chars"
    using assms(1) by (auto simp: RateLimiter_init_def split: if_splits)
  have "int (length k) \<le> chars + 2 \<and> 0 \<le> t \<and> t \<le> of_int burst" if m: "map_of (rl_tokens s) k = Some t" for k t
  proof -
    have "k \<in> fst ` set (rl_tokens s)" using map_of_SomeD [OF m] by force
    then have "bounded_key cfg k" using bspec [OF rl_invD(7) [OF run(2)]] by iprover
    then have "int (length k) \<le> chars + 2" using args by (simp add: bounded_key_def)
    with rl_inv_values(1) [OF run(2) m] i show ?thesis by simp
  qed
  moreover have "int (identity_count s) \<le> maxi"
    using rl_invD(4) [OF run(2)] i args by (simp add: identity_count_def)
  ultimately show ?thesis using run by iprover
qed

theorem limiter_total_and_bounded_witness:
  "\<exists>ds s. rl_run demo_cfg demo_start demo_requests = Inr (ds, s) \<and> int (identity_count s) \<le> 10"
  using limiter_total_and_bounded [OF demo_limiter_init, of demo_requests] by (auto simp: demo_requests_def)



text \<open>
  C27. \<open>Retry-After\<close> is honest: after a rejection by the client bucket, the same request passes the client bucket once
  it has waited the advertised seconds, if nothing else happens in between.  It is admitted unless its
  conversation has no token either; without a conversation it is always admitted.
\<close>

theorem limiter_retry_after_suffices:
  assumes "cfg_ok cfg" "rl_inv cfg t s" "t \<le> now" "admit cfg client conv now s = Inr (d, s1)"
    and "ad_scope d = Some SCOPE_CLIENT"
  shows "1 \<le> ad_retry_after d
    \<and> (\<exists>d' s2. admit cfg client conv (now + of_int (ad_retry_after d)) s1 = Inr (d', s2)
        \<and> (ad_allowed d' \<or> ad_scope d' = Some SCOPE_CONVERSATION)
        \<and> ((\<forall>v. conversation_ns cfg conv = Some v \<longrightarrow> 1 \<le> level cfg s1 v (now + of_int (ad_retry_after d))) \<longrightarrow> ad_allowed d'))"
proof -
  let ?k = "client_ns cfg client" and ?later = "now + of_int (ad_retry_after d)"
  have rej: "consume cfg ?k now s = Inr (False, s1)" and d: "ad_retry_after d = seconds_until_token cfg ?k s1"
    using assms(4,5) by (auto simp: admit_def Let_def result_simps split: if_splits option.splits)
  obtain v where v: "rl_inv cfg now s1" "map_of (rl_tokens s1) ?k = Some v" "v < 1"
    "\<And>later. level cfg s1 ?k later = min (rl_burst cfg) (v + (later - now) * rl_rate cfg)"
    by (rule consume_rejected [OF assms(2,3,1) bounded_ns(1) rej]) iprover
  have pos: "1 \<le> ad_retry_after d" by (simp add: d seconds_until_token_def Let_def)
  have "1 \<le> level cfg s1 ?k ?later"
    using delay_refills [OF assms(1) v(3,2)] assms(1) by (simp add: v(4) d cfg_ok_def)
  moreover have "now \<le> ?later" using pos by simp
  ultimately obtain s2 where s2: "consume cfg ?k ?later s1 = Inr (True, s2)" "rl_inv cfg ?later s2"
    "\<And>k'. k' \<noteq> ?k \<Longrightarrow> level cfg s1 k' ?later \<le> level cfg s2 k' ?later"
    using consume_succeeds [OF v(1) _ assms(1) bounded_ns(1)] by metis
  show ?thesis
  proof (cases "conversation_ns cfg conv")
    case None
    with pos s2(1) show ?thesis by (simp add: admit_def)
  next
    case (Some kv)
    then have "kv \<noteq> ?k"
      by (auto simp: conversation_ns_def client_ns_def CLIENT_PREFIX_def CONVERSATION_PREFIX_def split: option.splits if_splits)
    then have kv: "level cfg s1 kv ?later \<le> level cfg s2 kv ?later" by (rule s2(3))
    obtain ok s3 where s3: "consume cfg kv ?later s2 = Inr (ok, s3)"
      by (rule consume_step [OF s2(2) order_refl assms(1) bounded_ns(2) [OF Some]]) iprover
    have "ok" if "1 \<le> level cfg s1 kv ?later"
      using consume_succeeds [OF s2(2) order_refl assms(1) bounded_ns(2) [OF Some]] that kv s3 by (metis order_trans prod.inject sum.inject(2))
    then show ?thesis using pos s2(1) s3 Some by (cases ok) (auto simp: admit_def)
  qed
qed

theorem limiter_retry_after_suffices_witness:
  "\<exists>d s1 d' s2. rl_run demo_cfg demo_start [(0, ''host'', None), (0, ''host'', None)] = Inr (d, s1)
    \<and> admit demo_cfg ''host'' None 2 s1 = Inr (d', s2) \<and> ad_allowed d'"
proof -
  define s where "s = write_bucket (client_ns demo_cfg ''host'') 0 0 demo_start"
  have first: "admit demo_cfg ''host'' None 0 demo_start
      = Inr (\<lparr>ad_allowed = True, ad_scope = None, ad_retry_after = 1\<rparr>, s)"
    unfolding s_def by code_simp
  have second: "admit demo_cfg ''host'' None 0 s
      = Inr (\<lparr>ad_allowed = False, ad_scope = Some SCOPE_CLIENT, ad_retry_after = 2\<rparr>, s)"
    unfolding s_def by code_simp
  have inv: "cfg_ok demo_cfg" "rl_inv demo_cfg 0 demo_start" using init_inv [OF demo_limiter_init] by simp_all
  have "rl_inv demo_cfg 0 s" using admit_total [OF inv(2) order_refl inv(1), of "''host''" None] first by auto
  from limiter_retry_after_suffices [OF inv(1) this order_refl second] obtain d' s2 where
    "admit demo_cfg ''host'' None 2 s = Inr (d', s2)" "ad_allowed d'" by (auto simp: conversation_ns_def)
  then show ?thesis using first second by auto
qed

text \<open>
  Without room the quota is void: with \<open>max_identities = 1\<close> the conversation bucket evicts the
  client's own bucket, and a client that changes its conversation id has every request admitted
  at one instant, with a burst of 1.
\<close>

lemma limiter_single_identity_evades_quota:
  "(case RateLimiter_init 60 1 1 3600 256 0 of
      Inl e \<Rightarrow> False
    | Inr (cfg, s) \<Rightarrow>
        (case rl_run cfg s [(0, ''host'', Some ''a''), (0, ''host'', Some ''b''), (0, ''host'', Some ''c'')] of
           Inl e \<Rightarrow> False
         | Inr (ds, s') \<Rightarrow> map ad_allowed ds = [True, True, True]))"
  by code_simp

end
