(* ===== verification/Headers.thy ===== *)
theory Headers
  imports PyJson
begin

text \<open>
  The response-header policy, \<open>providers/headers.py\<close>.  A header mapping is an association list
  of names and values in its iteration order; names compare without regard to case.
\<close>

section \<open>Model\<close>

type_synonym headers = "(string \<times> string) list"

definition HOP_BY_HOP_HEADERS :: "string list" where
  "HOP_BY_HOP_HEADERS =
     [''connection'', ''keep-alive'', ''proxy-authenticate'', ''proxy-authorization'', ''te'', ''trailer'',
      ''trailers'', ''transfer-encoding'', ''upgrade'']"

definition STRIPPED_RESPONSE_HEADERS :: "string list" where
  "STRIPPED_RESPONSE_HEADERS = HOP_BY_HOP_HEADERS @ [''content-length'', ''set-cookie'']"

definition DEFAULT_CONTENT_TYPE :: string where
  "DEFAULT_CONTENT_TYPE = ''application/json''"

fun get_header :: "headers \<Rightarrow> string \<Rightarrow> string option" where
  "get_header [] name = None"
| "get_header ((key, value) # hs) name = (if lower key = lower name then Some value else get_header hs name)"

definition connection_named_headers :: "headers \<Rightarrow> string list" where
  "connection_named_headers headers =
     (case get_header headers ''connection'' of
        None \<Rightarrow> []
      | Some connection_value \<Rightarrow>
          if connection_value = [] then []
          else map (\<lambda>token. lower (strip token))
                 (filter (\<lambda>token. strip token \<noteq> []) (split_char (CHR '','') connection_value)))"

definition filter_response_headers :: "bool \<Rightarrow> headers \<Rightarrow> headers" where
  "filter_response_headers keep_content_encoding headers =
     (let stripped = STRIPPED_RESPONSE_HEADERS @ connection_named_headers headers
            @ (if keep_content_encoding then [] else [''content-encoding'']) in
      filter (\<lambda>nv. lower (fst nv) \<notin> set stripped) headers)"

definition ensure_content_type :: "headers \<Rightarrow> string \<Rightarrow> headers" where
  "ensure_content_type headers default_type =
     (if \<not> list_ex (\<lambda>nv. lower (fst nv) = ''content-type'') headers
      then AList.update ''Content-Type'' default_type headers else headers)"

section \<open>Lemmas\<close>

lemma get_header_Some_mem: "get_header hs name = Some v \<Longrightarrow> \<exists>key. (key, v) \<in> set hs \<and> lower key = lower name"
  by (induction hs name rule: get_header.induct) (auto split: if_splits)

lemma get_header_None: "get_header hs name = None \<longleftrightarrow> (\<forall>nv \<in> set hs. lower (fst nv) \<noteq> lower name)"
  by (induction hs name rule: get_header.induct) auto

lemma get_header_filter:
  "(\<And>key. lower key = lower name \<Longrightarrow> P key) \<Longrightarrow> get_header (filter (P \<circ> fst) hs) name = get_header hs name"
  by (induction hs name rule: get_header.induct) auto

lemma get_header_filter_out:
  "(\<And>key. lower key = lower name \<Longrightarrow> \<not> P key) \<Longrightarrow> get_header (filter (P \<circ> fst) hs) name = None"
  by (auto simp: get_header_None)

lemma lower_prefix: "lower (''Content-Type'') = ''content-type''"
  by code_simp

lemma get_header_update:
  assumes "\<forall>nv \<in> set hs. lower (fst nv) \<noteq> lower k"
  shows "get_header (AList.update k v hs) name = (if lower k = lower name then Some v else get_header hs name)"
  using assms by (induction hs) (auto simp: get_header_None)

section \<open>Properties\<close>

text \<open>
  What a client sees of the upstream headers: looking a name up, in any case, gives nothing
  for hop-by-hop headers, cookies, the length, the names listed in \<open>Connection\<close>, and for buffered
  responses the content encoding; and the upstream value for every other name.  A content
  type is always present afterwards, the upstream's own if it had one.
\<close>

lemma forwarded_header_lookup:
  "get_header (filter_response_headers keep hs) name =
     (if lower name \<in> set HOP_BY_HOP_HEADERS \<or> lower name \<in> {''content-length'', ''set-cookie''}
         \<or> lower name \<in> set (connection_named_headers hs)
         \<or> (\<not> keep \<and> lower name = ''content-encoding'')
      then None else get_header hs name)
   \<and> get_header (ensure_content_type hs t) ''content-type'' =
       (case get_header hs ''content-type'' of None \<Rightarrow> Some t | Some v \<Rightarrow> Some v)"
proof -
  let ?S = "set (STRIPPED_RESPONSE_HEADERS @ connection_named_headers hs @ (if keep then [] else [''content-encoding'']))"
  have f: "filter_response_headers keep hs = filter ((\<lambda>n. lower n \<notin> ?S) \<circ> fst) hs"
    by (simp add: filter_response_headers_def Let_def comp_def)
  have "get_header (filter_response_headers keep hs) name = (if lower name \<in> ?S then None else get_header hs name)"
    unfolding f by (cases "lower name \<in> ?S") (simp_all only: if_True if_False, rule get_header_filter_out, simp, rule get_header_filter, simp)
  moreover have "lower name \<in> ?S \<longleftrightarrow> lower name \<in> set HOP_BY_HOP_HEADERS \<or> lower name \<in> {''content-length'', ''set-cookie''}
         \<or> lower name \<in> set (connection_named_headers hs) \<or> (\<not> keep \<and> lower name = ''content-encoding'')"
    by (auto simp: STRIPPED_RESPONSE_HEADERS_def)
  moreover have "get_header (ensure_content_type hs t) ''content-type'' =
       (case get_header hs ''content-type'' of None \<Rightarrow> Some t | Some v \<Rightarrow> Some v)"
  proof -
    have ct: "lower ''content-type'' = ''content-type''" by code_simp
    show ?thesis
    proof (cases "get_header hs ''content-type''")
      case None
      then have "\<forall>nv \<in> set hs. lower (fst nv) \<noteq> lower ''Content-Type''"
        by (simp add: get_header_None ct lower_prefix)
      moreover from this have "ensure_content_type hs t = AList.update ''Content-Type'' t hs"
        by (simp add: ensure_content_type_def list_ex_iff lower_prefix)
      ultimately have "get_header (ensure_content_type hs t) ''content-type'' = Some t"
        by (simp add: get_header_update ct lower_prefix)
      with None show ?thesis by simp
    next
      case (Some v)
      then show ?thesis
        using get_header_Some_mem [OF Some] by (force simp: ensure_content_type_def list_ex_iff ct)
    qed
  qed
  ultimately show ?thesis by simp
qed

end
