(* ===== verification/Resilience.thy ===== *)
theory Resilience
  imports Headers
begin

text \<open>
  Upstream resilience: the circuit breaker and the retry loop of \<open>providers/resilience.py\<close>, the
  errors of \<open>providers/errors.py\<close>, and the provider of \<open>providers/llm.py\<close> that composes them.

  The breaker's methods run under its lock, so each is one step on its record; the clock reading
  is an argument.  A send is long: between its reservation (\<open>begin_send\<close>) and its end
  (\<open>end_send\<close>) other sends begin and end.  The step relation \<open>send_step\<close> interleaves them, with
  the sends in flight as part of the state.  httpx is represented by what its calls yield: the
  outcome of each attempt is an argument.
\<close>

section \<open>Circuit breaker\<close>

datatype circuit = CLOSED | OPEN | HALF_OPEN

record breaker_config =
  bc_threshold :: nat
  bc_reset_seconds :: rat

record breaker =
  br_state :: circuit
  br_failures :: nat
  br_opened_at :: rat
  br_probe :: bool

definition CircuitBreaker_init :: "int \<Rightarrow> rat \<Rightarrow> (breaker_config \<times> breaker) result" where
  "CircuitBreaker_init failure_threshold reset_seconds =
     (if failure_threshold < 1 then Inl (ValueError ''failure_threshold must be >= 1'')
      else Inr (\<lparr>bc_threshold = nat failure_threshold, bc_reset_seconds = reset_seconds\<rparr>,
                \<lparr>br_state = CLOSED, br_failures = 0, br_opened_at = 0, br_probe = False\<rparr>))"

definition transition :: "rat \<Rightarrow> circuit \<Rightarrow> breaker \<Rightarrow> breaker" where
  "transition now state b =
     (case state of
        OPEN \<Rightarrow> b\<lparr>br_state := OPEN, br_opened_at := now, br_probe := False\<rparr>
      | CLOSED \<Rightarrow> b\<lparr>br_state := CLOSED, br_probe := False\<rparr>
      | HALF_OPEN \<Rightarrow> b\<lparr>br_state := HALF_OPEN\<rparr>)"

definition current_state :: "breaker_config \<Rightarrow> rat \<Rightarrow> breaker \<Rightarrow> breaker" where
  "current_state cfg now b =
     (if br_state b = OPEN \<and> now - br_opened_at b \<ge> bc_reset_seconds cfg
      then transition now HALF_OPEN b else b)"

definition breaker_state :: "breaker_config \<Rightarrow> rat \<Rightarrow> breaker \<Rightarrow> circuit \<times> breaker" where
  "breaker_state cfg now b = (let b1 = current_state cfg now b in (br_state b1, b1))"

definition allow_attempt :: "breaker_config \<Rightarrow> rat \<Rightarrow> breaker \<Rightarrow> bool \<times> breaker" where
  "allow_attempt cfg now b =
     (let b1 = current_state cfg now b in
      case br_state b1 of
        OPEN \<Rightarrow> (False, b1)
      | HALF_OPEN \<Rightarrow> if br_probe b1 then (False, b1) else (True, b1\<lparr>br_probe := True\<rparr>)
      | CLOSED \<Rightarrow> (True, b1))"

definition record_success :: "rat \<Rightarrow> breaker \<Rightarrow> breaker" where
  "record_success now b =
     (let b1 = (if br_state b \<noteq> CLOSED then transition now CLOSED b else b)
      in b1\<lparr>br_failures := 0, br_probe := False\<rparr>)"

definition record_failure :: "breaker_config \<Rightarrow> rat \<Rightarrow> breaker \<Rightarrow> breaker" where
  "record_failure cfg now b =
     (let b1 = b\<lparr>br_probe := False, br_failures := Suc (br_failures b)\<rparr> in
      if br_state b1 = HALF_OPEN then transition now OPEN b1
      else if br_state b1 = CLOSED \<and> br_failures b1 \<ge> bc_threshold cfg then transition now OPEN b1
      else b1)"

definition release_probe :: "breaker \<Rightarrow> breaker" where
  "release_probe b = b\<lparr>br_probe := False\<rparr>"

section \<open>Errors and retries\<close>

text \<open>
  What a send raises: httpx's connection errors, its other timeouts, its other errors, and
  exceptions that are none of these, such as a cancellation.
\<close>

datatype send_error =
    ConnectError string
  | ConnectTimeout string
  | OtherTimeout string
  | OtherHTTPError string
  | Unclassified string

definition retryable :: "send_error \<Rightarrow> bool" where
  "retryable e = (case e of ConnectError _ \<Rightarrow> True | ConnectTimeout _ \<Rightarrow> True | _ \<Rightarrow> False)"

record response =
  rs_status :: int
  rs_headers :: headers
  rs_content :: string

record http_error =
  he_status :: int
  he_body :: string
  he_content_type :: string
  he_headers :: headers

datatype provider_error =
    UpstreamHTTPError http_error
  | UpstreamUnavailable string
  | Propagated send_error

definition map_upstream_error :: "send_error \<Rightarrow> provider_error" where
  "map_upstream_error e =
     (case e of
        ConnectError m \<Rightarrow> UpstreamUnavailable (''cannot connect to upstream endpoint: '' @ m)
      | ConnectTimeout m \<Rightarrow> UpstreamUnavailable (''cannot connect to upstream endpoint: '' @ m)
      | OtherTimeout m \<Rightarrow> UpstreamUnavailable (''upstream request timed out: '' @ m)
      | OtherHTTPError m \<Rightarrow> UpstreamUnavailable (''upstream transport error: '' @ m)
      | Unclassified m \<Rightarrow> Propagated e)"

text \<open>
  The retry loop.  \<open>operation k\<close> is what attempt \<open>k\<close> yields; the third component of the result
  lists the upper bounds of the random delays between the attempts.
\<close>

fun retry_loop ::
  "(nat \<Rightarrow> 'e + 'a) \<Rightarrow> ('e \<Rightarrow> bool) \<Rightarrow> rat \<Rightarrow> rat \<Rightarrow> nat \<Rightarrow> nat \<Rightarrow> ('e + 'a) \<times> nat \<times> rat list"
where
  "retry_loop operation retry_on base cap attempt remaining =
     (case operation attempt of
        Inr x \<Rightarrow> (Inr x, Suc attempt, [])
      | Inl e \<Rightarrow>
          if \<not> retry_on e then (Inl e, Suc attempt, [])
          else
            (case remaining of
               0 \<Rightarrow> (Inl e, Suc attempt, [])
             | Suc r \<Rightarrow>
                 (case retry_loop operation retry_on base cap (Suc attempt) r of
                    (res, n, delays) \<Rightarrow> (res, n, min cap (base * 2 ^ attempt) # delays))))"

declare retry_loop.simps [simp del]

definition with_retries ::
  "(nat \<Rightarrow> 'e + 'a) \<Rightarrow> nat \<Rightarrow> rat \<Rightarrow> rat \<Rightarrow> ('e \<Rightarrow> bool) \<Rightarrow> ('e + 'a) \<times> nat \<times> rat list"
where
  "with_retries operation max_retries backoff_base_seconds backoff_max_seconds retry_on =
     retry_loop operation retry_on backoff_base_seconds backoff_max_seconds 0 max_retries"

section \<open>Provider\<close>

record resilience_settings =
  rz_max_retries :: nat
  rz_backoff_base :: rat
  rz_backoff_max :: rat

definition circuit_name :: "circuit \<Rightarrow> string" where
  "circuit_name s = (case s of CLOSED \<Rightarrow> ''closed'' | OPEN \<Rightarrow> ''open'' | HALF_OPEN \<Rightarrow> ''half_open'')"

text \<open>The reservation at the start of a send; the state in the message is read a second time.\<close>

definition begin_send ::
  "breaker_config \<Rightarrow> rat \<Rightarrow> rat \<Rightarrow> breaker \<Rightarrow> (provider_error + unit) \<times> breaker"
where
  "begin_send cfg now now' b =
     (let (probe_allowed, b1) = allow_attempt cfg now b in
      if \<not> probe_allowed then
        let (st, b2) = breaker_state cfg now' b1 in
        (Inl (UpstreamUnavailable (''inference endpoint circuit breaker is '' @ circuit_name st)), b2)
      else (Inr (), b1))"

text \<open>The handlers and the \<open>finally\<close> block at its end.\<close>

definition end_send :: "breaker_config \<Rightarrow> rat \<Rightarrow> send_error + 'a \<Rightarrow> breaker \<Rightarrow> (provider_error + 'a) \<times> breaker" where
  "end_send cfg now outcome b =
     (case outcome of
        Inl e \<Rightarrow> if retryable e then (Inl (map_upstream_error e), release_probe (record_failure cfg now b))
                 else (Inl (map_upstream_error e), release_probe b)
      | Inr response \<Rightarrow> (Inr response, release_probe (record_success now b)))"

text \<open>A send that no other one overlaps, with the clock readings it makes.\<close>

definition resilient_send ::
  "breaker_config \<Rightarrow> resilience_settings \<Rightarrow> rat \<Rightarrow> rat \<Rightarrow> rat \<Rightarrow> (nat \<Rightarrow> send_error + 'a)
   \<Rightarrow> breaker \<Rightarrow> (provider_error + 'a) \<times> nat \<times> breaker"
where
  "resilient_send cfg settings t1 t2 t3 send b =
     (case begin_send cfg t1 t2 b of
        (Inl e, b1) \<Rightarrow> (Inl e, 0, b1)
      | (Inr _, b1) \<Rightarrow>
          (case with_retries send (rz_max_retries settings) (rz_backoff_base settings)
                  (rz_backoff_max settings) retryable of
             (outcome, attempts, _) \<Rightarrow>
               (case end_send cfg t3 outcome b1 of (res, b2) \<Rightarrow> (res, attempts, b2))))"

text \<open>An answer of 400 or more is an error that carries the upstream's body and headers.\<close>

definition raise_for_status :: "response \<Rightarrow> provider_error + response" where
  "raise_for_status response =
     (if rs_status response \<ge> 400 then
        Inl (UpstreamHTTPError
          \<lparr>he_status = rs_status response, he_body = rs_content response,
           he_content_type = (case get_header (rs_headers response) ''content-type'' of
                                None \<Rightarrow> ''application/json'' | Some v \<Rightarrow> v),
           he_headers = filter_response_headers False (rs_headers response)\<rparr>)
      else Inr response)"

definition send_buffered ::
  "breaker_config \<Rightarrow> resilience_settings \<Rightarrow> rat \<Rightarrow> rat \<Rightarrow> rat \<Rightarrow> (nat \<Rightarrow> send_error + response)
   \<Rightarrow> breaker \<Rightarrow> (provider_error + response) \<times> breaker"
where
  "send_buffered cfg settings t1 t2 t3 send b =
     (case resilient_send cfg settings t1 t2 t3 send b of
        (res, _, b1) \<Rightarrow> (bind_r res raise_for_status, b1))"

definition pack :: "response \<Rightarrow> int \<times> headers \<times> string" where
  "pack response = (rs_status response, filter_response_headers False (rs_headers response), rs_content response)"

definition complete ::
  "breaker_config \<Rightarrow> resilience_settings \<Rightarrow> rat \<Rightarrow> rat \<Rightarrow> rat \<Rightarrow> (nat \<Rightarrow> send_error + response)
   \<Rightarrow> breaker \<Rightarrow> (provider_error + (int \<times> headers \<times> string)) \<times> breaker"
where
  "complete cfg settings t1 t2 t3 send b =
     (case send_buffered cfg settings t1 t2 t3 send b of
        (res, b1) \<Rightarrow> (bind_r res (\<lambda>r. Inr (pack r)), b1))"

text \<open>An opened stream: the chunks still to come, and how often its connection was closed.\<close>

record llm_stream =
  ls_response :: response
  ls_chunks :: "string list"
  ls_closed :: bool
  ls_closes :: nat

definition open_stream ::
  "breaker_config \<Rightarrow> resilience_settings \<Rightarrow> rat \<Rightarrow> rat \<Rightarrow> rat \<Rightarrow> (nat \<Rightarrow> send_error + response)
   \<Rightarrow> (response \<Rightarrow> string list) \<Rightarrow> breaker \<Rightarrow> (provider_error + llm_stream) \<times> breaker"
where
  "open_stream cfg settings t1 t2 t3 send aiter_raw b =
     (case resilient_send cfg settings t1 t2 t3 send b of
        (res, _, b1) \<Rightarrow>
          (bind_r (bind_r res raise_for_status)
             (\<lambda>r. Inr \<lparr>ls_response = r, ls_chunks = aiter_raw r, ls_closed = False, ls_closes = 0\<rparr>), b1))"

definition stream_media_type :: "llm_stream \<Rightarrow> string" where
  "stream_media_type s =
     (case get_header (rs_headers (ls_response s)) ''content-type'' of
        None \<Rightarrow> ''text/event-stream''
      | Some v \<Rightarrow> if v = [] then ''text/event-stream'' else v)"

definition stream_headers :: "llm_stream \<Rightarrow> headers" where
  "stream_headers s = filter_response_headers True (rs_headers (ls_response s))"

definition stream_aclose :: "llm_stream \<Rightarrow> llm_stream" where
  "stream_aclose s = (if ls_closed s then s else s\<lparr>ls_closed := True, ls_closes := Suc (ls_closes s)\<rparr>)"

text \<open>
  Iterating: the consumer takes \<open>n\<close> chunks and then stops, by reaching the end or by being
  cancelled; the \<open>finally\<close> block closes the connection either way.
\<close>

definition stream_iter_bytes :: "nat \<Rightarrow> llm_stream \<Rightarrow> string list \<times> llm_stream" where
  "stream_iter_bytes n s = (take n (ls_chunks s), stream_aclose (s\<lparr>ls_chunks := drop n (ls_chunks s)\<rparr>))"

section \<open>Lemmas on the breaker\<close>

definition breaker_inv :: "breaker_config \<Rightarrow> breaker \<Rightarrow> bool" where
  "breaker_inv cfg b \<longleftrightarrow> (br_probe b \<longrightarrow> br_state b = HALF_OPEN)
     \<and> (br_state b = CLOSED \<longrightarrow> br_failures b < bc_threshold cfg)"

lemmas breaker_defs = current_state_def transition_def breaker_state_def allow_attempt_def
  record_success_def record_failure_def release_probe_def begin_send_def end_send_def Let_def

lemma begin_send_Inr:
  assumes "begin_send cfg now now' b = (Inr u, b')"
  shows "b' = snd (allow_attempt cfg now b) \<and> fst (allow_attempt cfg now b)
    \<and> (br_state b' = CLOSED \<and> b' = b \<or> br_state b' = HALF_OPEN \<and> br_probe b')"
  using assms
  by (auto simp: breaker_defs split: if_splits circuit.splits prod.splits)

lemma begin_send_inv: "breaker_inv cfg b \<Longrightarrow> breaker_inv cfg (snd (begin_send cfg now now' b))"
  by (auto simp: breaker_inv_def breaker_defs split: circuit.splits)

lemma begin_send_probe_Inl:
  "begin_send cfg now now' b = (Inl e, b') \<Longrightarrow> br_probe b' = br_probe b"
  by (auto simp: breaker_defs split: circuit.splits if_splits)

lemma end_send_inv:
  assumes "breaker_inv cfg b" "1 \<le> bc_threshold cfg"
  shows "breaker_inv cfg (snd (end_send cfg now outcome b)) \<and> \<not> br_probe (snd (end_send cfg now outcome b))"
  using assms by (auto simp: breaker_inv_def breaker_defs split: sum.split circuit.splits)

section \<open>Interleaved sends\<close>

record send_sys =
  ss_breaker :: breaker
  ss_now :: rat
  ss_plain :: nat
  ss_probes :: nat

definition send_start :: "breaker \<Rightarrow> send_sys" where
  "send_start b = \<lparr>ss_breaker = b, ss_now = 0, ss_plain = 0, ss_probes = 0\<rparr>"

text \<open>
  One event: time passes, a send is refused, a send starts (as a probe if the circuit is half
  open), or one in flight ends with some outcome.  With \<open>orderly\<close>, sends that started on a
  closed circuit do not end while it is half open.
\<close>

inductive send_step :: "bool \<Rightarrow> breaker_config \<Rightarrow> send_sys \<Rightarrow> send_sys \<Rightarrow> bool"
  for orderly :: bool and cfg :: breaker_config
where
  tick: "ss_now s \<le> now' \<Longrightarrow> send_step orderly cfg s (s\<lparr>ss_now := now'\<rparr>)"
| refused: "begin_send cfg (ss_now s) (ss_now s) (ss_breaker s) = (Inl e, b')
    \<Longrightarrow> send_step orderly cfg s (s\<lparr>ss_breaker := b'\<rparr>)"
| started_plain: "begin_send cfg (ss_now s) (ss_now s) (ss_breaker s) = (Inr (), b') \<Longrightarrow> br_state b' = CLOSED
    \<Longrightarrow> send_step orderly cfg s (s\<lparr>ss_breaker := b', ss_plain := Suc (ss_plain s)\<rparr>)"
| started_probe: "begin_send cfg (ss_now s) (ss_now s) (ss_breaker s) = (Inr (), b') \<Longrightarrow> br_state b' = HALF_OPEN
    \<Longrightarrow> send_step orderly cfg s (s\<lparr>ss_breaker := b', ss_probes := Suc (ss_probes s)\<rparr>)"
| ended_plain: "ss_plain s = Suc n \<Longrightarrow> (orderly \<longrightarrow> br_state (ss_breaker s) \<noteq> HALF_OPEN)
    \<Longrightarrow> end_send cfg (ss_now s) (outcome :: send_error + response) (ss_breaker s) = (res, b')
    \<Longrightarrow> send_step orderly cfg s (s\<lparr>ss_breaker := b', ss_plain := n\<rparr>)"
| ended_probe: "ss_probes s = Suc n \<Longrightarrow> end_send cfg (ss_now s) (outcome :: send_error + response) (ss_breaker s) = (res, b')
    \<Longrightarrow> send_step orderly cfg s (s\<lparr>ss_breaker := b', ss_probes := n\<rparr>)"

inductive_cases send_stepE: "send_step orderly cfg s s'"

abbreviation send_reachable :: "bool \<Rightarrow> breaker_config \<Rightarrow> breaker \<Rightarrow> send_sys \<Rightarrow> bool" where
  "send_reachable orderly cfg b \<equiv> (send_step orderly cfg)\<^sup>*\<^sup>* (send_start b)"

text \<open>A reserved probe belongs to a send in flight.\<close>

definition sys_inv :: "breaker_config \<Rightarrow> send_sys \<Rightarrow> bool" where
  "sys_inv cfg s \<longleftrightarrow> breaker_inv cfg (ss_breaker s) \<and> (br_probe (ss_breaker s) \<longrightarrow> 0 < ss_probes s)"

lemma send_step_inv:
  assumes "send_step orderly cfg s s'" "1 \<le> bc_threshold cfg" "sys_inv cfg s"
  shows "sys_inv cfg s'"
  using assms
proof (cases rule: send_step.cases)
  case (refused e b')
  with assms(3) begin_send_inv [of cfg "ss_breaker s" "ss_now s" "ss_now s"] begin_send_probe_Inl show ?thesis
    by (fastforce simp: sys_inv_def)
next
  case (started_plain b')
  with assms(3) begin_send_inv [of cfg "ss_breaker s" "ss_now s" "ss_now s"] show ?thesis
    by (auto simp: sys_inv_def breaker_inv_def)
next
  case (started_probe b')
  with assms(3) begin_send_inv [of cfg "ss_breaker s" "ss_now s" "ss_now s"] show ?thesis
    by (auto simp: sys_inv_def)
next
  case (ended_plain n outcome res b')
  with assms(2,3) end_send_inv [of cfg "ss_breaker s" "ss_now s" outcome] show ?thesis
    by (auto simp: sys_inv_def)
next
  case (ended_probe n outcome res b')
  with assms(2,3) end_send_inv [of cfg "ss_breaker s" "ss_now s" outcome] show ?thesis
    by (auto simp: sys_inv_def)
qed (auto simp: sys_inv_def)

text \<open>On orderly runs the reservation counts the probes exactly.\<close>

definition orderly_inv :: "breaker_config \<Rightarrow> send_sys \<Rightarrow> bool" where
  "orderly_inv cfg s \<longleftrightarrow> sys_inv cfg s \<and> ss_probes s = (if br_probe (ss_breaker s) then 1 else 0)"

lemma begin_send_free:
  "begin_send cfg now now' b = (Inr u, b') \<Longrightarrow> br_state b' = HALF_OPEN \<Longrightarrow> \<not> br_probe b"
  by (auto simp: breaker_defs split: circuit.splits if_splits)

lemma orderly_step_inv:
  assumes "send_step True cfg s s'" "1 \<le> bc_threshold cfg" "orderly_inv cfg s"
  shows "orderly_inv cfg s'"
proof -
  have inv: "sys_inv cfg s'" using send_step_inv [OF assms(1,2)] assms(3) by (simp add: orderly_inv_def)
  have sys: "breaker_inv cfg (ss_breaker s)" "ss_probes s = (if br_probe (ss_breaker s) then 1 else 0)"
    using assms(3) by (simp_all add: orderly_inv_def sys_inv_def)
  from assms(1) show ?thesis
  proof (cases rule: send_step.cases)
    case (refused e b')
    with inv sys begin_send_probe_Inl show ?thesis by (fastforce simp: orderly_inv_def)
  next
    case (started_plain b')
    with inv sys begin_send_Inr [of cfg "ss_now s" "ss_now s" "ss_breaker s"] show ?thesis
      by (auto simp: orderly_inv_def)
  next
    case (started_probe b')
    with inv sys begin_send_free begin_send_Inr [of cfg "ss_now s" "ss_now s" "ss_breaker s"] show ?thesis
      by (fastforce simp: orderly_inv_def)
  next
    case (ended_plain n outcome res b')
    with inv sys end_send_inv [OF sys(1) assms(2), of "ss_now s" outcome] show ?thesis
      by (auto simp: orderly_inv_def breaker_inv_def)
  next
    case (ended_probe n outcome res b')
    with inv sys end_send_inv [OF sys(1) assms(2), of "ss_now s" outcome] show ?thesis
      by (auto simp: orderly_inv_def split: if_splits)
  qed (use inv sys in \<open>auto simp: orderly_inv_def\<close>)
qed

lemma reachable_inv:
  assumes "CircuitBreaker_init n r = Inr (cfg, b)" "send_reachable orderly cfg b s"
  shows "sys_inv cfg s" and "orderly \<Longrightarrow> orderly_inv cfg s"
proof -
  have cfg: "1 \<le> bc_threshold cfg" and init: "orderly_inv cfg (send_start b)"
    using assms(1)
    by (auto simp: CircuitBreaker_init_def orderly_inv_def sys_inv_def breaker_inv_def send_start_def split: if_splits)
  show "sys_inv cfg s"
    using assms(2) by (induction rule: rtranclp_induct) (use init cfg in \<open>auto simp: orderly_inv_def intro: send_step_inv\<close>)
  assume orderly
  with assms(2) have "send_reachable True cfg b s" by simp
  then show "orderly_inv cfg s"
    by (induction rule: rtranclp_induct) (use init cfg in \<open>auto intro: orderly_step_inv\<close>)
qed

section \<open>Lemmas on retries and streams\<close>

lemma retry_loop_spec:
  assumes "retry_loop operation retry_on base cap a r = (res, n, delays)"
  shows "a < n \<and> n \<le> a + Suc r \<and> res = operation (n - 1)
    \<and> (\<forall>k. a \<le> k \<and> k < n - 1 \<longrightarrow> (\<exists>e. operation k = Inl e \<and> retry_on e))
    \<and> (\<forall>e. res = Inl e \<longrightarrow> retry_on e \<longrightarrow> n = a + Suc r)
    \<and> length delays = n - a - 1 \<and> (\<forall>d \<in> set delays. d \<le> cap)"
  using assms
proof (induction operation retry_on base cap a r arbitrary: res n delays rule: retry_loop.induct)
  case (1 operation retry_on base cap a r)
  note eq = retry_loop.simps [of operation retry_on base cap a r]
  show ?case
  proof (cases "operation a")
    case (Inr x)
    with 1(2) show ?thesis by (auto simp: eq)
  next
    case (Inl e)
    show ?thesis
    proof (cases "retry_on e \<and> r \<noteq> 0")
      case False
      with Inl 1(2) show ?thesis by (auto simp: eq split: if_splits)
    next
      case True
      then obtain r' where r: "r = Suc r'" "retry_on e" by (cases r) auto
      obtain res' n' ds where rec: "retry_loop operation retry_on base cap (Suc a) r' = (res', n', ds)"
        by (cases "retry_loop operation retry_on base cap (Suc a) r'")
      with Inl r 1(2) have res: "res = res'" "n = n'" "delays = min cap (base * 2 ^ a) # ds"
        by (simp_all add: retry_loop.simps [of operation retry_on base cap a "Suc r'"])
      have "\<not> \<not> retry_on e" using r(2) by simp
      note ih = 1(1) [OF Inl this r(1) rec, folded res(1,2)]
      then have bounds: "Suc a < n" "n \<le> Suc a + Suc r'" "res = operation (n - 1)" "length ds = n - Suc a - 1"
        and earlier: "\<forall>k. Suc a \<le> k \<and> k < n - 1 \<longrightarrow> (\<exists>e. operation k = Inl e \<and> retry_on e)"
        and last: "\<forall>e. res = Inl e \<longrightarrow> retry_on e \<longrightarrow> n = Suc a + Suc r'"
        and ds: "\<forall>d \<in> set ds. d \<le> cap" by iprover+
      have "\<exists>e. operation k = Inl e \<and> retry_on e" if "a \<le> k" "k < n - 1" for k
      proof (cases "k = a")
        case True
        then show ?thesis using Inl r(2) by simp
      next
        case False
        then show ?thesis using earlier that by simp
      qed
      then have earlier': "\<forall>k. a \<le> k \<and> k < n - 1 \<longrightarrow> (\<exists>e. operation k = Inl e \<and> retry_on e)" by iprover
      have "\<forall>d \<in> set delays. d \<le> cap" using ds by (simp add: res(3))
      moreover have "a < n" "n \<le> a + Suc r" "length delays = n - a - 1"
        using bounds(1,2,4) by (simp_all add: r(1) res(3))
      moreover have "\<forall>e. res = Inl e \<longrightarrow> retry_on e \<longrightarrow> n = a + Suc r" using last by (simp only: r(1) add_Suc_shift)
      ultimately show ?thesis using earlier' bounds(3) by iprover
    qed
  qed
qed

lemma stream_aclose_idem: "stream_aclose (stream_aclose s) = stream_aclose s"
  by (simp add: stream_aclose_def)

section \<open>Properties\<close>

text \<open>
  C12. Retries are bounded and never duplicate a delivered request: a send makes at most
  \<open>max_retries + 1\<close> attempts, and every attempt before the last failed to connect, so at most one attempt can
  have reached the provider.  The result is the answer of the last attempt, or its error as \<open>map_upstream_error\<close>
  translates it; the send gives up on a failure to connect only when the attempts are used up.  A send makes no
  attempt exactly when the circuit refuses it, and then fails as unavailable.
\<close>

theorem resilient_send_attempts:
  assumes "resilient_send cfg settings t1 t2 t3 send b = (res, n, b')"
  shows "n \<le> Suc (rz_max_retries settings)
    \<and> (\<forall>k. Suc k < n \<longrightarrow> (\<exists>e. send k = Inl e \<and> retryable e))
    \<and> (0 < n \<longrightarrow> res = (case send (n - 1) of Inl e \<Rightarrow> Inl (map_upstream_error e) | Inr x \<Rightarrow> Inr x))
    \<and> (0 < n \<and> (\<exists>e. send (n - 1) = Inl e \<and> retryable e) \<longrightarrow> n = Suc (rz_max_retries settings))
    \<and> (n = 0 \<longrightarrow> (\<exists>m. res = Inl (UpstreamUnavailable m)))
    \<and> (n = 0 \<longleftrightarrow> (\<exists>e. fst (begin_send cfg t1 t2 b) = Inl e))"
proof (cases "begin_send cfg t1 t2 b")
  case (Pair r b1)
  show ?thesis
  proof (cases r)
    case (Inl e)
    with Pair assms have "n = 0" "res = Inl e" by (auto simp: resilient_send_def)
    moreover have "\<exists>m. e = UpstreamUnavailable m"
      using Pair Inl by (auto simp: begin_send_def Let_def split: prod.splits if_splits)
    ultimately show ?thesis using Pair Inl by simp
  next
    case (Inr u)
    obtain outcome m ds where w: "with_retries send (rz_max_retries settings) (rz_backoff_base settings)
        (rz_backoff_max settings) retryable = (outcome, m, ds)" by (metis prod_cases3)
    then have n: "n = m" and res: "res = fst (end_send cfg t3 outcome b1)"
      using Pair Inr assms by (auto simp: resilient_send_def split: prod.splits)
    from retry_loop_spec [OF w [unfolded with_retries_def]]
    have m: "0 < m" "m \<le> Suc (rz_max_retries settings)" "outcome = send (m - 1)"
      and earlier: "\<forall>k. 0 \<le> k \<and> k < m - 1 \<longrightarrow> (\<exists>e. send k = Inl e \<and> retryable e)"
      and used_up: "\<forall>e. outcome = Inl e \<longrightarrow> retryable e \<longrightarrow> m = Suc (rz_max_retries settings)"
      unfolding add_0 by iprover+
    have "\<forall>k. Suc k < n \<longrightarrow> (\<exists>e. send k = Inl e \<and> retryable e)" using earlier n by simp
    moreover have "res = (case send (n - 1) of Inl e \<Rightarrow> Inl (map_upstream_error e) | Inr x \<Rightarrow> Inr x)"
      unfolding res n m(3) [symmetric] by (auto simp: end_send_def split: sum.split)
    moreover have "(\<exists>e. send (n - 1) = Inl e \<and> retryable e) \<longrightarrow> n = Suc (rz_max_retries settings)"
      using used_up n m(3) by auto
    moreover have "fst (begin_send cfg t1 t2 b) \<noteq> Inl e" for e using Pair Inr by simp
    ultimately show ?thesis using m(1,2) n by simp
  qed
qed

definition demo_settings :: resilience_settings where
  "demo_settings = \<lparr>rz_max_retries = 2, rz_backoff_base = 1, rz_backoff_max = 4\<rparr>"

definition demo_breaker_cfg :: breaker_config where
  "demo_breaker_cfg = \<lparr>bc_threshold = 1, bc_reset_seconds = 30\<rparr>"

definition demo_breaker :: breaker where
  "demo_breaker = \<lparr>br_state = CLOSED, br_failures = 0, br_opened_at = 0, br_probe = False\<rparr>"

lemma demo_breaker_init: "CircuitBreaker_init 1 30 = Inr (demo_breaker_cfg, demo_breaker)"
  by (simp add: CircuitBreaker_init_def demo_breaker_cfg_def demo_breaker_def)

definition flaky :: "nat \<Rightarrow> send_error + string" where
  "flaky k = (if k = 0 then Inl (ConnectError ''refused'') else Inr ''pong'')"

theorem resilient_send_attempts_witness:
  "fst (snd (resilient_send demo_breaker_cfg demo_settings 0 0 0 flaky demo_breaker)) = 2
   \<and> fst (resilient_send demo_breaker_cfg demo_settings 0 0 0 flaky demo_breaker) = Inr ''pong''"
proof -
  have n: "fst (snd (resilient_send demo_breaker_cfg demo_settings 0 0 0 flaky demo_breaker)) = 2" by code_simp
  obtain res b' where run: "resilient_send demo_breaker_cfg demo_settings 0 0 0 flaky demo_breaker = (res, 2, b')"
    using n by (metis prod.collapse)
  from resilient_send_attempts [OF run] have "res = Inr ''pong''" by (simp add: flaky_def)
  with run show ?thesis by simp
qed

text \<open>A run with an outage: two sends start, one fails to connect and opens the circuit, the other is still in flight.\<close>

abbreviation demo_sys :: "circuit \<Rightarrow> nat \<Rightarrow> bool \<Rightarrow> rat \<Rightarrow> nat \<Rightarrow> nat \<Rightarrow> send_sys" where
  "demo_sys st f p now plain probes \<equiv>
     \<lparr>ss_breaker = \<lparr>br_state = st, br_failures = f, br_opened_at = 0, br_probe = p\<rparr>, ss_now = now, ss_plain = plain, ss_probes = probes\<rparr>"

lemmas demo_run_defs = breaker_defs demo_breaker_cfg_def demo_breaker_def send_start_def retryable_def eval_nat_numeral

lemma demo_outage: "send_reachable orderly demo_breaker_cfg demo_breaker (demo_sys OPEN 1 False 0 1 0)"
proof -
  let ?R = "send_step orderly demo_breaker_cfg"
  have "?R (send_start demo_breaker) (demo_sys CLOSED 0 False 0 1 0)"
    using send_step.started_plain [of demo_breaker_cfg "send_start demo_breaker" demo_breaker orderly] by (simp add: demo_run_defs)
  moreover have "?R (demo_sys CLOSED 0 False 0 1 0) (demo_sys CLOSED 0 False 0 2 0)"
    using send_step.started_plain [of demo_breaker_cfg "demo_sys CLOSED 0 False 0 1 0" demo_breaker orderly] by (simp add: demo_run_defs)
  moreover have "?R (demo_sys CLOSED 0 False 0 2 0) (demo_sys OPEN 1 False 0 1 0)"
    using send_step.ended_plain [of "demo_sys CLOSED 0 False 0 2 0" 1 orderly demo_breaker_cfg "Inl (ConnectError [])"]
    by (simp add: demo_run_defs)
  ultimately show ?thesis by (meson converse_rtranclp_into_rtranclp rtranclp.rtrancl_refl)
qed

text \<open>
  C28. The breaker cannot stay pinned: in every reachable state in which no probe is in
  flight, the circuit admits the next send as soon as \<open>reset_seconds\<close> have passed since it
  opened, whatever the earlier sends ended with, cancellations included.
\<close>

theorem breaker_not_pinned:
  assumes "CircuitBreaker_init n r = Inr (cfg, b)" "send_reachable False cfg b s" "ss_probes s = 0"
    and "br_opened_at (ss_breaker s) + bc_reset_seconds cfg \<le> now"
  shows "fst (begin_send cfg now now' (ss_breaker s)) = Inr ()"
proof -
  have "\<not> br_probe (ss_breaker s)" using reachable_inv(1) [OF assms(1,2)] assms(3) by (simp add: sys_inv_def)
  with assms(4) show ?thesis by (auto simp: breaker_defs split: circuit.split)
qed

theorem breaker_not_pinned_witness:
  "fst (begin_send demo_breaker_cfg 30 30 (ss_breaker (demo_sys OPEN 1 False 0 1 0))) = Inr ()"
  by (rule breaker_not_pinned [OF demo_breaker_init demo_outage [of False]]) (simp_all add: demo_breaker_cfg_def)

text \<open>
  C29. The probe is exclusive as long as no send that started on a closed circuit ends while the circuit is half
  open; it may end while the circuit is still closed, open, or closed again.  On such runs at most one probe is in
  flight, and while it is, every other send is refused.
\<close>

theorem breaker_single_probe:
  assumes "CircuitBreaker_init n r = Inr (cfg, b)" "send_reachable True cfg b s"
  shows "ss_probes s \<le> 1 \<and> (ss_probes s = 1 \<longrightarrow> (\<exists>e. fst (begin_send cfg now now' (ss_breaker s)) = Inl e))"
proof -
  have inv: "orderly_inv cfg s" using reachable_inv(2) [OF assms(1,2)] by simp
  then have "ss_probes s = 1 \<longrightarrow> br_probe (ss_breaker s) \<and> br_state (ss_breaker s) = HALF_OPEN"
    by (auto simp: orderly_inv_def sys_inv_def breaker_inv_def split: if_splits)
  with inv show ?thesis by (auto simp: orderly_inv_def breaker_defs)
qed

theorem breaker_single_probe_witness:
  "\<exists>s e. send_reachable True demo_breaker_cfg demo_breaker s \<and> ss_probes s = 1
     \<and> fst (begin_send demo_breaker_cfg 30 30 (ss_breaker s)) = Inl e"
proof -
  let ?R = "send_step True demo_breaker_cfg"
  have "?R (demo_sys OPEN 1 False 0 1 0) (demo_sys OPEN 1 False 0 0 0)"
    using send_step.ended_plain [of "demo_sys OPEN 1 False 0 1 0" 0 True demo_breaker_cfg "Inl (OtherTimeout [])"]
    by (simp add: demo_run_defs)
  moreover have "?R (demo_sys OPEN 1 False 0 0 0) (demo_sys OPEN 1 False 30 0 0)"
    using send_step.tick [of "demo_sys OPEN 1 False 0 0 0" 30] by simp
  moreover have "?R (demo_sys OPEN 1 False 30 0 0) (demo_sys HALF_OPEN 1 True 30 0 1)"
    using send_step.started_probe [of demo_breaker_cfg "demo_sys OPEN 1 False 30 0 0" _ True] by (simp add: demo_run_defs)
  ultimately have run: "send_reachable True demo_breaker_cfg demo_breaker (demo_sys HALF_OPEN 1 True 30 0 1)"
    using demo_outage [of True] by (meson rtranclp.rtrancl_into_rtrancl)
  from breaker_single_probe [OF demo_breaker_init this, of 30 30] run show ?thesis by fastforce
qed

text \<open>
  C30. In general the contract of one concurrent probe does not hold: a send from before the circuit
  opened that ends during the probe clears its reservation, and a second probe starts beside it.
\<close>

theorem breaker_two_probes:
  "\<exists>s. send_reachable False demo_breaker_cfg demo_breaker s \<and> ss_probes s = 2"
proof -
  let ?R = "send_step False demo_breaker_cfg"
  have "?R (demo_sys OPEN 1 False 0 1 0) (demo_sys OPEN 1 False 30 1 0)"
    using send_step.tick [of "demo_sys OPEN 1 False 0 1 0" 30] by simp
  moreover have "?R (demo_sys OPEN 1 False 30 1 0) (demo_sys HALF_OPEN 1 True 30 1 1)"
    using send_step.started_probe [of demo_breaker_cfg "demo_sys OPEN 1 False 30 1 0" _ False] by (simp add: demo_run_defs)
  moreover have "?R (demo_sys HALF_OPEN 1 True 30 1 1) (demo_sys HALF_OPEN 1 False 30 0 1)"
    using send_step.ended_plain [of "demo_sys HALF_OPEN 1 True 30 1 1" 0 False demo_breaker_cfg "Inl (OtherTimeout [])"]
    by (simp add: demo_run_defs)
  moreover have "?R (demo_sys HALF_OPEN 1 False 30 0 1) (demo_sys HALF_OPEN 1 True 30 0 2)"
    using send_step.started_probe [of demo_breaker_cfg "demo_sys HALF_OPEN 1 False 30 0 1" _ False] by (simp add: demo_run_defs)
  ultimately have "send_reachable False demo_breaker_cfg demo_breaker (demo_sys HALF_OPEN 1 True 30 0 2)"
    using demo_outage [of False] by (meson rtranclp.rtrancl_into_rtrancl)
  then show ?thesis by (intro exI conjI) auto
qed

end
