(* ===== verification/JsonParse.thy ===== *)
theory JsonParse
  imports PyJson
begin

text \<open>
  \<open>json.loads\<close> on a \<open>str\<close>, which the chunk normaliser and the response capture use.  A document
  that is not JSON is a \<open>JSONDecodeError\<close>, a \<open>ValueError\<close> whose text the program never reads.
  Three inputs give the distinguished error \<open>Unmodelled\<close>, because their value is not a \<open>json\<close> of
  the model: a \<^verbatim>\<open>\u\<close> escape above 255, the constants NaN and Infinity, and a float literal that
  is a negative zero, has more than 15 significant digits, or lies outside \<open>10^-300 .. 10^300\<close>
  (within these bounds a decimal and its nearest double determine each other).

  The scanner recurses on a fuel argument; \<open>json_loads\<close> starts it with one more than twice the length of the
  text, which \<open>parse_fuel_enough\<close> shows never runs out.  The main result is the round trip
  \<open>json_loads (json.dumps v) = v\<close>.
\<close>

section \<open>Model\<close>

definition JSONDecodeError :: pyerr where
  "JSONDecodeError = ValueError ''JSONDecodeError''"

definition json_ws :: "char \<Rightarrow> bool" where
  "json_ws c = (c \<in> {CHR 0x20, CHR 0x09, CHR 0x0A, CHR 0x0D})"

definition skip_ws :: "string \<Rightarrow> string" where
  "skip_ws s = dropWhile json_ws s"

definition is_digit :: "char \<Rightarrow> bool" where
  "is_digit c = (48 \<le> (of_char c :: nat) \<and> (of_char c :: nat) \<le> 57)"

definition digits_val :: "string \<Rightarrow> nat" where
  "digits_val ds = foldl (\<lambda>a c. 10 * a + (of_char c - 48)) 0 ds"

text \<open>\<open>int\<close> refuses more than 4300 digits with a \<open>ValueError\<close>.\<close>

definition int_literal :: "bool \<Rightarrow> string \<Rightarrow> json result" where
  "int_literal neg ds =
     (if 4300 < length ds then Inl JSONDecodeError
      else Inr (JInt (if neg then - int (digits_val ds) else int (digits_val ds))))"

function strip_zeros :: "nat \<Rightarrow> int \<Rightarrow> nat \<times> int" where
  "strip_zeros m e = (if m \<noteq> 0 \<and> m mod 10 = 0 then strip_zeros (m div 10) (e + 1) else (m, e))"
  by pat_completeness auto
termination
  by (relation "measure fst") auto

declare strip_zeros.simps [simp del]

definition float_in_range :: "nat \<Rightarrow> int \<Rightarrow> bool" where
  "float_in_range m e =
     (let n = int (length (nat_digits m)) in n \<le> 15 \<and> - 300 \<le> n + e \<and> n + e \<le> 300)"

definition float_literal :: "bool \<Rightarrow> nat \<Rightarrow> int \<Rightarrow> json result" where
  "float_literal neg m e =
     (if m = 0 then (if neg then Inl Unmodelled else Inr (JFloat 0 0))
      else case strip_zeros m e of (m', e') \<Rightarrow>
        if float_in_range m' e' then Inr (JFloat (if neg then - int m' else int m') e')
        else Inl Unmodelled)"

text \<open>The optional parts of \<^verbatim>\<open>(-?(?:0|[1-9]\d*))(\.\d+)?([eE][-+]?\d+)?\<close>.\<close>

definition scan_sign :: "string \<Rightarrow> bool \<times> string" where
  "scan_sign s = (case s of c # r \<Rightarrow> if c = CHR ''-'' then (True, r) else (False, s) | [] \<Rightarrow> (False, s))"

definition scan_int :: "string \<Rightarrow> string \<times> string" where
  "scan_int s =
     (case s of c # r \<Rightarrow> if c = CHR ''0'' then ([c], r) else (takeWhile is_digit s, dropWhile is_digit s)
      | [] \<Rightarrow> ([], []))"

definition scan_frac :: "string \<Rightarrow> string \<times> string" where
  "scan_frac s =
     (case s of c # r \<Rightarrow>
        if c = CHR ''.'' \<and> takeWhile is_digit r \<noteq> [] then (takeWhile is_digit r, dropWhile is_digit r)
        else ([], s)
      | [] \<Rightarrow> ([], s))"

definition scan_exp_sign :: "string \<Rightarrow> bool \<times> string" where
  "scan_exp_sign s =
     (case s of c # r \<Rightarrow>
        if c = CHR ''-'' then (True, r) else if c = CHR ''+'' then (False, r) else (False, s)
      | [] \<Rightarrow> (False, s))"

definition scan_exp :: "string \<Rightarrow> int option \<times> string" where
  "scan_exp s =
     (case s of c # r \<Rightarrow>
        (if c = CHR ''e'' \<or> c = CHR ''E'' then
           (case scan_exp_sign r of (neg, r') \<Rightarrow>
              let ds = takeWhile is_digit r' in
              if ds = [] then (None, s)
              else (Some (if neg then - int (digits_val ds) else int (digits_val ds)), dropWhile is_digit r'))
         else (None, s))
      | [] \<Rightarrow> (None, s))"

definition parse_number :: "string \<Rightarrow> (json \<times> string) result" where
  "parse_number s =
     (case scan_sign s of (neg, s1) \<Rightarrow>
      case scan_int s1 of (ds, s2) \<Rightarrow>
      if ds = [] then Inl JSONDecodeError
      else
      case scan_frac s2 of (fs, s3) \<Rightarrow>
      case scan_exp s3 of (ex, s4) \<Rightarrow>
      bind_r (if fs = [] \<and> ex = None then int_literal neg ds
              else float_literal neg (digits_val (ds @ fs))
                     ((case ex of None \<Rightarrow> 0 | Some x \<Rightarrow> x) - int (length fs)))
        (\<lambda>v. Inr (v, s4)))"

definition hex_val :: "char \<Rightarrow> nat option" where
  "hex_val c =
     (let n = (of_char c :: nat) in
      if 48 \<le> n \<and> n \<le> 57 then Some (n - 48)
      else if 97 \<le> n \<and> n \<le> 102 then Some (n - 87)
      else if 65 \<le> n \<and> n \<le> 70 then Some (n - 55)
      else None)"

definition unicode_escape :: "string \<Rightarrow> (char \<times> string) result" where
  "unicode_escape s =
     (case s of
        a # b # c # d # r \<Rightarrow>
          (case (hex_val a, hex_val b, hex_val c, hex_val d) of
             (Some i, Some j, Some k, Some l) \<Rightarrow>
               if i = 0 \<and> j = 0 then Inr (char_of (16 * k + l), r) else Inl Unmodelled
           | _ \<Rightarrow> Inl JSONDecodeError)
      | _ \<Rightarrow> Inl JSONDecodeError)"

text \<open>The character after a backslash.\<close>

definition unescape :: "string \<Rightarrow> (char \<times> string) result" where
  "unescape s =
     (case s of
        [] \<Rightarrow> Inl JSONDecodeError
      | c # r \<Rightarrow>
          if c = CHR 0x22 \<or> c = CHR 0x5C \<or> c = CHR ''/'' then Inr (c, r)
          else if c = CHR ''b'' then Inr (CHR 0x08, r)
          else if c = CHR ''f'' then Inr (CHR 0x0C, r)
          else if c = CHR ''n'' then Inr (CHR 0x0A, r)
          else if c = CHR ''r'' then Inr (CHR 0x0D, r)
          else if c = CHR ''t'' then Inr (CHR 0x09, r)
          else if c = CHR ''u'' then unicode_escape r
          else Inl JSONDecodeError)"

lemma unescape_shorter: "unescape s = Inr (c, r) \<Longrightarrow> length r < length s"
  by (auto simp: unescape_def unicode_escape_def split: list.splits option.splits if_splits)

text \<open>The rest of a string literal, after its opening quote.\<close>

function parse_chars :: "string \<Rightarrow> (string \<times> string) result" where
  "parse_chars [] = Inl JSONDecodeError"
| "parse_chars (c # s) =
     (if c = CHR 0x22 then Inr ([], s)
      else if c = CHR 0x5C then
        bind_r (unescape s) (\<lambda>x. bind_r (parse_chars (snd x)) (\<lambda>(t, r). Inr (fst x # t, r)))
      else if (of_char c :: nat) < 32 then Inl JSONDecodeError
      else bind_r (parse_chars s) (\<lambda>(t, r). Inr (c # t, r)))"
  by pat_completeness auto
termination
  by (relation "measure length") (auto dest: unescape_shorter)

definition out_of_fuel :: pyerr where
  "out_of_fuel = RuntimeError ''fuel''"

fun parse_value :: "nat \<Rightarrow> string \<Rightarrow> (json \<times> string) result"
  and parse_elems :: "nat \<Rightarrow> string \<Rightarrow> (json list \<times> string) result"
  and parse_members :: "nat \<Rightarrow> pydict \<Rightarrow> string \<Rightarrow> (pydict \<times> string) result"
where
  "parse_value 0 s = Inl out_of_fuel"
| "parse_value (Suc n) s =
     (case s of
        [] \<Rightarrow> Inl JSONDecodeError
      | c # r \<Rightarrow>
          if c = CHR 0x22 then bind_r (parse_chars r) (\<lambda>(t, r'). Inr (JStr t, r'))
          else if c = CHR ''['' then
            (if take 1 (skip_ws r) = '']'' then Inr (JArr [], drop 1 (skip_ws r))
             else bind_r (parse_elems n (skip_ws r)) (\<lambda>(vs, r'). Inr (JArr vs, r')))
          else if c = CHR 0x7B then
            (if take 1 (skip_ws r) = [CHR 0x7D] then Inr (JObj [], drop 1 (skip_ws r))
             else bind_r (parse_members n [] (skip_ws r)) (\<lambda>(d, r'). Inr (JObj d, r')))
          else if starts_with ''null'' s then Inr (JNull, drop 4 s)
          else if starts_with ''true'' s then Inr (JBool True, drop 4 s)
          else if starts_with ''false'' s then Inr (JBool False, drop 5 s)
          else if starts_with ''NaN'' s \<or> starts_with ''Infinity'' s \<or> starts_with ''-Infinity'' s
          then Inl Unmodelled
          else parse_number s)"
| "parse_elems 0 s = Inl out_of_fuel"
| "parse_elems (Suc n) s =
     bind_r (parse_value n s) (\<lambda>(v, r).
       case skip_ws r of
         [] \<Rightarrow> Inl JSONDecodeError
       | c # r' \<Rightarrow>
           if c = CHR '']'' then Inr ([v], r')
           else if c = CHR '','' then bind_r (parse_elems n (skip_ws r')) (\<lambda>(vs, r''). Inr (v # vs, r''))
           else Inl JSONDecodeError)"
| "parse_members 0 d s = Inl out_of_fuel"
| "parse_members (Suc n) d s =
     (if take 1 s \<noteq> [CHR 0x22] then Inl JSONDecodeError
      else bind_r (parse_chars (drop 1 s)) (\<lambda>(k, r).
        if take 1 (skip_ws r) \<noteq> '':'' then Inl JSONDecodeError
        else bind_r (parse_value n (skip_ws (drop 1 (skip_ws r)))) (\<lambda>(v, r1).
          case skip_ws r1 of
            [] \<Rightarrow> Inl JSONDecodeError
          | c # r2 \<Rightarrow>
              if c = CHR 0x7D then Inr (dset k v d, r2)
              else if c = CHR '','' then parse_members n (dset k v d) (skip_ws r2)
              else Inl JSONDecodeError)))"

definition json_loads :: "string \<Rightarrow> json result" where
  "json_loads s =
     bind_r (parse_value (2 * length s + 1) (skip_ws s)) (\<lambda>(v, r).
       if skip_ws r = [] then Inr v else Inl JSONDecodeError)"


section \<open>Numerals\<close>

lemma digit_char [simp]: "(n::nat) < 10 \<Longrightarrow> is_digit (char_of (48 + n))"
  by (simp add: is_digit_def of_char_of)

lemma nat_digits_props:
  "set (nat_digits n) \<subseteq> Collect is_digit" "nat_digits n \<noteq> []"
  by (induction n rule: nat_digits.induct; simp add: nat_digits.simps [of n for n])+

lemma digits_val_snoc: "digits_val (ds @ [c]) = 10 * digits_val ds + (of_char c - 48)"
  by (simp add: digits_val_def)

lemma digits_val_nat_digits: "digits_val (nat_digits n) = n"
proof (induction n rule: nat_digits.induct)
  case (1 n)
  show ?case
  proof (cases "n < 10")
    case True
    then show ?thesis by (simp add: nat_digits.simps [of n] digits_val_def of_char_of)
  next
    case False
    then show ?thesis
      using 1 by (simp add: nat_digits.simps [of n] digits_val_snoc of_char_of)
  qed
qed

lemma hd_nat_digits: "0 < n \<Longrightarrow> hd (nat_digits n) \<noteq> CHR ''0''"
proof (induction n rule: nat_digits.induct)
  case (1 n)
  show ?case
  proof (cases "n < 10")
    case True
    have "char_of (48 + n) \<noteq> CHR ''0''"
    proof
      assume "char_of (48 + n) = CHR ''0''"
      then have "of_char (char_of (48 + n)) = (of_char (CHR ''0'') :: nat)" by simp
      with True 1 show False by (simp add: of_char_of)
    qed
    with True show ?thesis by (simp add: nat_digits.simps [of n])
  next
    case False
    with 1 show ?thesis by (simp add: nat_digits.simps [of n] nat_digits_props)
  qed
qed

text \<open>What may follow a number without being read as part of it.\<close>

definition closes_number :: "string \<Rightarrow> bool" where
  "closes_number s =
     (s = [] \<or> \<not> is_digit (hd s) \<and> hd s \<noteq> CHR ''.'' \<and> hd s \<noteq> CHR ''e'' \<and> hd s \<noteq> CHR ''E'')"

lemma takeWhile_digits:
  assumes "set ds \<subseteq> Collect is_digit" "s = [] \<or> \<not> is_digit (hd s)"
  shows "takeWhile is_digit (ds @ s) = ds" "dropWhile is_digit (ds @ s) = s"
proof -
  have "takeWhile is_digit s = []" "dropWhile is_digit s = s"
    using assms(2) by (cases s; simp)+
  then show "takeWhile is_digit (ds @ s) = ds" "dropWhile is_digit (ds @ s) = s"
    using assms(1) by (auto simp: subset_iff takeWhile_append dropWhile_append)
qed

lemma scan_int_digits:
  assumes "set ds \<subseteq> Collect is_digit" "ds \<noteq> []" "s = [] \<or> \<not> is_digit (hd s)"
    and "hd ds = CHR ''0'' \<longrightarrow> ds = ''0''"
  shows "scan_int (ds @ s) = (ds, s)"
  using assms takeWhile_digits [OF assms(1,3)] by (cases ds) (auto simp: scan_int_def)

lemma scan_frac_digits:
  assumes "set fs \<subseteq> Collect is_digit" "fs \<noteq> []" "s = [] \<or> \<not> is_digit (hd s)"
  shows "scan_frac (''.'' @ fs @ s) = (fs, s)"
  using takeWhile_digits [OF assms(1,3)] assms(2) by (simp add: scan_frac_def)

lemma scan_frac_none: "s = [] \<or> hd s \<noteq> CHR ''.'' \<Longrightarrow> scan_frac s = ([], s)"
  by (cases s) (auto simp: scan_frac_def)

lemma scan_exp_none: "s = [] \<or> hd s \<noteq> CHR ''e'' \<and> hd s \<noteq> CHR ''E'' \<Longrightarrow> scan_exp s = (None, s)"
  by (cases s) (auto simp: scan_exp_def)

lemma scan_exp_digits:
  assumes "set ds \<subseteq> Collect is_digit" "ds \<noteq> []" "s = [] \<or> \<not> is_digit (hd s)"
  shows "scan_exp (''e'' @ (if neg then ''-'' else ''+'') @ ds @ s) =
    (Some (if neg then - int (digits_val ds) else int (digits_val ds)), s)"
  using takeWhile_digits [OF assms(1,3)] assms(2) by (simp add: scan_exp_def scan_exp_sign_def)

lemma scan_sign_digits:
  assumes "set ds \<subseteq> Collect is_digit" "ds \<noteq> []"
  shows "scan_sign ((if neg then ''-'' else []) @ ds @ s) = (neg, ds @ s)"
  using assms by (cases ds) (auto simp: scan_sign_def is_digit_def)

lemma parse_number_spec:
  assumes ds: "set ds \<subseteq> Collect is_digit" "ds \<noteq> []" "hd ds = CHR ''0'' \<longrightarrow> ds = ''0''"
    and s2: "t = [] \<or> \<not> is_digit (hd t)" and "scan_frac t = (fs, u)" "scan_exp u = (ex, w)"
  shows "parse_number ((if neg then ''-'' else []) @ ds @ t) =
    bind_r (if fs = [] \<and> ex = None then int_literal neg ds
            else float_literal neg (digits_val (ds @ fs)) ((case ex of None \<Rightarrow> 0 | Some x \<Rightarrow> x) - int (length fs)))
      (\<lambda>v. Inr (v, w))"
  using assms(2,5,6) scan_sign_digits [OF ds(1,2), of neg t] scan_int_digits [OF ds(1,2) s2 ds(3)]
  by (simp add: parse_number_def)

lemma nat_digits_hd_zero: "hd (nat_digits n) = CHR ''0'' \<longrightarrow> nat_digits n = ''0''"
  using hd_nat_digits [of n] by (cases "n = 0") (auto simp: nat_digits.simps [of 0])

lemma int_str_parts: "int_str i = (if i < 0 then ''-'' else []) @ nat_digits (nat \<bar>i\<bar>)"
  by (simp add: int_str_def)

lemma parse_int_str:
  assumes "closes_number s" "length (nat_digits (nat \<bar>i\<bar>)) \<le> 4300"
  shows "parse_number (int_str i @ s) = Inr (JInt i, s)"
proof -
  have "parse_number ((if i < 0 then ''-'' else []) @ nat_digits (nat \<bar>i\<bar>) @ s) =
      bind_r (int_literal (i < 0) (nat_digits (nat \<bar>i\<bar>))) (\<lambda>v. Inr (v, s))"
    using assms(1)
    by (subst parse_number_spec [OF nat_digits_props nat_digits_hd_zero, where fs = "[]" and ex = None and u = s and w = s])
      (auto simp: closes_number_def scan_frac_none scan_exp_none)
  then show ?thesis
    using assms(2) by (simp add: int_str_parts int_literal_def digits_val_nat_digits)
qed


section \<open>Floats\<close>

lemma strip_zeros_done: "m mod 10 \<noteq> 0 \<Longrightarrow> strip_zeros m e = (m, e)"
  by (simp add: strip_zeros.simps)

lemma strip_zeros_power: "m mod 10 \<noteq> 0 \<Longrightarrow> strip_zeros (m * 10 ^ k) e = (m, e + int k)"
proof (induction k arbitrary: e)
  case (Suc k)
  have "0 < m" using Suc.prems by (cases m) auto
  then have "strip_zeros (m * 10 ^ Suc k) e = strip_zeros (m * 10 ^ k) (e + 1)"
    by (subst strip_zeros.simps) simp
  with Suc show ?case by simp
qed (simp add: strip_zeros_done)

lemma digits_val_append: "digits_val (ds @ es) = digits_val ds * 10 ^ length es + digits_val es"
proof (induction es rule: rev_induct)
  case (snoc c es)
  then show ?case using digits_val_snoc [of "ds @ es" c] by (simp add: digits_val_snoc algebra_simps)
qed (simp add: digits_val_def)

lemma digits_val_simps [simp]: "digits_val [] = 0" "digits_val (CHR ''0'' # ds) = digits_val ds"
  by (simp_all add: digits_val_def)

lemma zeros_digits [simp]: "set (zeros n) \<subseteq> Collect is_digit"
  by (auto simp: zeros_def is_digit_def)

lemma digits_val_zeros [simp]: "digits_val (zeros n) = 0"
proof -
  have "foldl (\<lambda>a c. 10 * a + (of_char c - 48)) 0 (replicate k (CHR ''0'')) = (0 :: nat)" for k
    by (induction k) auto
  then show ?thesis by (simp add: digits_val_def zeros_def)
qed

definition float_ok :: "int \<Rightarrow> int \<Rightarrow> bool" where
  "float_ok m e =
     (if m = 0 then e = 0 else nat \<bar>m\<bar> mod 10 \<noteq> 0 \<and> float_in_range (nat \<bar>m\<bar>) e)"

lemma float_literal_ok:
  assumes "float_ok m e" "m \<noteq> 0"
  shows "float_literal (m < 0) (nat \<bar>m\<bar> * 10 ^ k) (e - int k) = Inr (JFloat m e)"
  using assms strip_zeros_power [of "nat \<bar>m\<bar>" k "e - int k"]
  by (simp add: float_literal_def float_ok_def)

lemma parse_decimal:
  assumes "set ds \<subseteq> Collect is_digit" "ds \<noteq> []" "hd ds = CHR ''0'' \<longrightarrow> ds = ''0''"
    and "set fs \<subseteq> Collect is_digit" "fs \<noteq> []" "closes_number s"
    and "float_literal neg (digits_val (ds @ fs)) (- int (length fs)) = Inr v"
  shows "parse_number ((if neg then ''-'' else []) @ ds @ ''.'' @ fs @ s) = Inr (v, s)"
  using assms
  by (subst parse_number_spec [OF assms(1,2,3), where fs = fs and ex = None and u = s and w = s])
    (auto simp: closes_number_def scan_exp_none is_digit_def intro!: scan_frac_digits [simplified])

lemma parse_scientific:
  assumes "set ds \<subseteq> Collect is_digit" "ds \<noteq> []" "hd ds = CHR ''0'' \<longrightarrow> ds = ''0''"
    and "set fs \<subseteq> Collect is_digit" "set es \<subseteq> Collect is_digit" "es \<noteq> []" "closes_number s"
    and "float_literal neg (digits_val (ds @ fs))
      ((if eneg then - int (digits_val es) else int (digits_val es)) - int (length fs)) = Inr v"
  shows "parse_number ((if neg then ''-'' else []) @ ds @ (if fs = [] then [] else ''.'' @ fs)
      @ ''e'' @ (if eneg then ''-'' else ''+'') @ es @ s) = Inr (v, s)"
proof -
  let ?ex = "''e'' @ (if eneg then ''-'' else ''+'') @ es @ s"
  have "scan_frac ((if fs = [] then [] else ''.'' @ fs) @ ?ex) = (fs, ?ex)"
    using scan_frac_digits [OF assms(4), of ?ex]
    by (simp add: scan_frac_none is_digit_def del: append_Cons append_Nil) (simp add: scan_frac_none is_digit_def)
  moreover have "scan_exp ?ex = (Some (if eneg then - int (digits_val es) else int (digits_val es)), s)"
    using assms(7) by (intro scan_exp_digits assms) (auto simp: closes_number_def)
  ultimately have "parse_number ((if neg then ''-'' else []) @ ds @ ((if fs = [] then [] else ''.'' @ fs) @ ?ex))
      = bind_r (Inr v) (\<lambda>v. Inr (v, s))"
    using assms(8) by (subst parse_number_spec [OF assms(1,2,3)]) (auto simp: is_digit_def)
  then show ?thesis by simp
qed


lemma take_digits: "set ds \<subseteq> Collect is_digit \<Longrightarrow> set (take k ds) \<subseteq> Collect is_digit"
  and drop_digits: "set ds \<subseteq> Collect is_digit \<Longrightarrow> set (drop k ds) \<subseteq> Collect is_digit"
  using set_take_subset [of k ds] set_drop_subset [of k ds] by auto

lemma float_exponent_digits:
  "set ((if n < 10 then ''0'' else []) @ nat_digits n) \<subseteq> Collect is_digit"
  "digits_val ((if n < 10 then ''0'' else []) @ nat_digits n) = n"
  using nat_digits_props(1) [of n]
  by (auto simp: is_digit_def digits_val_nat_digits)

lemma parse_float_positional:
  assumes ok: "float_ok m e" "m \<noteq> 0" and s: "closes_number s"
    and pt: "pt = int (length (nat_digits (nat \<bar>m\<bar>))) + e"
  shows "pt \<le> 0 \<Longrightarrow> parse_number ((if m < 0 then ''-'' else []) @ ''0'' @ ''.''
      @ (zeros (- pt) @ nat_digits (nat \<bar>m\<bar>)) @ s) = Inr (JFloat m e, s)"
    and "0 \<le> e \<Longrightarrow> parse_number ((if m < 0 then ''-'' else []) @ (nat_digits (nat \<bar>m\<bar>) @ zeros e)
      @ ''.'' @ ''0'' @ s) = Inr (JFloat m e, s)"
    and "e < 0 \<Longrightarrow> 0 < pt \<Longrightarrow> parse_number ((if m < 0 then ''-'' else [])
      @ take (nat pt) (nat_digits (nat \<bar>m\<bar>)) @ ''.'' @ drop (nat pt) (nat_digits (nat \<bar>m\<bar>)) @ s)
      = Inr (JFloat m e, s)"
proof -
  let ?ds = "nat_digits (nat \<bar>m\<bar>)"
  note props = nat_digits_props [of "nat \<bar>m\<bar>"]
  have hd: "hd ?ds \<noteq> CHR ''0''" using ok(2) hd_nat_digits by simp
  note lit = float_literal_ok [OF ok]
  {
    assume "pt \<le> 0"
    then have "- int (length (zeros (- pt) @ ?ds)) = e" by (simp add: zeros_def pt)
    then show "parse_number ((if m < 0 then ''-'' else []) @ ''0'' @ ''.'' @ (zeros (- pt) @ ?ds) @ s)
        = Inr (JFloat m e, s)"
      using props lit [of 0] s
      by (intro parse_decimal) (auto simp: digits_val_append digits_val_nat_digits is_digit_def)
  next
    assume e: "0 \<le> e"
    have "digits_val ((?ds @ zeros e) @ ''0'') = nat \<bar>m\<bar> * 10 ^ (Suc (nat e))"
      by (simp add: digits_val_append digits_val_nat_digits) (simp add: zeros_def)
    moreover have "- int (length ''0'') = e - int (Suc (nat e))" using e by simp
    ultimately have "float_literal (m < 0) (digits_val ((?ds @ zeros e) @ ''0'')) (- int (length ''0''))
        = Inr (JFloat m e)" using lit [of "Suc (nat e)"] by argo
    then show "parse_number ((if m < 0 then ''-'' else []) @ (?ds @ zeros e) @ ''.'' @ ''0'' @ s)
        = Inr (JFloat m e, s)"
      using props hd s by (intro parse_decimal) (auto simp: is_digit_def subset_iff hd_append zeros_def)
  next
    assume e: "e < 0" "0 < pt"
    then have "- int (length (drop (nat pt) ?ds)) = e" by (simp add: pt)
    moreover have "take (nat pt) ?ds \<noteq> []" "drop (nat pt) ?ds \<noteq> []" "hd (take (nat pt) ?ds) = hd ?ds"
      using e props(2) by (auto simp: pt)
    ultimately show "parse_number ((if m < 0 then ''-'' else []) @ take (nat pt) ?ds @ ''.''
        @ drop (nat pt) ?ds @ s) = Inr (JFloat m e, s)"
      using props(1) hd lit [of 0] s
      by (intro parse_decimal) (auto simp: digits_val_nat_digits take_digits drop_digits
          simp del: take_eq_Nil drop_eq_Nil)
  }
qed

lemma parse_float_scientific:
  assumes ok: "float_ok m e" "m \<noteq> 0" and s: "closes_number s"
    and x: "x = int (length (nat_digits (nat \<bar>m\<bar>))) + e - 1"
  shows "parse_number ((if m < 0 then ''-'' else []) @ take 1 (nat_digits (nat \<bar>m\<bar>))
      @ (if drop 1 (nat_digits (nat \<bar>m\<bar>)) = [] then [] else ''.'' @ drop 1 (nat_digits (nat \<bar>m\<bar>)))
      @ ''e'' @ (if x < 0 then ''-'' else ''+'')
      @ ((if nat \<bar>x\<bar> < 10 then ''0'' else []) @ nat_digits (nat \<bar>x\<bar>)) @ s) = Inr (JFloat m e, s)"
proof -
  let ?ds = "nat_digits (nat \<bar>m\<bar>)"
  note props = nat_digits_props [of "nat \<bar>m\<bar>"]
  let ?es = "(if nat \<bar>x\<bar> < 10 then ''0'' else []) @ nat_digits (nat \<bar>x\<bar>)"
  have "(if x < 0 then - int (digits_val ?es) else int (digits_val ?es)) = x"
    unfolding float_exponent_digits by simp
  moreover have "int (length (drop 1 ?ds)) = int (length ?ds) - 1"
    using props(2) by (cases ?ds) auto
  ultimately have ex: "(if x < 0 then - int (digits_val ?es) else int (digits_val ?es))
      - int (length (drop 1 ?ds)) = e" by (simp only: x)
  have "float_literal (m < 0) (digits_val (take 1 ?ds @ drop 1 ?ds)) e = Inr (JFloat m e)"
    using float_literal_ok [OF ok, of 0] by (simp add: digits_val_nat_digits)
  moreover have "take 1 ?ds \<noteq> []" "hd (take 1 ?ds) \<noteq> CHR ''0''"
    using props(2) hd_nat_digits [of "nat \<bar>m\<bar>"] ok(2) by (cases ?ds; simp)+
  ultimately show ?thesis
    using props float_exponent_digits(1) [of "nat \<bar>x\<bar>"] nat_digits_props(2)
    by (intro parse_scientific take_digits drop_digits s) (simp_all only: ex append_is_Nil_conv simp_thms)
qed

lemma parse_float_repr:
  assumes "float_ok m e" "closes_number s"
  shows "parse_number (float_repr m e @ s) = Inr (JFloat m e, s)"
proof (cases "m = 0")
  case True
  have "parse_number ((if False then ''-'' else []) @ ''0'' @ ''.'' @ ''0'' @ s) = Inr (JFloat 0 0, s)"
    using assms(2) by (intro parse_decimal) (auto simp: is_digit_def float_literal_def digits_val_def)
  with True assms(1) show ?thesis by (simp add: float_repr_def Let_def float_ok_def)
next
  case False
  let ?ds = "nat_digits (nat \<bar>m\<bar>)"
  let ?pt = "int (length ?ds) + e"
  note pos = parse_float_positional [OF assms(1) False assms(2) refl]
  have one: "(int (length ?ds) = 1) = (drop 1 ?ds = [])"
    using nat_digits_props(2) [of "nat \<bar>m\<bar>"] by (cases ?ds) auto
  have ten: "(\<bar>x\<bar> < 10) = (nat \<bar>x\<bar> < 10)" for x :: int by auto
  consider "-4 < ?pt" "?pt \<le> 16" "?pt \<le> 0" | "-4 < ?pt" "?pt \<le> 16" "0 < ?pt" "0 \<le> e"
    | "-4 < ?pt" "?pt \<le> 16" "0 < ?pt" "e < 0" | "\<not> (-4 < ?pt \<and> ?pt \<le> 16)" by linarith
  then show ?thesis
  proof cases
    case 1
    with pos(1) False show ?thesis by (simp add: float_repr_def Let_def)
  next
    case 2
    then have "?pt - int (length ?ds) = e" by simp
    with 2 pos(2) False show ?thesis by (simp add: float_repr_def Let_def)
  next
    case 3
    with pos(3) False show ?thesis by (simp add: float_repr_def Let_def)
  next
    case 4
    have "float_repr m e @ s = (if m < 0 then ''-'' else []) @ take 1 ?ds
      @ (if drop 1 ?ds = [] then [] else ''.'' @ drop 1 ?ds) @ ''e'' @ (if ?pt - 1 < 0 then ''-'' else ''+'')
      @ ((if nat \<bar>?pt - 1\<bar> < 10 then ''0'' else []) @ nat_digits (nat \<bar>?pt - 1\<bar>)) @ s"
      using False by (simp only: float_repr_def Let_def 4 if_False append_assoc one ten)
    with parse_float_scientific [OF assms(1) False assms(2) refl] show ?thesis by simp
  qed
qed


section \<open>Strings\<close>

lemma hex_val_hex_digit: "n < 16 \<Longrightarrow> hex_val (hex_digit n) = Some n"
  by (auto simp: hex_val_def hex_digit_def of_char_of Let_def)

lemma unescape_escape:
  assumes "json_escape_char c \<noteq> [c]"
  shows "\<exists>u. json_escape_char c = CHR 0x5C # u \<and> unescape (u @ s) = Inr (c, s)"
proof -
  have c: "char_of (of_char c :: nat) = c" by simp
  show ?thesis
  proof (cases "(of_char c :: nat) < 32 \<and> of_char c \<notin> {8, 9, 10, 12, 13 :: nat}")
    case True
    then have "json_escape_char c = CHR 0x5C # ''u00'' @ hex2 (of_char c)"
      by (simp add: json_escape_char_def Let_def)
    moreover have "16 * (of_char c div 16) + of_char c mod 16 = (of_char c :: nat)" by simp
    moreover have "(of_char c :: nat) div 16 mod 16 = of_char c div 16" using True by (intro mod_less) linarith
    moreover have "hex_val (hex_digit (of_char c div 16)) = Some (of_char c div 16)"
      "hex_val (hex_digit (of_char c mod 16)) = Some (of_char c mod 16)"
      using True by (intro hex_val_hex_digit; linarith)+
    ultimately show ?thesis
      by (simp add: unescape_def unicode_escape_def hex2_def hex_val_def [of "CHR ''0''"])
  next
    case False
    with assms have "(of_char c :: nat) \<in> {34, 92, 10, 13, 9, 12, 8}"
      by (auto simp: json_escape_char_def Let_def split: if_splits)
    then have "c \<in> {CHR 0x22, CHR 0x5C, CHR 0x0A, CHR 0x0D, CHR 0x09, CHR 0x0C, CHR 0x08}"
      by (simp add: of_char_eq_iff [where 'a = nat, symmetric] del: of_char_eq_iff)
    then show ?thesis by (elim insertE emptyE) (simp_all add: json_escape_char_def unescape_def)
  qed
qed

lemma escape_plain:
  assumes "json_escape_char c = [c]"
  shows "c \<noteq> CHR 0x22" "c \<noteq> CHR 0x5C" "\<not> (of_char c :: nat) < 32"
  using assms by (auto simp: json_escape_char_def Let_def split: if_splits)

lemma parse_chars_escaped:
  "parse_chars (concat (map json_escape_char t) @ CHR 0x22 # s) = Inr (t, s)"
proof (induction t)
  case (Cons c t)
  let ?r = "concat (map json_escape_char t) @ CHR 0x22 # s"
  show ?case
  proof (cases "json_escape_char c = [c]")
    case True
    with escape_plain [OF True] Cons show ?thesis by simp
  next
    case False
    then obtain u where "json_escape_char c = CHR 0x5C # u" "unescape (u @ ?r) = Inr (c, ?r)"
      using unescape_escape by blast
    with Cons show ?thesis by simp
  qed
qed simp

section \<open>The round trip\<close>

text \<open>The values whose text \<open>json.loads\<close> reads back within the model.\<close>

fun loadable :: "json \<Rightarrow> bool" where
  "loadable (JInt i) = (length (nat_digits (nat \<bar>i\<bar>)) \<le> 4300)"
| "loadable (JFloat m e) = float_ok m e"
| "loadable (JArr xs) = (\<forall>x \<in> set xs. loadable x)"
| "loadable (JObj d) = (distinct (map fst d) \<and> (\<forall>kv \<in> set d. loadable (snd kv)))"
| "loadable _ = True"

definition separator :: "char \<Rightarrow> string \<Rightarrow> bool" where
  "separator c sep = (sep \<noteq> [] \<and> hd sep = c \<and> (\<forall>x \<in> set (tl sep). json_ws x))"

lemma skip_ws_append: "\<forall>x \<in> set w. json_ws x \<Longrightarrow> skip_ws (w @ s) = skip_ws s"
  by (induction w) (auto simp: skip_ws_def)

lemma skip_ws_id: "s \<noteq> [] \<Longrightarrow> \<not> json_ws (hd s) \<Longrightarrow> skip_ws s = s"
  by (cases s) (auto simp: skip_ws_def)

lemma scan_int_Cons: "scan_int s = (ds, r) \<Longrightarrow> ds \<noteq> [] \<Longrightarrow> \<exists>c t. s = c # t \<and> is_digit c"
  by (cases s) (auto simp: scan_int_def is_digit_def split: if_splits)

lemma number_text:
  assumes "parse_number s = Inr x"
  obtains neg c t where "s = (if neg then ''-'' else []) @ c # t" "is_digit c"
proof -
  from assms obtain neg c t where s: "scan_sign s = (neg, c # t)" "is_digit c"
    unfolding parse_number_def by (auto split: prod.splits if_splits dest!: scan_int_Cons)
  then have "s = (if neg then ''-'' else []) @ c # t"
    by (cases s) (auto simp: scan_sign_def split: if_splits)
  with s(2) show ?thesis by (rule that [rotated])
qed

lemma number_value:
  assumes "parse_number s = Inr x"
  shows "parse_value (Suc n) s = Inr x"
proof (rule number_text [OF assms])
  fix neg c t assume s: "s = (if neg then ''-'' else []) @ c # t" "is_digit c"
  have "c \<noteq> CHR 0x22" "c \<noteq> CHR ''[''" "c \<noteq> CHR 0x7B" "c \<noteq> CHR ''n''" "c \<noteq> CHR ''t''" "c \<noteq> CHR ''f''"
    "c \<noteq> CHR ''N''" "c \<noteq> CHR ''I''" "c \<noteq> CHR ''-''"
    using s(2) by (auto simp: is_digit_def)
  then have "parse_value (Suc n) s = parse_number s"
    unfolding s(1) by (cases neg) (simp_all add: starts_with_def)
  with assms show "parse_value (Suc n) s = Inr x" by simp
qed

lemma dumps_start:
  assumes "loadable v"
  shows "\<exists>c t. json_dumps i k v = c # t \<and> \<not> json_ws c \<and> c \<noteq> CHR '']''"
proof -
  have number: "\<exists>c t. s = c # t \<and> \<not> json_ws c \<and> c \<noteq> CHR '']''" if "parse_number (s @ []) = Inr x" for s x
    by (rule number_text [OF that]) (auto simp: json_ws_def is_digit_def split: if_splits)
  have "closes_number []" by (simp add: closes_number_def)
  then have "\<exists>c t. int_str j = c # t \<and> \<not> json_ws c \<and> c \<noteq> CHR '']''" if "v = JInt j" for j
    using assms that by (intro number [OF parse_int_str]) auto
  moreover have "\<exists>c t. float_repr m e = c # t \<and> \<not> json_ws c \<and> c \<noteq> CHR '']''" if "v = JFloat m e" for m e
    using assms that \<open>closes_number []\<close> by (intro number [OF parse_float_repr]) auto
  ultimately show ?thesis by (cases v) (auto simp: json_ws_def json_string_def)
qed

text \<open>
  Reading back the text of a value, whatever follows it: by induction on the value, with the
  two loops over the elements of an array and the members of an object.
\<close>

definition reads_back :: "string \<Rightarrow> string \<Rightarrow> json \<Rightarrow> bool" where
  "reads_back i k v \<longleftrightarrow> (\<forall>n s. 2 * length (json_dumps i k v) \<le> n \<longrightarrow> closes_number s
     \<longrightarrow> parse_value n (json_dumps i k v @ s) = Inr (v, s))"

lemma separator_split: "separator c sep \<Longrightarrow> \<exists>w. sep = c # w \<and> (\<forall>x \<in> set w. json_ws x)"
  by (cases sep) (auto simp: separator_def)

lemma skip_sep:
  assumes "separator c sep" "\<not> json_ws c" "\<not> json_ws (hd s)" "s \<noteq> []"
  shows "\<exists>r. skip_ws (sep @ s) = c # r \<and> skip_ws r = s \<and> length r < length (sep @ s)"
  using separator_split [OF assms(1)] assms(2-)
  by (auto simp: skip_ws_append skip_ws_id skip_ws_def [of "c # x" for x])

lemma closes_after:
  assumes "separator (CHR '','') i"
  shows "closes_number (i @ s)" "closes_number ('']'' @ s)" "closes_number (CHR 0x7D # s)"
  using separator_split [OF assms] by (auto simp: closes_number_def is_digit_def)

lemma parse_elems_dumps:
  assumes sep: "separator (CHR '','') i"
    and vs: "vs \<noteq> []" "\<forall>v \<in> set vs. loadable v \<and> reads_back i k v"
    and n: "2 * length (str_join i (map (json_dumps i k) vs)) + 1 \<le> n"
  shows "parse_elems n (str_join i (map (json_dumps i k) vs) @ '']'' @ s) = Inr (vs, s)"
  using vs n
proof (induction vs arbitrary: n)
  case (Cons v vs)
  then obtain m where m: "n = Suc m" by (cases n) auto
  have rb: "reads_back i k v" using Cons.prems by simp
  show ?case
  proof (cases vs)
    case Nil
    have "parse_value m (json_dumps i k v @ '']'' @ s) = Inr (v, '']'' @ s)"
      using rb Cons.prems(3) closes_after(2) [OF sep] by (simp add: reads_back_def m Nil)
    then show ?thesis by (simp add: m Nil skip_ws_def json_ws_def)
  next
    case (Cons w ws)
    let ?t = "str_join i (map (json_dumps i k) vs) @ '']'' @ s"
    have joined: "str_join i (map (json_dumps i k) (v # vs)) @ '']'' @ s = json_dumps i k v @ i @ ?t"
      by (simp add: Cons)
    obtain c t where start: "json_dumps i k w = c # t" "\<not> json_ws c"
      using dumps_start [of w i k] Cons.prems(2) Cons by auto
    then have "?t \<noteq> []" "\<not> json_ws (hd ?t)" by (cases ws; simp add: Cons)+
    then obtain r where r: "skip_ws (i @ ?t) = CHR '','' # r" "skip_ws r = ?t"
      using skip_sep [OF sep, of ?t] by (auto simp: json_ws_def)
    have "parse_value m (json_dumps i k v @ i @ ?t) = Inr (v, i @ ?t)"
      using rb Cons.prems(3) closes_after(1) [OF sep] by (simp add: reads_back_def m Cons)
    moreover have "parse_elems m ?t = Inr (vs, s)"
      using Cons.prems separator_split [OF sep] by (intro Cons.IH) (auto simp: m Cons)
    ultimately show ?thesis using r unfolding m joined by simp
  qed
qed simp


lemma dset_fresh: "k \<notin> fst ` set d \<Longrightarrow> dset k v d = d @ [(k, v)]"
  unfolding dset_def by (induction d) auto

definition member_text :: "string \<Rightarrow> string \<Rightarrow> string \<times> json \<Rightarrow> string" where
  "member_text i k kv = json_string (fst kv) @ k @ json_dumps i k (snd kv)"

lemma parse_members_step:
  assumes ksep: "separator (CHR '':'') k" and kv: "loadable v" "reads_back i k v"
    and s: "closes_number s" and m: "2 * length (json_dumps i k v) \<le> m"
  shows "parse_members (Suc m) d (member_text i k (key, v) @ s) =
    (case skip_ws s of
       [] \<Rightarrow> Inl JSONDecodeError
     | c # r \<Rightarrow>
         if c = CHR 0x7D then Inr (dset key v d, r)
         else if c = CHR '','' then parse_members m (dset key v d) (skip_ws r)
         else Inl JSONDecodeError)"
proof -
  let ?t = "json_dumps i k v @ s"
  obtain c t where start: "json_dumps i k v = c # t" "\<not> json_ws c" using dumps_start [OF kv(1), of i k] by auto
  then obtain r where r: "skip_ws (k @ ?t) = CHR '':'' # r" "skip_ws r = ?t"
    using skip_sep [OF ksep, of ?t] by (auto simp: json_ws_def)
  have "parse_chars (concat (map json_escape_char key) @ CHR 0x22 # k @ ?t) = Inr (key, k @ ?t)"
    by (rule parse_chars_escaped)
  moreover have "parse_value m ?t = Inr (v, s)" using kv(2) s m by (simp add: reads_back_def)
  ultimately show ?thesis using r by (simp add: member_text_def json_string_def)
qed

lemma parse_members_dumps:
  assumes sep: "separator (CHR '','') i" "separator (CHR '':'') k"
    and d: "d \<noteq> []" "\<forall>kv \<in> set d. loadable (snd kv) \<and> reads_back i k (snd kv)"
    and keys: "distinct (map fst (d0 @ d))"
    and n: "2 * length (str_join i (map (member_text i k) d)) + 1 \<le> n"
  shows "parse_members n d0 (str_join i (map (member_text i k) d) @ CHR 0x7D # s) = Inr (d0 @ d, s)"
  using d keys n
proof (induction d arbitrary: n d0)
  case (Cons kv d)
  obtain key v where kv: "kv = (key, v)" by (cases kv)
  from Cons.prems obtain m where m: "n = Suc m" by (cases n) auto
  have fresh: "dset key v d0 = d0 @ [kv]" using Cons.prems(3) kv by (auto intro: dset_fresh)
  have v: "loadable v" "reads_back i k v" using Cons.prems(2) kv by auto
  show ?case
  proof (cases d)
    case Nil
    have "2 * length (json_dumps i k v) \<le> m" using Cons.prems(4) by (simp add: m Nil kv member_text_def)
    from parse_members_step [OF sep(2) v closes_after(3) [OF sep(1), of s] this, of d0 key]
    show ?thesis by (simp add: m Nil kv fresh [unfolded kv] skip_ws_def json_ws_def)
  next
    case (Cons kv' d')
    let ?t = "str_join i (map (member_text i k) d) @ CHR 0x7D # s"
    have joined: "str_join i (map (member_text i k) (kv # d)) @ CHR 0x7D # s = member_text i k kv @ i @ ?t"
      by (simp add: Cons)
    have "?t \<noteq> []" "\<not> json_ws (hd ?t)"
      by (cases d'; simp add: Cons member_text_def json_string_def json_ws_def)+
    then obtain r where r: "skip_ws (i @ ?t) = CHR '','' # r" "skip_ws r = ?t"
      using skip_sep [OF sep(1), of ?t] by (auto simp: json_ws_def)
    have "2 * length (json_dumps i k v) \<le> m" using Cons.prems(4) by (simp add: m Cons kv member_text_def)
    from parse_members_step [OF sep(2) v closes_after(1) [OF sep(1), of ?t] this, of d0 key]
    have "parse_members n d0 (member_text i k kv @ i @ ?t) = parse_members m (d0 @ [kv]) ?t"
      using r by (simp add: m kv fresh [unfolded kv])
    also have "\<dots> = Inr ((d0 @ [kv]) @ d, s)"
      using Cons.prems separator_split [OF sep(1)] by (intro Cons.IH) (auto simp: m Cons)
    finally show ?thesis unfolding joined by simp
  qed
qed simp

lemma reads_backI:
  assumes "loadable v"
    and "\<And>n s. 2 * length (json_dumps i k v) \<le> Suc n \<Longrightarrow> closes_number s
      \<Longrightarrow> parse_value (Suc n) (json_dumps i k v @ s) = Inr (v, s)"
  shows "reads_back i k v"
  unfolding reads_back_def
proof (intro allI impI)
  fix n s assume *: "2 * length (json_dumps i k v) \<le> n" "closes_number s"
  obtain c t where "json_dumps i k v = c # t" using dumps_start [OF assms(1), of i k] by auto
  with * obtain m where "n = Suc m" by (cases n) auto
  with assms(2) * show "parse_value n (json_dumps i k v @ s) = Inr (v, s)" by simp
qed

lemma dumps_reads_back:
  assumes sep: "separator (CHR '','') i" "separator (CHR '':'') k"
  shows "loadable v \<Longrightarrow> reads_back i k v"
proof (induction v rule: loadable.induct)
  case (1 x)
  show ?case
    using 1 by (intro reads_backI [OF 1]) (simp only: json_dumps.simps loadable.simps number_value parse_int_str)
next
  case (2 m e)
  show ?case
    using 2 by (intro reads_backI [OF 2]) (simp only: json_dumps.simps loadable.simps number_value parse_float_repr)
next
  case (3 xs)
  show ?case
  proof (rule reads_backI [OF 3(2)])
    fix n s assume n: "2 * length (json_dumps i k (JArr xs)) \<le> Suc n"
    show "parse_value (Suc n) (json_dumps i k (JArr xs) @ s) = Inr (JArr xs, s)"
    proof (cases "xs = []")
      case False
      let ?t = "str_join i (map (json_dumps i k) xs) @ '']'' @ s"
      have "\<exists>c t. json_dumps i k (hd xs) = c # t \<and> \<not> json_ws c \<and> c \<noteq> CHR '']''"
        using dumps_start 3(2) False by simp
      then have "skip_ws ?t = ?t" "take 1 ?t \<noteq> '']''"
        using False by (cases xs; cases "tl xs"; auto simp: skip_ws_def)+
      moreover have "parse_elems n ?t = Inr (xs, s)"
        using 3 False n by (intro parse_elems_dumps sep) auto
      ultimately show ?thesis by simp
    qed (simp add: skip_ws_def json_ws_def)
  qed
next
  case (4 d)
  show ?case
  proof (rule reads_backI [OF 4(2)])
    fix n s assume n: "2 * length (json_dumps i k (JObj d)) \<le> Suc n"
    have obj: "json_dumps i k (JObj d) = CHR 0x7B # str_join i (map (member_text i k) d) @ [CHR 0x7D]"
      by (simp add: member_text_def [abs_def])
    show "parse_value (Suc n) (json_dumps i k (JObj d) @ s) = Inr (JObj d, s)"
    proof (cases "d = []")
      case False
      let ?t = "str_join i (map (member_text i k) d) @ CHR 0x7D # s"
      obtain t where t: "?t = CHR 0x22 # t"
        using False by (cases d; cases "tl d"; auto simp: member_text_def json_string_def)
      have "skip_ws ?t = ?t" "take 1 ?t \<noteq> [CHR 0x7D]" unfolding t by (simp_all add: skip_ws_def json_ws_def)
      moreover have "parse_members n [] ?t = Inr ([] @ d, s)"
        using 4 False n unfolding obj by (intro parse_members_dumps sep) auto
      ultimately show ?thesis unfolding obj by simp
    qed (simp add: skip_ws_def json_ws_def)
  qed
qed (auto simp: starts_with_def parse_chars_escaped json_string_def intro!: reads_backI)

lemma json_loads_dumps:
  assumes "separator (CHR '','') i" "separator (CHR '':'') k" "loadable v"
  shows "json_loads (json_dumps i k v) = Inr v"
proof -
  obtain c t where start: "json_dumps i k v = c # t" "\<not> json_ws c" using dumps_start [OF assms(3), of i k] by auto
  have "reads_back i k v" by (rule dumps_reads_back [OF assms])
  then have "parse_value (2 * length (json_dumps i k v) + 1) (json_dumps i k v @ []) = Inr (v, [])"
    unfolding reads_back_def by (simp add: closes_number_def del: parse_value.simps)
  then show ?thesis
    using start by (simp add: json_loads_def skip_ws_def del: parse_value.simps)
qed


section \<open>The fuel is enough\<close>

lemma skip_ws_le: "length (skip_ws s) \<le> length s"
  by (simp add: skip_ws_def length_dropWhile_le)

lemma skip_ws_Cons: "skip_ws s = c # r \<Longrightarrow> length r < length s"
  using skip_ws_le [of s] by simp

lemma parse_chars_shorter: "parse_chars s = Inr (t, r) \<Longrightarrow> length r < length s"
  by (induction s arbitrary: t r rule: parse_chars.induct)
    (fastforce simp: result_simps split: if_splits prod.splits dest: unescape_shorter)+

lemma parse_number_shorter:
  assumes "parse_number s = Inr (v, r)"
  shows "length r < length s"
proof -
  from assms obtain neg s1 ds s2 fs s3 ex where p: "scan_sign s = (neg, s1)" "scan_int s1 = (ds, s2)"
    "scan_frac s2 = (fs, s3)" "scan_exp s3 = (ex, r)" "ds \<noteq> []"
    unfolding parse_number_def by (auto simp: result_simps split: prod.splits if_splits)
  have dw: "length (dropWhile is_digit x) \<le> length x" for x by (rule length_dropWhile_le)
  have "length r \<le> length s3"
    using p(4) dw by (auto simp: scan_exp_def scan_exp_sign_def Let_def split: list.splits if_splits
        intro: le_SucI le_trans)
  also have "\<dots> \<le> length s2"
    using p(3) dw by (auto simp: scan_frac_def split: list.splits if_splits intro: le_SucI)
  also have "\<dots> < length s1"
    using p(2,5) dw by (auto simp: scan_int_def less_Suc_eq_le split: list.splits if_splits)
  also have "\<dots> \<le> length s" using p(1) by (auto simp: scan_sign_def split: list.splits if_splits)
  finally show ?thesis .
qed


lemma drop_1_shorter: "take 1 s = [c] \<Longrightarrow> length (drop 1 s) < length s"
  by (cases s) auto

lemma parse_shorter:
  "(\<forall>s v r. parse_value n s = Inr (v, r) \<longrightarrow> length r < length s)
   \<and> (\<forall>s vs r. parse_elems n s = Inr (vs, r) \<longrightarrow> length r < length s)
   \<and> (\<forall>s d d' r. parse_members n d s = Inr (d', r) \<longrightarrow> length r < length s)"
proof (induction n)
  case (Suc n)
  have val: "length r < length s" if "parse_value n s = Inr (v, r)" for s v r
    using Suc that by blast
  have elems: "length r < length s" if "parse_elems n s = Inr (vs, r)" for s vs r
    using Suc that by blast
  have members: "length r < length s" if "parse_members n d s = Inr (d', r)" for s d d' r
    using Suc that by blast
  have "length r < length s" if p: "parse_value (Suc n) s = Inr (v, r)" for s v r
  proof -
    obtain c t where s: "s = c # t" using p by (cases s) auto
    have "length r < length (skip_ws t) \<or> length r < length s"
      using p elems members
      by (auto simp: s result_simps simp del: One_nat_def length_drop split: if_splits
          dest!: parse_chars_shorter parse_number_shorter intro: drop_1_shorter) simp_all
    then show ?thesis using skip_ws_le [of t] by (auto simp: s)
  qed
  moreover have "length r < length s" if p: "parse_elems (Suc n) s = Inr (vs, r)" for s vs r
  proof -
    from p obtain v t where v: "parse_value n s = Inr (v, t)" by (auto simp: bind_r_eq_Inr)
    with p obtain c u where c: "skip_ws t = c # u" by (cases "skip_ws t") auto
    have "length r \<le> length u"
    proof (cases "r = u")
      case False
      with p v c obtain ws where "parse_elems n (skip_ws u) = Inr (ws, r)"
        by (auto simp: bind_r_eq_Inr split: if_splits)
      from elems [OF this] skip_ws_le [of u] show ?thesis by simp
    qed simp
    with val [OF v] skip_ws_Cons [OF c] show ?thesis by simp
  qed
  moreover have "length r < length s" if p: "parse_members (Suc n) d s = Inr (d', r)" for s d d' r
  proof -
    let ?w = "\<lambda>t. skip_ws (drop 1 (skip_ws t))"
    from p obtain k t where k: "parse_chars (drop 1 s) = Inr (k, t)"
      by (auto simp: bind_r_eq_Inr simp del: One_nat_def split: if_splits)
    with p obtain v t' where v: "parse_value n (?w t) = Inr (v, t')"
      by (auto simp: bind_r_eq_Inr simp del: One_nat_def split: if_splits)
    with p k obtain c u where c: "skip_ws t' = c # u"
      by (cases "skip_ws t'") (auto simp del: One_nat_def split: if_splits)
    have "length r \<le> length u"
    proof (cases "r = u")
      case False
      with p k v c have "parse_members n (dset k v d) (skip_ws u) = Inr (d', r)"
        by (auto simp del: One_nat_def split: if_splits)
      from members [OF this] skip_ws_le [of u] show ?thesis by simp
    qed simp
    moreover have "length (?w t) \<le> length t"
      using skip_ws_le [of t] skip_ws_le [of "drop 1 (skip_ws t)"] by simp
    ultimately show ?thesis
      using val [OF v] skip_ws_Cons [OF c] parse_chars_shorter [OF k] by simp
  qed
  ultimately show ?case by blast
qed simp

lemma not_fuel [simp]: "JSONDecodeError \<noteq> out_of_fuel" "Unmodelled \<noteq> out_of_fuel"
  by (simp_all add: JSONDecodeError_def out_of_fuel_def)

lemma unescape_no_fuel: "unescape s \<noteq> Inl out_of_fuel"
  by (simp add: unescape_def unicode_escape_def split: list.split option.split)

lemma parse_chars_no_fuel: "parse_chars s \<noteq> Inl out_of_fuel"
proof (induction s rule: parse_chars.induct)
  case (2 c s)
  show ?case
  proof (cases "c = CHR 0x5C")
    case True
    with 2(1) unescape_no_fuel [of s] show ?thesis by (auto simp: bind_r_eq_Inl)
  next
    case False
    with 2(2) show ?thesis by (auto simp: bind_r_eq_Inl split: if_splits)
  qed
qed simp

lemma parse_number_no_fuel: "parse_number s \<noteq> Inl out_of_fuel"
  by (auto simp: parse_number_def result_simps int_literal_def float_literal_def
      split: prod.splits if_splits)

lemma parse_fuel_enough:
  "(\<forall>s. 2 * length s + 1 \<le> n \<longrightarrow> parse_value n s \<noteq> Inl out_of_fuel)
   \<and> (\<forall>s. 2 * length s + 2 \<le> n \<longrightarrow> parse_elems n s \<noteq> Inl out_of_fuel)
   \<and> (\<forall>s d. 2 * length s + 2 \<le> n \<longrightarrow> parse_members n d s \<noteq> Inl out_of_fuel)"
proof (induction n)
  case (Suc n)
  have val: "parse_value n s \<noteq> Inl out_of_fuel" if "2 * length s + 1 \<le> n" for s
    using Suc that by blast
  have elems: "parse_elems n s \<noteq> Inl out_of_fuel" if "2 * length s + 2 \<le> n" for s
    using Suc that by blast
  have members: "parse_members n d s \<noteq> Inl out_of_fuel" if "2 * length s + 2 \<le> n" for s d
    using Suc that by blast
  have "parse_value (Suc n) s \<noteq> Inl out_of_fuel" if len: "2 * length s + 1 \<le> Suc n" for s
  proof (cases s)
    case (Cons c t)
    have "2 * length (skip_ws t) + 2 \<le> n" using len skip_ws_le [of t] by (simp add: Cons)
    with elems members show ?thesis
      by (auto simp: Cons result_simps parse_chars_no_fuel parse_number_no_fuel split: if_splits)
  qed simp
  moreover have "parse_elems (Suc n) s \<noteq> Inl out_of_fuel" if len: "2 * length s + 2 \<le> Suc n" for s
  proof
    assume fail: "parse_elems (Suc n) s = Inl out_of_fuel"
    with val [of s] len obtain v t where t: "parse_value n s = Inr (v, t)"
      by (cases "parse_value n s") auto
    with fail obtain c u where c: "skip_ws t = c # u" by (cases "skip_ws t") auto
    with fail t have "parse_elems n (skip_ws u) = Inl out_of_fuel"
      by (auto simp: bind_r_eq_Inl split: if_splits)
    moreover have "length t < length s" using parse_shorter [of n] t by blast
    then have "2 * length (skip_ws u) + 2 \<le> n" using skip_ws_Cons [OF c] skip_ws_le [of u] len by linarith
    ultimately show False using elems by blast
  qed
  moreover have "parse_members (Suc n) d s \<noteq> Inl out_of_fuel" if len: "2 * length s + 2 \<le> Suc n" for s d
  proof
    assume fail: "parse_members (Suc n) d s = Inl out_of_fuel"
    then obtain k t where k: "parse_chars (drop 1 s) = Inr (k, t)"
      by (auto simp: bind_r_eq_Inl parse_chars_no_fuel simp del: One_nat_def split: if_splits)
    let ?w = "skip_ws (drop 1 (skip_ws t))"
    have w: "length ?w \<le> length t" using skip_ws_le [of t] skip_ws_le [of "drop 1 (skip_ws t)"] by simp
    have t: "length t < length s" using parse_chars_shorter [OF k] by simp
    have "parse_value n ?w \<noteq> Inl out_of_fuel" using w t len by (intro val) linarith
    then obtain v u where v: "parse_value n ?w = Inr (v, u)"
      using fail k by (auto simp: bind_r_eq_Inl simp del: One_nat_def split: if_splits)
    with fail k obtain c x where u: "skip_ws u = c # x"
      by (cases "skip_ws u") (auto simp del: One_nat_def split: if_splits)
    with fail k v have m: "parse_members n (dset k v d) (skip_ws x) = Inl out_of_fuel"
      by (auto simp del: One_nat_def split: if_splits)
    have "length u < length ?w" using parse_shorter [of n] v by blast
    then have "2 * length (skip_ws x) + 2 \<le> n"
      using skip_ws_Cons [OF u] skip_ws_le [of x] len w t by linarith
    with members m show False by blast
  qed
  ultimately show ?case by blast
qed simp

lemma json_loads_no_fuel: "json_loads s \<noteq> Inl out_of_fuel"
proof -
  have "2 * length (skip_ws s) + 1 \<le> 2 * length s + 1" using skip_ws_le [of s] by simp
  then have "parse_value (2 * length s + 1) (skip_ws s) \<noteq> Inl out_of_fuel" using parse_fuel_enough by blast
  then show ?thesis by (auto simp: json_loads_def result_simps simp del: parse_value.simps split: if_splits)
qed

end
