(* ===== verification/Candidates.thy ===== *)
theory Candidates
  imports Tokens JsonParse Sha256
begin

text \<open>
  The candidates of the context engine, \<open>context/candidates.py\<close>: the canonical texts used to
  recognise duplicates, the projection of a retrieved memory or chunk into a candidate, and the
  static tables of tiers and trust classes.

  \<open>Candidate.metadata\<close> is a dictionary of values of different types; here it is a record with one
  optional field per key the program writes.  Scores are real numbers; the program computes them
  in double precision.
\<close>

section \<open>Model\<close>

datatype cand_source =
  SYSTEM | TOOL_DEFINITIONS | PINNED | CURRENT_REQUEST | RECENT_TURN | MEMORY | CHUNK

fun source_value :: "cand_source \<Rightarrow> string" where
  "source_value SYSTEM = ''system''"
| "source_value TOOL_DEFINITIONS = ''tool_definitions''"
| "source_value PINNED = ''pinned''"
| "source_value CURRENT_REQUEST = ''current_request''"
| "source_value RECENT_TURN = ''recent_turn''"
| "source_value MEMORY = ''memory''"
| "source_value CHUNK = ''chunk''"

fun TIER_BY_SOURCE :: "cand_source \<Rightarrow> int" where
  "TIER_BY_SOURCE SYSTEM = 1"
| "TIER_BY_SOURCE TOOL_DEFINITIONS = 1"
| "TIER_BY_SOURCE PINNED = 2"
| "TIER_BY_SOURCE CURRENT_REQUEST = 3"
| "TIER_BY_SOURCE RECENT_TURN = 4"
| "TIER_BY_SOURCE MEMORY = 5"
| "TIER_BY_SOURCE CHUNK = 5"

text \<open>\<open>re.sub(r"\s+", " ", s)\<close>\<close>

function collapse_ws :: "string \<Rightarrow> string" where
  "collapse_ws [] = []"
| "collapse_ws (c # s) =
     (if is_space c then CHR '' '' # collapse_ws (dropWhile is_space s) else c # collapse_ws s)"
  by pat_completeness auto
termination
  by (relation "measure length") (auto simp: less_Suc_eq_le length_dropWhile_le)

definition canonical_text :: "string \<Rightarrow> string" where
  "canonical_text v = lower (strip (collapse_ws v))"

definition part_fingerprint :: "pydict \<Rightarrow> string" where
  "part_fingerprint part = sha256_hex (dumps_canonical (JObj part))"

definition image_fingerprint :: "string \<Rightarrow> string" where
  "image_fingerprint url = sha256_hex url"

definition image_ref :: "pydict \<Rightarrow> string" where
  "image_ref part =
     (let image_url = or_else (dget part ''image_url'') (JObj []) in
      case image_url of
        JObj d \<Rightarrow> py_str (dget_default d ''url'' (JStr []))
      | v \<Rightarrow> py_str v)"

definition image_token :: "pydict \<Rightarrow> string" where
  "image_token part = ''[image:'' @ image_fingerprint (image_ref part) @ '']''"

definition opaque_token :: "pydict \<Rightarrow> string" where
  "opaque_token part =
     ''['' @ py_str (or_else (dget part ''type'') (JStr ''unknown'')) @ '':'' @ part_fingerprint part @ '']''"

definition dict_parts :: "json list \<Rightarrow> pydict list" where
  "dict_parts parts = List.map_filter (\<lambda>part. case part of JObj d \<Rightarrow> Some d | _ \<Rightarrow> None) parts"

definition rendered_part :: "pydict \<Rightarrow> string" where
  "rendered_part part =
     (let kind = dget part ''type'' in
      if kind = JStr ''text'' then py_str (or_else (dget part ''text'') (JStr []))
      else if kind = JStr ''image_url'' then image_token part
      else opaque_token part)"

definition rendered_content :: "json \<Rightarrow> string" where
  "rendered_content content =
     (case content of
        JStr s \<Rightarrow> s
      | JArr parts \<Rightarrow> str_join '' '' (map rendered_part (dict_parts parts))
      | _ \<Rightarrow> [])"

definition tool_call_text :: "json \<Rightarrow> string result" where
  "tool_call_text tool_call =
     bind_r (jget tool_call ''function'') (\<lambda>f.
     bind_r (jget tool_call ''custom'') (\<lambda>c.
     let container = (case f of JObj d \<Rightarrow> d | _ \<Rightarrow> (case c of JObj d \<Rightarrow> d | _ \<Rightarrow> []));
         kind_label = (if is_dict f then ''function'' else ''custom'');
         payload_value = or_else (dget container ''arguments'') (dget container ''input'')
     in Inr (''tool_call['' @ kind_label @ '']: '' @ py_str (dget container ''name'') @ '' ''
             @ py_str payload_value)))"

definition message_lines :: "pydict \<Rightarrow> string list result" where
  "message_lines message =
     (let first = py_str (dget message ''role'') @ '': '' @ rendered_content (dget message ''content'') in
      bind_r (py_iter (or_else (dget message ''tool_calls'') (JArr []))) (\<lambda>tool_calls.
      bind_r (map_r tool_call_text tool_calls) (\<lambda>lines. Inr (first # lines))))"

definition message_texts :: "pydict list \<Rightarrow> string result" where
  "message_texts messages =
     bind_r (map_r message_lines messages) (\<lambda>ls. Inr (str_join [nl] (concat ls)))"

definition part_text :: "pydict \<Rightarrow> string option" where
  "part_text part =
     (let kind = dget part ''type'' in
      if kind = JStr ''text'' then
        (let text_value = canonical_text (py_str (or_else (dget part ''text'') (JStr []))) in
         if text_value = [] then None else Some text_value)
      else if kind = JStr ''image_url'' then Some (image_token part)
      else Some (opaque_token part))"

definition content_texts :: "pydict \<Rightarrow> string list" where
  "content_texts message =
     (case dget message ''content'' of
        JStr s \<Rightarrow> (let text_value = canonical_text s in if text_value = [] then [] else [text_value])
      | JArr parts \<Rightarrow> List.map_filter part_text (dict_parts parts)
      | _ \<Rightarrow> [])"

text \<open>
  The loop of \<open>chunk_canonical_text\<close> over the lines: \<open>None\<close> is the early return on a line that is
  not JSON.
\<close>

primrec chunk_lines :: "string list \<Rightarrow> pydict list option result" where
  "chunk_lines [] = Inr (Some [])"
| "chunk_lines (l # ls) =
     (if strip l = [] then chunk_lines ls
      else
        (case json_loads (strip l) of
           Inl (ValueError _) \<Rightarrow> Inr None
         | Inl e \<Rightarrow> Inl e
         | Inr v \<Rightarrow>
             bind_r (chunk_lines ls) (\<lambda>rest.
             Inr (case v of JObj d \<Rightarrow> map_option (Cons d) rest | _ \<Rightarrow> rest))))"

definition chunk_canonical_text :: "string \<Rightarrow> string result" where
  "chunk_canonical_text raw_content =
     bind_r (chunk_lines (splitlines raw_content)) (\<lambda>parsed.
       case parsed of
         None \<Rightarrow> Inr (canonical_text raw_content)
       | Some lines \<Rightarrow>
           if lines = [] then Inr (canonical_text raw_content)
           else bind_r (message_texts lines) (\<lambda>t. Inr (canonical_text t)))"

datatype classification = TRUSTED_INSTRUCTION | DERIVED_CONTEXT | UNTRUSTED_USER_DATA

fun CLASSIFICATION_BY_SOURCE :: "cand_source \<Rightarrow> classification" where
  "CLASSIFICATION_BY_SOURCE SYSTEM = TRUSTED_INSTRUCTION"
| "CLASSIFICATION_BY_SOURCE TOOL_DEFINITIONS = TRUSTED_INSTRUCTION"
| "CLASSIFICATION_BY_SOURCE PINNED = TRUSTED_INSTRUCTION"
| "CLASSIFICATION_BY_SOURCE CURRENT_REQUEST = UNTRUSTED_USER_DATA"
| "CLASSIFICATION_BY_SOURCE RECENT_TURN = UNTRUSTED_USER_DATA"
| "CLASSIFICATION_BY_SOURCE MEMORY = DERIVED_CONTEXT"
| "CLASSIFICATION_BY_SOURCE CHUNK = DERIVED_CONTEXT"

record cand_meta =
  m_conversation_id :: "string option"
  m_classification :: "classification option"
  m_position :: "int option"
  m_content_texts :: "string list option"
  m_is_tools :: "bool option"
  m_kind :: "string option"
  m_score :: "real option"
  m_dedup_text :: "string option"
  m_fingerprint :: "string option"
  m_start_seq :: "int option"
  m_end_seq :: "int option"

definition no_meta :: cand_meta where
  "no_meta =
     \<lparr>m_conversation_id = None, m_classification = None, m_position = None, m_content_texts = None,
      m_is_tools = None, m_kind = None, m_score = None, m_dedup_text = None, m_fingerprint = None,
      m_start_seq = None, m_end_seq = None\<rparr>"

record candidate =
  c_source :: cand_source
  c_key :: string
  c_tokens :: int
  c_tier :: int
  c_render :: "pydict list"
  c_text :: string
  c_components :: "(string \<times> real) list"
  c_meta :: cand_meta

definition cand_conversation_id :: "candidate \<Rightarrow> string option" where
  "cand_conversation_id c = m_conversation_id (c_meta c)"

definition cand_classification :: "candidate \<Rightarrow> classification" where
  "cand_classification c =
     (case m_classification (c_meta c) of
        Some explicit \<Rightarrow> explicit
      | None \<Rightarrow> CLASSIFICATION_BY_SOURCE (c_source c))"

record dropped =
  d_key :: string
  d_source :: cand_source
  d_reason :: string

text \<open>\<open>RetrievedItem\<close> of \<open>memory/models.py\<close>.\<close>

datatype item_type = Item_chunk | Item_memory

fun item_type_value :: "item_type \<Rightarrow> string" where
  "item_type_value Item_chunk = ''chunk''"
| "item_type_value Item_memory = ''memory''"

record retrieved_item =
  ri_item_type :: item_type
  ri_id :: string
  ri_conversation_id :: string
  ri_kind :: string
  ri_content :: string
  ri_score :: real
  ri_components :: "(string \<times> real) list"
  ri_source_message_ids :: "string list"
  ri_start_seq :: "int option"
  ri_end_seq :: "int option"

definition content_fingerprint :: "string \<Rightarrow> string" where
  "content_fingerprint t = take 16 (sha256_hex (canonical_text t))"

definition retrieved_block :: "retrieved_item \<Rightarrow> pydict" where
  "retrieved_block item =
     (let label = ''[retrieved '' @ item_type_value (ri_item_type item) @ '':'' @ ri_kind item
                  @ '' id='' @ ri_id item @ '']''
      in [(''role'', JStr ''user''), (''content'', JStr (label @ [nl] @ ri_content item))])"

definition dedup_text_of :: "retrieved_item \<Rightarrow> string result" where
  "dedup_text_of item =
     (case ri_item_type item of
        Item_chunk \<Rightarrow> chunk_canonical_text (ri_content item)
      | Item_memory \<Rightarrow> Inr (canonical_text (ri_content item)))"

definition candidate_from_retrieved :: "token_counter \<Rightarrow> retrieved_item \<Rightarrow> candidate result" where
  "candidate_from_retrieved counter item =
     (let message = retrieved_block item;
          source = (if ri_item_type item = Item_memory then MEMORY else CHUNK) in
      bind_r (dedup_text_of item) (\<lambda>dedup_text.
      bind_r (count_message counter message) (\<lambda>tokens.
      Inr \<lparr>c_source = source, c_key = ri_id item, c_tokens = tokens, c_tier = TIER_BY_SOURCE source,
           c_render = [message],
           c_text = canonical_text (py_str (dget message ''content'')),
           c_components = ri_components item,
           c_meta = no_meta
             \<lparr>m_conversation_id := Some (ri_conversation_id item), m_kind := Some (ri_kind item),
              m_score := Some (ri_score item), m_dedup_text := Some dedup_text,
              m_fingerprint := Some (content_fingerprint dedup_text),
              m_start_seq := ri_start_seq item, m_end_seq := ri_end_seq item\<rparr>\<rparr>)))"

section \<open>Canonical texts\<close>

lemma is_space_lower [simp]: "is_space (lower_char c) = is_space c"
proof -
  have "(of_char c :: nat) < 256" by (rule nat_of_char_less_256)
  then show ?thesis by (auto simp: is_space_def lower_char_def Let_def of_char_of)
qed

lemma lower_simps [simp]:
  "lower [] = []" "lower (c # s) = lower_char c # lower s" "lower (s @ t) = lower s @ lower t"
  "lower (rev s) = rev (lower s)"
  by (simp_all add: lower_def rev_map)

lemma dropWhile_lower: "dropWhile is_space (lower s) = lower (dropWhile is_space s)"
  by (induction s) auto

lemma strip_lower: "strip (lower s) = lower (strip s)"
  unfolding strip_def by (simp only: dropWhile_lower lower_simps(4) [symmetric])

lemma space_lower: "lower_char (CHR '' '') = CHR '' ''"
  by (simp add: lower_char_def)

lemma space_is_space [simp]: "is_space (CHR '' '')"
  by (simp add: is_space_def)

lemma collapse_lower: "collapse_ws (lower s) = lower (collapse_ws s)"
  by (induction s rule: collapse_ws.induct) (auto simp: dropWhile_lower space_lower)

text \<open>A collapsed text: every white space is a single blank.\<close>

fun collapsed :: "string \<Rightarrow> bool" where
  "collapsed (c # d # s) = ((is_space c \<longrightarrow> c = CHR '' '' \<and> \<not> is_space d) \<and> collapsed (d # s))"
| "collapsed [c] = (is_space c \<longrightarrow> c = CHR '' '')"
| "collapsed [] = True"

lemma collapse_hd: "s \<noteq> [] \<Longrightarrow> is_space (hd (collapse_ws s)) = is_space (hd s)"
  by (cases s) auto

lemma collapsed_Cons:
  "collapsed (c # s) \<longleftrightarrow> (is_space c \<longrightarrow> c = CHR '' '' \<and> (s = [] \<or> \<not> is_space (hd s))) \<and> collapsed s"
  by (cases s) auto

lemma collapse_nonempty [simp]: "collapse_ws s = [] \<longleftrightarrow> s = []"
  by (cases s) auto

lemma collapsed_collapse: "collapsed (collapse_ws s)"
proof (induction s rule: collapse_ws.induct)
  case (2 c s)
  have "dropWhile is_space s = [] \<or> \<not> is_space (hd (collapse_ws (dropWhile is_space s)))"
    using collapse_hd [of "dropWhile is_space s"] hd_dropWhile [of is_space s] by auto
  with 2 show ?case by (auto simp: collapsed_Cons)
qed simp

lemma collapse_id: "collapsed s \<Longrightarrow> collapse_ws s = s"
proof (induction s)
  case (Cons c s)
  then have "is_space c \<Longrightarrow> dropWhile is_space s = s" by (cases s) auto
  with Cons show ?case by (auto simp: collapsed_Cons)
qed simp

lemma collapsed_append: "collapsed (s @ t) \<Longrightarrow> collapsed s \<and> collapsed t"
proof (induction s)
  case (Cons c s)
  then show ?case by (cases s) (auto simp: collapsed_Cons)
qed simp

lemma strip_infix: "\<exists>a b. s = a @ strip s @ b"
proof -
  let ?t = "dropWhile is_space s"
  have "rev (rev ?t) = rev (takeWhile is_space (rev ?t) @ dropWhile is_space (rev ?t))" by simp
  then have "?t = strip s @ rev (takeWhile is_space (rev ?t))" unfolding strip_def rev_append rev_rev_ident .
  then have "s = takeWhile is_space s @ strip s @ rev (takeWhile is_space (rev ?t))"
    by (metis takeWhile_dropWhile_id)
  then show ?thesis by blast
qed

lemma dropWhile_strip: "dropWhile is_space (strip s) = strip s"
proof (cases "dropWhile is_space s")
  case Nil
  then show ?thesis unfolding strip_def Nil by simp
next
  case (Cons c t)
  then have c: "\<not> is_space c" by (metis hd_dropWhile list.distinct(1) list.sel(1))
  then have "\<exists>u. strip s = c # u"
    unfolding strip_def Cons by (auto simp: dropWhile_append dropWhile_eq_Nil_conv) (metis rev_rev_ident)
  with c show ?thesis by auto
qed

lemma strip_idem: "strip (strip s) = strip s"
proof -
  have "dropWhile is_space (rev (strip s)) = rev (strip s)" by (simp add: strip_def)
  then show ?thesis unfolding strip_def [of "strip s"] dropWhile_strip by simp
qed

lemma canonical_text_idem: "canonical_text (canonical_text s) = canonical_text s"
proof -
  obtain a b where "collapse_ws s = a @ strip (collapse_ws s) @ b" using strip_infix by blast
  then have "collapsed (strip (collapse_ws s))" using collapsed_collapse [of s] collapsed_append by metis
  then show ?thesis by (simp add: canonical_text_def collapse_lower strip_lower collapse_id strip_idem)
qed

section \<open>Stored chunks\<close>

text \<open>Every character of \<open>json.dumps\<close> is printable, so the only line break it can hold is U+0085.\<close>

abbreviation printable :: "string \<Rightarrow> bool" where
  "printable s \<equiv> \<forall>c \<in> set s. 32 \<le> (of_char c :: nat)"

lemma printable_digits: "set ds \<subseteq> Collect is_digit \<Longrightarrow> printable ds"
  by (auto simp: is_digit_def subset_iff)

lemma printable_int: "printable (int_str i)"
  using printable_digits [OF nat_digits_props(1)] by (auto simp: int_str_def)

lemma printable_float: "printable (float_repr m e)"
proof -
  have d: "printable (nat_digits n)" for n by (rule printable_digits [OF nat_digits_props(1)])
  have "printable (zeros n)" for n by (rule printable_digits) simp
  with d show ?thesis
    by (auto simp: float_repr_def Let_def dest: in_set_takeD in_set_dropD)
qed

lemma printable_hex: "n < 16 \<Longrightarrow> 32 \<le> (of_char (hex_digit n) :: nat)"
  by (auto simp: hex_digit_def of_char_of)

lemma printable_hex2: "printable (hex2 n)"
  using printable_hex [of "n div 16 mod 16"] printable_hex [of "n mod 16"] by (simp add: hex2_def)

lemma printable_string: "printable (json_string s)"
proof -
  have "printable (json_escape_char c)" for c
    using printable_hex2 [of "of_char c"] by (simp add: json_escape_char_def Let_def)
  then show ?thesis by (auto simp: json_string_def)
qed

lemma printable_join: "printable sep \<Longrightarrow> \<forall>x \<in> set xs. printable x \<Longrightarrow> printable (str_join sep xs)"
  by (induction sep xs rule: str_join.induct) auto

lemma printable_dumps:
  assumes sep: "printable i" "printable k"
  shows "printable (json_dumps i k v)"
proof (induction v rule: sort_keys.induct)
  case (1 xs)
  have "printable (str_join i (map (json_dumps i k) xs))"
    using 1 by (intro printable_join [OF sep(1)]) simp
  then show ?case by (simp add: ball_Un)
next
  case (2 d)
  have "printable (json_string (fst kv) @ k @ json_dumps i k (snd kv))" if "kv \<in> set d" for kv
    using 2 [OF that] sep(2) printable_string [of "fst kv"] by (simp add: ball_Un)
  then have "printable (str_join i (map (\<lambda>kv. json_string (fst kv) @ k @ json_dumps i k (snd kv)) d))"
    by (intro printable_join [OF sep(1)] ballI) (metis (no_types, lifting) imageE list.set_map)
  then show ?case by (simp add: ball_Un)
qed (simp_all add: printable_int printable_float printable_string)

lemma splitlines_acc_line:
  assumes "\<forall>c \<in> set l. \<not> is_line_break c"
  shows "splitlines_acc acc (l @ nl # s) = rev (rev l @ acc) # splitlines_acc [] s"
  using assms
proof (induction l arbitrary: acc)
  case Nil
  have "is_line_break nl" "nl \<noteq> CHR 0x0D" by (simp_all add: is_line_break_def nl_def)
  then show ?case by (cases s) auto
next
  case (Cons c l)
  have "c \<noteq> CHR 0x0D" using Cons.prems by (auto simp: is_line_break_def)
  with Cons show ?case by (cases "l @ nl # s") auto
qed

lemma splitlines_acc_last:
  "\<forall>c \<in> set l. \<not> is_line_break c \<Longrightarrow> rev l @ acc \<noteq> [] \<Longrightarrow> splitlines_acc acc l = [rev (rev l @ acc)]"
proof (induction l arbitrary: acc)
  case (Cons c l)
  have "c \<noteq> CHR 0x0D" using Cons.prems by (auto simp: is_line_break_def)
  with Cons show ?case by (cases l) auto
qed simp

lemma splitlines_join:
  assumes "\<forall>l \<in> set ls. l \<noteq> [] \<and> (\<forall>c \<in> set l. \<not> is_line_break c)"
  shows "splitlines (str_join [nl] ls) = ls"
  using assms unfolding splitlines_def
proof (induction "[nl]" ls rule: str_join.induct)
  case (2 x)
  then show ?case using splitlines_acc_last [of x "[]"] by simp
next
  case (3 x y xs)
  then show ?case using splitlines_acc_line [of x "[]"] by simp
qed simp

definition chunk_text :: "pydict list \<Rightarrow> string" where
  "chunk_text ms = str_join [nl] (map (\<lambda>m. dumps_default (JObj m)) ms)"

definition one_line :: "pydict \<Rightarrow> bool" where
  "one_line m \<longleftrightarrow> loadable (JObj m) \<and> CHR 0x85 \<notin> set (dumps_default (JObj m))"

lemma strip_braces: "strip (CHR 0x7B # s @ [CHR 0x7D]) = CHR 0x7B # s @ [CHR 0x7D]"
  by (simp add: strip_def is_space_def)

lemma dumps_one_line:
  assumes "one_line m"
  shows "strip (dumps_default (JObj m)) = dumps_default (JObj m)"
    and "json_loads (dumps_default (JObj m)) = Inr (JObj m)"
    and "dumps_default (JObj m) \<noteq> []" "\<forall>c \<in> set (dumps_default (JObj m)). \<not> is_line_break c"
proof -
  show "strip (dumps_default (JObj m)) = dumps_default (JObj m)" "dumps_default (JObj m) \<noteq> []"
    using strip_braces by (simp_all add: dumps_default_def)
  show "json_loads (dumps_default (JObj m)) = Inr (JObj m)"
    using assms unfolding dumps_default_def one_line_def
    by (intro json_loads_dumps) (auto simp: separator_def json_ws_def)
  have "printable (dumps_default (JObj m))" unfolding dumps_default_def by (rule printable_dumps) auto
  moreover have "c = CHR 0x85" if "(of_char c :: nat) = 133" for c
    using that by (simp add: of_char_eq_iff [where 'a = nat, symmetric] del: of_char_eq_iff)
  ultimately show "\<forall>c \<in> set (dumps_default (JObj m)). \<not> is_line_break c"
    using assms by (fastforce simp: one_line_def is_line_break_def Let_def)
qed

lemma chunk_lines_dumps:
  "\<forall>m \<in> set ms. one_line m \<Longrightarrow> chunk_lines (map (\<lambda>m. dumps_default (JObj m)) ms) = Inr (Some ms)"
  by (induction ms) (auto simp: dumps_one_line)

lemma chunk_text_canonical:
  assumes "\<forall>m \<in> set ms. one_line m" "ms \<noteq> []"
  shows "chunk_canonical_text (chunk_text ms) = bind_r (message_texts ms) (\<lambda>t. Inr (canonical_text t))"
proof -
  have "splitlines (chunk_text ms) = map (\<lambda>m. dumps_default (JObj m)) ms"
    unfolding chunk_text_def using assms(1) dumps_one_line by (intro splitlines_join) auto
  with assms show ?thesis by (simp add: chunk_canonical_text_def chunk_lines_dumps)
qed

end
