(* ===== verification/Ranking.thy ===== *)
theory Ranking
  imports Candidates "HOL-Library.Product_Lexorder"
begin

text \<open>
  What ranks the retrieved candidates: the query text (\<open>context/query.py\<close>), the relevance score
  (\<open>context/scoring.py\<close>), and the selection by maximal marginal relevance (\<open>context/mmr.py\<close>).

  The lemmas show that the selection is the greedy one its documentation describes: the most
  relevant candidate first, then at every step the one with the best trade-off of relevance and
  similarity to the ones already selected, ties broken by score and key.
\<close>

section \<open>Model\<close>

definition query_content :: "json \<Rightarrow> string" where
  "query_content content =
     (case content of
        JStr s \<Rightarrow> s
      | JArr parts \<Rightarrow>
          strip (str_join '' '' (map (\<lambda>part. py_str (or_else (dget part ''text'') (JStr [])))
            (filter (\<lambda>part. dget part ''type'' = JStr ''text'') (dict_parts parts))))
      | _ \<Rightarrow> [])"

fun latest_user_text :: "pydict list \<Rightarrow> string" where
  "latest_user_text [] = []"
| "latest_user_text (m # ms) =
     (if dget m ''role'' \<noteq> JStr ''user'' then latest_user_text ms
      else query_content (dget m ''content''))"

definition extract_retrieval_query :: "pydict list \<Rightarrow> string" where
  "extract_retrieval_query messages = latest_user_text (rev messages)"

record retrieval_settings =
  semantic_weight :: real
  lexical_weight :: real
  recency_weight :: real
  importance_weight :: real
  type_weight :: real
  limit_default :: int
  candidate_pool :: int

text \<open>\<open>round(x, 6)\<close>: half to even.\<close>

definition round_half_even :: "real \<Rightarrow> int" where
  "round_half_even x =
     (let n = \<lfloor>x\<rfloor>; d = x - of_int n in
      if d < 1 / 2 then n else if d > 1 / 2 then n + 1 else if even n then n else n + 1)"

definition round6 :: "real \<Rightarrow> real" where
  "round6 x = of_int (round_half_even (x * 10 ^ 6)) / 10 ^ 6"

fun BASE_SCORE_BY_SOURCE :: "cand_source \<Rightarrow> real" where
  "BASE_SCORE_BY_SOURCE SYSTEM = 1"
| "BASE_SCORE_BY_SOURCE TOOL_DEFINITIONS = 1"
| "BASE_SCORE_BY_SOURCE PINNED = 95 / 100"
| "BASE_SCORE_BY_SOURCE CURRENT_REQUEST = 1"
| "BASE_SCORE_BY_SOURCE RECENT_TURN = 9 / 10"
| "BASE_SCORE_BY_SOURCE MEMORY = 0"
| "BASE_SCORE_BY_SOURCE CHUNK = 0"

definition comp_get :: "(string \<times> real) list \<Rightarrow> string \<Rightarrow> real" where
  "comp_get c k = (case map_of c k of None \<Rightarrow> 0 | Some x \<Rightarrow> x)"

definition weighted_sum :: "retrieval_settings \<Rightarrow> (string \<times> real) list \<Rightarrow> real" where
  "weighted_sum weights c =
     semantic_weight weights * comp_get c ''semantic''
     + lexical_weight weights * comp_get c ''lexical''
     + recency_weight weights * comp_get c ''recency''
     + importance_weight weights * comp_get c ''importance''
     + type_weight weights * comp_get c ''type_priority''"

definition relevance_score :: "retrieval_settings \<Rightarrow> candidate \<Rightarrow> real" where
  "relevance_score weights candidate =
     (let base = BASE_SCORE_BY_SOURCE (c_source candidate) in
      if base > 0 then round6 base else round6 (weighted_sum weights (c_components candidate)))"

text \<open>\<open>Counter(re.findall(r"[a-z0-9]+", text))\<close>, as its items.\<close>

definition token_char :: "char \<Rightarrow> bool" where
  "token_char c = (let n = (of_char c :: nat) in 97 \<le> n \<and> n \<le> 122 \<or> 48 \<le> n \<and> n \<le> 57)"

function find_tokens :: "string \<Rightarrow> string list" where
  "find_tokens [] = []"
| "find_tokens (c # s) =
     (if token_char c then (c # takeWhile token_char s) # find_tokens (dropWhile token_char s)
      else find_tokens s)"
  by pat_completeness auto
termination
  by (relation "measure length") (auto simp: less_Suc_eq_le length_dropWhile_le)

definition vector_of :: "string \<Rightarrow> (string \<times> nat) list" where
  "vector_of t = (let ts = find_tokens t in map (\<lambda>w. (w, count_list ts w)) (remdups ts))"

definition vec_get :: "(string \<times> nat) list \<Rightarrow> string \<Rightarrow> nat" where
  "vec_get v w = (case map_of v w of None \<Rightarrow> 0 | Some n \<Rightarrow> n)"

definition vec_dot :: "(string \<times> nat) list \<Rightarrow> (string \<times> nat) list \<Rightarrow> nat" where
  "vec_dot va vb = sum_list (map (\<lambda>(w, n). n * vec_get vb w) va)"

definition vec_norm :: "(string \<times> nat) list \<Rightarrow> real" where
  "vec_norm v = sqrt (of_nat (sum_list (map (\<lambda>(w, n). n * n) v)))"

definition cosine_similarity :: "string \<Rightarrow> string \<Rightarrow> real" where
  "cosine_similarity a b =
     (let va = vector_of a; vb = vector_of b in
      if va = [] \<or> vb = [] then 0
      else let dot = vec_dot va vb in
        if dot = 0 then 0
        else max 0 (min 1 (of_nat dot / (vec_norm va * vec_norm vb))))"

text \<open>The rank \<open>(-mmr, -score, key)\<close> of a remaining pair; the least one is selected.\<close>

type_synonym mmr_rank = "real \<times> real \<times> string"

definition max_default :: "real list \<Rightarrow> real" where
  "max_default xs = (case xs of [] \<Rightarrow> 0 | x # xs' \<Rightarrow> foldl max x xs')"

definition rank_of ::
  "real \<Rightarrow> (string \<Rightarrow> string \<Rightarrow> real) \<Rightarrow> string list \<Rightarrow> real \<times> string \<Rightarrow> mmr_rank"
where
  "rank_of lam similarity selected p =
     (case p of (score, key) \<Rightarrow>
        let max_sim = max_default (map (similarity key) selected);
            mmr = lam * score - (1 - lam) * max_sim
        in (- mmr, - score, key))"

definition best_rank :: "(real \<times> string \<Rightarrow> mmr_rank) \<Rightarrow> (real \<times> string) list \<Rightarrow> mmr_rank option" where
  "best_rank rank remaining =
     foldl (\<lambda>best p. case best of
         None \<Rightarrow> Some (rank p)
       | Some b \<Rightarrow> if rank p < b then Some (rank p) else best) None remaining"

lemma best_rank_from:
  fixes rank :: "'p \<Rightarrow> 'r :: linorder"
  shows "foldl (\<lambda>best p. case best of None \<Rightarrow> Some (rank p)
      | Some b \<Rightarrow> if rank p < b then Some (rank p) else best) (Some b) ps
    = Some (foldl min b (map rank ps))"
proof (induction ps arbitrary: b)
  case (Cons p ps)
  have "min b (rank p) = (if rank p < b then rank p else b)" by (auto simp: min_def)
  with Cons show ?case by simp
qed simp

lemma best_rank_Cons: "best_rank rank (p # ps) = Some (foldl min (rank p) (map rank ps))"
  by (simp add: best_rank_def best_rank_from)

lemma foldl_min: "foldl min (b :: 'a :: linorder) xs = Min (insert b (set xs))"
proof (induction xs arbitrary: b)
  case (Cons x xs)
  have "Min (insert (min b x) (set xs)) = Min (insert b (insert x (set xs)))"
    by (cases "xs = []") (simp_all add: Min_insert min.assoc)
  with Cons show ?case by simp
qed simp

lemma best_rank_Min: "ps \<noteq> [] \<Longrightarrow> best_rank rank ps = Some (Min (rank ` set ps))"
  by (cases ps) (auto simp: best_rank_Cons foldl_min)

lemma best_rank_mem: "best_rank rank ps = Some r \<Longrightarrow> r \<in> rank ` set ps"
proof -
  assume *: "best_rank rank ps = Some r"
  then have "ps \<noteq> []" by (auto simp: best_rank_def)
  with * show ?thesis using Min_in [of "rank ` set ps"] by (simp add: best_rank_Min)
qed

lemma rank_of_key: "snd (snd (rank_of lam sim sel p)) = snd p"
  by (simp add: rank_of_def Let_def split: prod.split)

function mmr_loop ::
  "real \<Rightarrow> (string \<Rightarrow> string \<Rightarrow> real) \<Rightarrow> int \<Rightarrow> string list \<Rightarrow> (real \<times> string) list \<Rightarrow> string list"
where
  "mmr_loop lam similarity limit selected remaining =
     (if remaining = [] \<or> limit \<le> int (length selected) then selected
      else case best_rank (rank_of lam similarity selected) remaining of
        None \<Rightarrow> selected
      | Some r \<Rightarrow>
          mmr_loop lam similarity limit (selected @ [snd (snd r)])
            (filter (\<lambda>p. snd p \<noteq> snd (snd r)) remaining))"
  by pat_completeness auto
termination
proof (relation "measure (\<lambda>(lam, similarity, limit, selected, remaining). length remaining)", goal_cases)
  case (2 lam sim limit sel remaining r)
  then have "r \<in> rank_of lam sim sel ` set remaining" using best_rank_mem by blast
  then obtain p where "p \<in> set remaining" "snd p = snd (snd r)" using rank_of_key by (metis imageE)
  then have "length (filter (\<lambda>p. snd p \<noteq> snd (snd r)) remaining) < length remaining"
    by (intro length_filter_less [of p]) auto
  then show ?case by simp
qed simp

declare mmr_loop.simps [simp del]

definition mmr_select ::
  "(real \<times> string) list \<Rightarrow> (string \<Rightarrow> string \<Rightarrow> real) \<Rightarrow> int \<Rightarrow> real \<Rightarrow> string list"
where
  "mmr_select scored similarity limit lam =
     (if limit \<le> 0 \<or> scored = [] then []
      else case sort_key (\<lambda>(s, k). (- s, k)) scored of
        [] \<Rightarrow> []
      | (first_score, first_key) # remaining \<Rightarrow> mmr_loop lam similarity limit [first_key] remaining)"

section \<open>The selection is greedy\<close>

text \<open>
  \<open>greedy\<close> says of a list of keys that each one, from position \<open>n\<close> on, has the least rank among
  the pairs whose key does not occur before it.
\<close>

definition greedy ::
  "real \<Rightarrow> (string \<Rightarrow> string \<Rightarrow> real) \<Rightarrow> (real \<times> string) set \<Rightarrow> nat \<Rightarrow> string list \<Rightarrow> bool"
where
  "greedy lam similarity scored n ks \<longleftrightarrow>
     (\<forall>i. n \<le> i \<and> i < length ks \<longrightarrow>
        (\<exists>s. (s, ks ! i) \<in> scored
           \<and> (\<forall>p \<in> scored. snd p \<notin> set (take i ks)
                \<longrightarrow> rank_of lam similarity (take i ks) (s, ks ! i) \<le> rank_of lam similarity (take i ks) p)))"

lemma mmr_step:
  assumes "remaining \<noteq> []"
  obtains s k where "(s, k) \<in> set remaining"
    "\<forall>p \<in> set remaining. rank_of lam sim sel (s, k) \<le> rank_of lam sim sel p"
    "\<not> limit \<le> int (length sel) \<Longrightarrow> mmr_loop lam sim limit sel remaining
      = mmr_loop lam sim limit (sel @ [k]) (filter (\<lambda>p. snd p \<noteq> k) remaining)"
proof -
  let ?R = "rank_of lam sim sel ` set remaining"
  have best: "best_rank (rank_of lam sim sel) remaining = Some (Min ?R)" using assms by (rule best_rank_Min)
  have "Min ?R \<in> ?R" using assms by simp
  then obtain s k where sk: "(s, k) \<in> set remaining" "Min ?R = rank_of lam sim sel (s, k)" by auto
  then have "snd (snd (Min ?R)) = k" by (simp add: rank_of_key)
  with best assms have "\<not> limit \<le> int (length sel) \<Longrightarrow> mmr_loop lam sim limit sel remaining
      = mmr_loop lam sim limit (sel @ [k]) (filter (\<lambda>p. snd p \<noteq> k) remaining)"
    by (subst mmr_loop.simps) simp
  with sk show ?thesis by (intro that [of s k]) (auto simp: sk(2) [symmetric])
qed

definition mmr_result ::
  "real \<Rightarrow> (string \<Rightarrow> string \<Rightarrow> real) \<Rightarrow> (real \<times> string) set \<Rightarrow> int \<Rightarrow> string list \<Rightarrow> string list \<Rightarrow> bool"
where
  "mmr_result lam similarity scored limit sel ks \<longleftrightarrow>
     distinct ks \<and> set ks \<subseteq> snd ` scored \<and> greedy lam similarity scored 1 ks \<and> (\<exists>t. ks = sel @ t)
     \<and> int (length ks) \<le> max limit (int (length sel)) \<and> (limit \<le> int (length ks) \<or> set ks = snd ` scored)"

lemma mmr_loop_spec:
  assumes "set remaining = {p \<in> scored. snd p \<notin> set sel}" "distinct sel" "set sel \<subseteq> snd ` scored"
    and "greedy lam sim scored 1 sel" "sel \<noteq> []"
  shows "mmr_result lam sim scored limit sel (mmr_loop lam sim limit sel remaining)"
  using assms
proof (induction "length remaining" arbitrary: sel remaining rule: less_induct)
  case less
  show ?case
  proof (cases "remaining = [] \<or> limit \<le> int (length sel)")
    case True
    then have "mmr_loop lam sim limit sel remaining = sel" by (subst mmr_loop.simps) auto
    moreover have "remaining = [] \<Longrightarrow> snd ` scored \<subseteq> set sel" using less.prems(1) by auto
    ultimately show ?thesis using True less.prems by (auto simp: mmr_result_def)
  next
    case False
    then obtain s k where sk: "(s, k) \<in> set remaining"
      "\<forall>p \<in> set remaining. rank_of lam sim sel (s, k) \<le> rank_of lam sim sel p"
      and step: "mmr_loop lam sim limit sel remaining
        = mmr_loop lam sim limit (sel @ [k]) (filter (\<lambda>p. snd p \<noteq> k) remaining)"
      using mmr_step [of remaining lam sim sel limit] by metis
    have k: "(s, k) \<in> scored" "k \<notin> set sel" using sk(1) less.prems(1) by auto
    have g: "greedy lam sim scored 1 (sel @ [k])"
      using less.prems(1,4) sk(2) k by (auto simp: greedy_def nth_append less_Suc_eq)
    have "length (filter (\<lambda>p. snd p \<noteq> k) remaining) < length remaining"
      using sk(1) by (intro length_filter_less [of "(s, k)"]) auto
    then have "mmr_result lam sim scored limit (sel @ [k]) (mmr_loop lam sim limit sel remaining)"
      unfolding step using less.prems k g by (intro less.hyps) (auto intro: rev_image_eqI)
    with False show ?thesis by (auto simp: mmr_result_def)
  qed
qed

lemma mmr_select_spec:
  assumes "scored \<noteq> []" "0 < limit" "distinct (map snd scored)"
  shows "mmr_result lam sim (set scored) limit [] (mmr_select scored sim limit lam)"
    and "\<exists>s k t. mmr_select scored sim limit lam = k # t \<and> (s, k) \<in> set scored
      \<and> (\<forall>p \<in> set scored. (- s, k) \<le> (- fst p, snd p))"
proof -
  let ?key = "\<lambda>(s :: real, k :: string). (- s, k)"
  obtain s k rest where srt: "sort_key ?key scored = (s, k) # rest"
    using assms(1) length_sort [of ?key scored] by (cases "sort_key ?key scored") auto
  have "mset ((s, k) # rest) = mset scored" using mset_sort [of ?key scored] srt by simp
  then have "mset (map snd ((s, k) # rest)) = mset (map snd scored)" by (metis mset_map)
  from mset_eq_imp_distinct_iff [OF this] assms(3)
  have mset: "set scored = insert (s, k) (set rest)" "distinct (map snd ((s, k) # rest))"
    using srt set_sort [of ?key scored] by auto
  have sel: "mmr_select scored sim limit lam = mmr_loop lam sim limit [k] rest"
    using assms(1,2) by (simp add: mmr_select_def srt)
  have "mmr_result lam sim (set scored) limit [k] (mmr_loop lam sim limit [k] rest)"
    using mset by (intro mmr_loop_spec) (auto simp: greedy_def image_iff)
  then have r: "mmr_result lam sim (set scored) limit [k] (mmr_select scored sim limit lam)" by (simp add: sel)
  then show "mmr_result lam sim (set scored) limit [] (mmr_select scored sim limit lam)"
    using assms(2) by (auto simp: mmr_result_def)
  have "sorted (map ?key ((s, k) # rest))" using sorted_sort_key [of ?key scored] srt by simp
  then have "\<forall>p \<in> set scored. (- s, k) \<le> (- fst p, snd p)"
    using mset(1) by (auto simp: case_prod_beta)
  with r mset(1) show "\<exists>s k t. mmr_select scored sim limit lam = k # t \<and> (s, k) \<in> set scored
      \<and> (\<forall>p \<in> set scored. (- s, k) \<le> (- fst p, snd p))"
    by (auto simp: mmr_result_def)
qed

section \<open>Cosine similarity\<close>

lemma vec_get_vector: "vec_get (vector_of t) w = count_list (find_tokens t) w"
proof -
  have "map_of (map (\<lambda>w. (w, count_list ts w)) (remdups ts)) w =
      (if w \<in> set ts then Some (count_list ts w) else None)" for ts :: "string list"
    by (auto simp: map_of_map_restrict)
  then show ?thesis by (simp add: vec_get_def vector_of_def Let_def count_list_0_iff)
qed

lemma vec_dot_sum:
  assumes "set (find_tokens a) \<subseteq> W" "finite W"
  shows "vec_dot (vector_of a) (vector_of b)
    = (\<Sum>w \<in> W. count_list (find_tokens a) w * count_list (find_tokens b) w)"
proof -
  have "vec_dot (vector_of a) (vector_of b)
      = (\<Sum>w \<in> set (find_tokens a). count_list (find_tokens a) w * count_list (find_tokens b) w)"
    unfolding vec_dot_def vec_get_vector
    by (simp add: vector_of_def Let_def comp_def sum_list_distinct_conv_sum_set)
  also have "\<dots> = (\<Sum>w \<in> W. count_list (find_tokens a) w * count_list (find_tokens b) w)"
    using assms by (intro sum.mono_neutral_left) (auto simp: count_list_0_iff)
  finally show ?thesis .
qed

lemma vec_norm_dot: "vec_norm (vector_of a) = sqrt (of_nat (vec_dot (vector_of a) (vector_of a)))"
proof -
  have "map (\<lambda>(w, n). n * n) (vector_of a) = map (\<lambda>(w, n). n * vec_get (vector_of a) w) (vector_of a)"
    unfolding vec_get_vector by (auto simp: vector_of_def Let_def)
  then show ?thesis unfolding vec_norm_def vec_dot_def by (rule arg_cong)
qed

lemma vec_dot_commute: "vec_dot (vector_of a) (vector_of b) = vec_dot (vector_of b) (vector_of a)"
  using vec_dot_sum [of a "set (find_tokens a) \<union> set (find_tokens b)" b]
    vec_dot_sum [of b "set (find_tokens a) \<union> set (find_tokens b)" a] by (simp add: mult.commute)

lemma vector_Nil: "vector_of a = [] \<longleftrightarrow> find_tokens a = []"
  by (simp add: vector_of_def Let_def)

lemma vec_dot_zero:
  "vec_dot (vector_of a) (vector_of b) = 0 \<longleftrightarrow> set (find_tokens a) \<inter> set (find_tokens b) = {}"
  using vec_dot_sum [OF order_refl finite_set, of a b] by (auto simp: count_list_0_iff)

lemma vec_dot_self: "find_tokens a \<noteq> [] \<Longrightarrow> vec_dot (vector_of a) (vector_of a) \<noteq> 0"
  by (simp add: vec_dot_zero)

lemma vec_norm_pos: "find_tokens a \<noteq> [] \<Longrightarrow> 0 < vec_norm (vector_of a)"
  using vec_dot_self [of a] by (simp add: vec_norm_dot)

lemma cosine_commute: "cosine_similarity a b = cosine_similarity b a"
  by (simp add: cosine_similarity_def Let_def vec_dot_commute [of a b] mult.commute disj_commute)

lemma cosine_self: "cosine_similarity a a = (if find_tokens a = [] then 0 else 1)"
  by (cases "find_tokens a = []")
    (simp_all add: cosine_similarity_def Let_def vector_Nil vec_norm_dot vec_dot_self)

lemma cosine_zero: "cosine_similarity a b = 0 \<longleftrightarrow> set (find_tokens a) \<inter> set (find_tokens b) = {}"
proof (cases "find_tokens a = [] \<or> find_tokens b = []")
  case True
  then show ?thesis by (auto simp: cosine_similarity_def Let_def vector_Nil)
next
  case False
  let ?d = "vec_dot (vector_of a) (vector_of b)"
  have "0 < vec_norm (vector_of a) * vec_norm (vector_of b)" using False vec_norm_pos by simp
  then have "0 < real ?d / (vec_norm (vector_of a) * vec_norm (vector_of b))" if "?d \<noteq> 0" using that by simp
  then have "max 0 (min 1 (real ?d / (vec_norm (vector_of a) * vec_norm (vector_of b)))) \<noteq> 0" if "?d \<noteq> 0"
    using that by linarith
  then show ?thesis
    using False unfolding vec_dot_zero [symmetric] by (auto simp: cosine_similarity_def Let_def vector_Nil)
qed

section \<open>Properties\<close>

text \<open>
  C31. Greedy selection (\<open>mmr_select\<close>): the result has \<open>limit\<close> keys, or all of them when there
  are fewer, no key twice; the first is the best by score, then key; and each later one has the
  least rank \<open>(-mmr, -score, key)\<close>, relative to the keys before it, among the keys not yet selected.
\<close>

theorem mmr_select_greedy:
  assumes "distinct (map snd scored)" "scored \<noteq> []" "0 < limit"
    and ks_def: "ks = mmr_select scored similarity limit lam"
  shows "int (length ks) = min limit (int (length scored)) \<and> distinct ks \<and> set ks \<subseteq> snd ` set scored
    \<and> (\<exists>s. (s, hd ks) \<in> set scored \<and> (\<forall>p \<in> set scored. (- s, hd ks) \<le> (- fst p, snd p)))
    \<and> (\<forall>i. 1 \<le> i \<and> i < length ks \<longrightarrow>
         (\<exists>s. (s, ks ! i) \<in> set scored \<and> (\<forall>p \<in> set scored. snd p \<notin> set (take i ks) \<longrightarrow>
            rank_of lam similarity (take i ks) (s, ks ! i) \<le> rank_of lam similarity (take i ks) p)))"
proof -
  have r: "mmr_result lam similarity (set scored) limit [] ks"
    unfolding ks_def using assms by (intro mmr_select_spec)
  have "card (snd ` set scored) = length scored"
    using assms(1) distinct_card [of "map snd scored"] by simp
  moreover have "card (set ks) = length ks" using r by (simp add: mmr_result_def distinct_card)
  moreover have "card (set ks) \<le> card (snd ` set scored)"
    using r by (intro card_mono) (auto simp: mmr_result_def)
  ultimately have "int (length ks) = min limit (int (length scored))"
    using r assms(3) by (auto simp: mmr_result_def min_def)
  moreover have "\<exists>s. (s, hd ks) \<in> set scored \<and> (\<forall>p \<in> set scored. (- s, hd ks) \<le> (- fst p, snd p))"
    using mmr_select_spec(2) [OF assms(2,3,1), of similarity lam] unfolding ks_def by (metis list.sel(1))
  ultimately show ?thesis using r by (auto simp: mmr_result_def greedy_def)
qed

definition demo_scored :: "(real \<times> string) list" where
  "demo_scored = [(1 / 2, ''b''), (9 / 10, ''a''), (8 / 10, ''c'')]"

definition demo_similarity :: "string \<Rightarrow> string \<Rightarrow> real" where
  "demo_similarity x y = (if x = y \<or> {x, y} = {''a'', ''c''} then 1 else 0)"

theorem mmr_select_greedy_witness:
  "mmr_select demo_scored demo_similarity 2 (1 / 2) = [''a'', ''b'']
   \<and> int (length (mmr_select demo_scored demo_similarity 2 (1 / 2))) = 2"
proof
  have "\<not> (demo_scored = [])" "distinct (map snd demo_scored)" by (simp_all add: demo_scored_def)
  with mmr_select_greedy [of demo_scored 2 "mmr_select demo_scored demo_similarity 2 (1 / 2)" demo_similarity "1 / 2"]
  show "int (length (mmr_select demo_scored demo_similarity 2 (1 / 2))) = 2"
    by (simp add: demo_scored_def)
  show "mmr_select demo_scored demo_similarity 2 (1 / 2) = [''a'', ''b'']" by code_simp
qed

text \<open>
  Similarity: symmetric, between 0 and 1, zero exactly when the texts share no token, and 1 between a
  text with tokens and itself.
\<close>

lemma cosine_similarity_laws:
  "cosine_similarity a b = cosine_similarity b a
   \<and> 0 \<le> cosine_similarity a b \<and> cosine_similarity a b \<le> 1
   \<and> (cosine_similarity a b = 0 \<longleftrightarrow> set (find_tokens a) \<inter> set (find_tokens b) = {})
   \<and> cosine_similarity a a = (if find_tokens a = [] then 0 else 1)"
  using cosine_commute [of a b] cosine_zero [of a b] cosine_self [of a]
  by (auto simp: cosine_similarity_def Let_def)

end
