(* ===== verification/Engine.thy ===== *)
theory Engine
  imports Planner Ranking
begin

text \<open>
  The context assembly engine, \<open>context/engine.py\<close>: the split of a payload into history and
  current request, the fusion of all sources into candidates, the supersession, isolation and
  duplicate filters, the tiered budget allocation, and the plan with its diagnostics.

  Dictionaries keyed by candidate keys (\<open>scored\<close>, \<open>dropped\<close>, \<open>by_key\<close>) are association lists
  with the update of \<open>dict\<close>.  The two exceptions of the engine are values of \<open>engine_error\<close>.
\<close>

section \<open>Model\<close>

subsection \<open>History and current request\<close>

primrec last_user_index :: "pydict list \<Rightarrow> nat \<Rightarrow> nat option" where
  "last_user_index messages 0 = None"
| "last_user_index messages (Suc i) =
     (if dget (messages ! i) ''role'' = JStr ''user'' then Some i else last_user_index messages i)"

primrec trailing_end :: "pydict list \<Rightarrow> nat \<Rightarrow> nat \<Rightarrow> nat result" where
  "trailing_end messages u 0 = Inr 0"
| "trailing_end messages u (Suc e) =
     (if u < e then
        bind_r (is_instruction_role (dget (messages ! e) ''role'')) (\<lambda>b.
          if b then trailing_end messages u e else Inr (Suc e))
      else Inr (Suc e))"

definition separate_current_request :: "pydict list \<Rightarrow> (pydict list \<times> pydict list) result" where
  "separate_current_request messages =
     (case last_user_index messages (length messages) of
        None \<Rightarrow> Inr (messages, [])
      | Some u \<Rightarrow>
          bind_r (trailing_end messages u (length messages)) (\<lambda>e.
          Inr (take u messages @ drop e messages, drop u (take e messages))))"

subsection \<open>Types\<close>

datatype engine_error = EngineOverflow int int | EngineRaised pyerr

definition lift_engine :: "'a result \<Rightarrow> engine_error + 'a" where
  "lift_engine m = (case m of Inl e \<Rightarrow> Inl (EngineRaised e) | Inr x \<Rightarrow> Inr x)"

record assembly_settings =
  mmr_lambda :: real
  max_retrieved_items :: int
  retrieved_budget_tokens :: int

record engine =
  en_usable :: int
  en_settings :: assembly_settings
  en_retrieval :: retrieval_settings
  en_counter :: token_counter
  en_similarity :: "string \<Rightarrow> string \<Rightarrow> real"

definition ContextAssemblyEngine ::
  "int \<Rightarrow> assembly_settings \<Rightarrow> retrieval_settings \<Rightarrow> token_counter \<Rightarrow> (string \<Rightarrow> string \<Rightarrow> real) \<Rightarrow> engine result"
where
  "ContextAssemblyEngine usable_budget settings weights counter similarity =
     (if usable_budget \<le> 0 then Inl (ValueError ''usable_budget must be positive'')
      else Inr \<lparr>en_usable = usable_budget, en_settings = settings, en_retrieval = weights,
                en_counter = counter, en_similarity = similarity\<rparr>)"

record selected_item =
  si_key :: string
  si_source :: cand_source
  si_tokens :: int
  si_score :: real

record alloc_stats =
  st_recent_tokens :: int
  st_retrieved_tokens :: int
  st_mandatory_tokens :: int
  st_tools_tokens :: int

record diagnostics =
  dg_stats :: alloc_stats
  dg_settings :: assembly_settings
  dg_weights :: retrieval_settings
  dg_drop_reasons :: "string list"

record engine_plan =
  ep_messages :: "pydict list"
  ep_selected :: "selected_item list"
  ep_dropped :: "dropped list"
  ep_token_estimate :: int
  ep_tools_tokens :: int
  ep_usable :: int
  ep_rationale :: string
  ep_diagnostics :: diagnostics

definition plan_within_budget :: "engine_plan \<Rightarrow> bool" where
  "plan_within_budget p = (ep_token_estimate p \<le> ep_usable p)"

record debug_view =
  dv_selected :: "(string \<times> string \<times> int \<times> real) list"
  dv_dropped :: "(string \<times> string \<times> string) list"
  dv_token_estimate :: int
  dv_tools_tokens :: int
  dv_usable :: int
  dv_rationale :: string
  dv_diagnostics :: diagnostics

definition debug_view_of :: "engine_plan \<Rightarrow> debug_view" where
  "debug_view_of p =
     \<lparr>dv_selected =
        map (\<lambda>i. (si_key i, source_value (si_source i), si_tokens i, si_score i)) (ep_selected p),
      dv_dropped = map (\<lambda>d. (d_key d, source_value (d_source d), d_reason d)) (ep_dropped p),
      dv_token_estimate = ep_token_estimate p, dv_tools_tokens = ep_tools_tokens p,
      dv_usable = ep_usable p, dv_rationale = ep_rationale p, dv_diagnostics = ep_diagnostics p\<rparr>"

record allocation =
  al_ordered :: "candidate list"
  al_stats :: alloc_stats

subsection \<open>Fusion\<close>

definition CURRENT_REQUEST_KEY :: string where
  "CURRENT_REQUEST_KEY = ''current_request''"

definition unit_candidate :: "nat \<times> ctx_unit \<Rightarrow> candidate result" where
  "unit_candidate iu =
     (case iu of (index, u) \<Rightarrow>
        let source = (if is_system u then SYSTEM else RECENT_TURN) in
        bind_r (message_texts (u_messages u)) (\<lambda>t.
        Inr \<lparr>c_source = source, c_key = ''unit:'' @ int_str (int index), c_tokens = u_tokens u,
             c_tier = TIER_BY_SOURCE source, c_render = u_messages u, c_text = canonical_text t,
             c_components = [],
             c_meta = no_meta
               \<lparr>m_position := Some (int index),
                m_content_texts := Some (concat (map content_texts (u_messages u)))\<rparr>\<rparr>))"

definition request_candidate :: "token_counter \<Rightarrow> pydict list \<Rightarrow> nat \<Rightarrow> candidate list result" where
  "request_candidate counter current_request n =
     (if current_request = [] then Inr []
      else bind_r (count_messages counter current_request) (\<lambda>tokens.
           bind_r (message_texts current_request) (\<lambda>t.
           Inr [\<lparr>c_source = CURRENT_REQUEST, c_key = CURRENT_REQUEST_KEY, c_tokens = tokens,
                 c_tier = TIER_BY_SOURCE CURRENT_REQUEST, c_render = current_request,
                 c_text = canonical_text t, c_components = [],
                 c_meta = no_meta \<lparr>m_position := Some (int n)\<rparr>\<rparr>])))"

definition tools_candidates :: "token_counter \<Rightarrow> json \<Rightarrow> candidate list result" where
  "tools_candidates counter tools =
     (if \<not> truthy tools then Inr []
      else bind_r (count_tools counter tools) (\<lambda>tokens.
           Inr [\<lparr>c_source = TOOL_DEFINITIONS, c_key = ''tool_definitions'', c_tokens = tokens,
                 c_tier = TIER_BY_SOURCE TOOL_DEFINITIONS, c_render = [], c_text = [],
                 c_components = [], c_meta = no_meta \<lparr>m_is_tools := Some True\<rparr>\<rparr>]))"

definition pinned_candidate :: "token_counter \<Rightarrow> nat \<times> pydict \<Rightarrow> candidate result" where
  "pinned_candidate counter im =
     (case im of (index, message) \<Rightarrow>
        bind_r (count_message counter message) (\<lambda>tokens.
        bind_r (message_texts [message]) (\<lambda>t.
        Inr \<lparr>c_source = PINNED, c_key = ''pinned:'' @ int_str (int index), c_tokens = tokens,
             c_tier = TIER_BY_SOURCE PINNED, c_render = [message], c_text = canonical_text t,
             c_components = [], c_meta = no_meta \<lparr>m_position := Some (int index)\<rparr>\<rparr>)))"

definition fuse_candidates ::
  "token_counter \<Rightarrow> pydict list \<Rightarrow> pydict list \<Rightarrow> json \<Rightarrow> pydict list \<Rightarrow> retrieved_item list
    \<Rightarrow> candidate list result"
where
  "fuse_candidates counter history current_request tools pinned retrieved =
     bind_r (segment_messages counter history) (\<lambda>units.
     bind_r (map_r unit_candidate (enumerate 0 units)) (\<lambda>cs1.
     bind_r (request_candidate counter current_request (length units)) (\<lambda>cs2.
     bind_r (tools_candidates counter tools) (\<lambda>cs3.
     bind_r (map_r (pinned_candidate counter) (enumerate 0 pinned)) (\<lambda>cs4.
     bind_r (map_r (candidate_from_retrieved counter) retrieved) (\<lambda>cs5.
     Inr (cs1 @ cs2 @ cs3 @ cs4 @ cs5)))))))"

subsection \<open>Filters\<close>

type_synonym dropped_dict = "(string \<times> dropped) list"

definition drop_candidate :: "string \<Rightarrow> dropped_dict \<Rightarrow> candidate \<Rightarrow> dropped_dict" where
  "drop_candidate reason ds c =
     AList.update (c_key c) \<lparr>d_key = c_key c, d_source = c_source c, d_reason = reason\<rparr> ds"

definition drop_where ::
  "(candidate \<Rightarrow> bool) \<Rightarrow> string \<Rightarrow> candidate list \<Rightarrow> dropped_dict \<Rightarrow> candidate list \<times> dropped_dict"
where
  "drop_where P reason candidates ds =
     (filter (\<lambda>c. \<not> P c) candidates, foldl (drop_candidate reason) ds (filter P candidates))"

definition filter_superseded ::
  "candidate list \<Rightarrow> string list \<Rightarrow> dropped_dict \<Rightarrow> candidate list \<times> dropped_dict"
where
  "filter_superseded candidates superseded_memory_ids ds =
     drop_where (\<lambda>c. c_source c = MEMORY \<and> c_key c \<in> set superseded_memory_ids) ''superseded''
       candidates ds"

definition RETRIEVAL_SOURCES :: "cand_source list" where
  "RETRIEVAL_SOURCES = [MEMORY, CHUNK]"

definition filter_foreign ::
  "candidate list \<Rightarrow> string option \<Rightarrow> dropped_dict \<Rightarrow> candidate list \<times> dropped_dict"
where
  "filter_foreign candidates conversation_id ds =
     (if conversation_id = None then (candidates, ds)
      else drop_where
             (\<lambda>c. c_source c \<in> set RETRIEVAL_SOURCES \<and> cand_conversation_id c \<noteq> conversation_id)
             ''foreign_conversation'' candidates ds)"

fun dedup_loop ::
  "string list \<Rightarrow> string list \<Rightarrow> dropped_dict \<Rightarrow> candidate list \<Rightarrow> candidate list \<times> dropped_dict"
where
  "dedup_loop seen_raw seen_retrieval duplicates [] = ([], duplicates)"
| "dedup_loop seen_raw seen_retrieval duplicates (c # cs) =
     (if c_tier c \<le> TIER_BY_SOURCE RECENT_TURN then
        let raw1 = (if c_text c = [] then seen_raw else c_text c # seen_raw);
            raw2 = (case m_content_texts (c_meta c) of None \<Rightarrow> [] | Some ts \<Rightarrow> ts) @ raw1
        in map_prod (Cons c) id (dedup_loop raw2 seen_retrieval duplicates cs)
      else
        (case m_dedup_text (c_meta c) of
           None \<Rightarrow> map_prod (Cons c) id (dedup_loop seen_raw seen_retrieval duplicates cs)
         | Some dedup_text \<Rightarrow>
             if dedup_text = [] then
               map_prod (Cons c) id (dedup_loop seen_raw seen_retrieval duplicates cs)
             else if dedup_text \<in> set seen_raw \<or> dedup_text \<in> set seen_retrieval then
               dedup_loop seen_raw seen_retrieval (drop_candidate ''duplicate'' duplicates c) cs
             else
               map_prod (Cons c) id (dedup_loop seen_raw (dedup_text # seen_retrieval) duplicates cs)))"

definition deduplicate :: "candidate list \<Rightarrow> candidate list \<times> dropped_dict" where
  "deduplicate candidates = dedup_loop [] [] [] candidates"

definition dict_update :: "(string \<times> 'a) list \<Rightarrow> (string \<times> 'a) list \<Rightarrow> (string \<times> 'a) list" where
  "dict_update ds new = foldl (\<lambda>d kv. AList.update (fst kv) (snd kv) d) ds new"

definition dict_get :: "(string \<times> 'a) list \<Rightarrow> string \<Rightarrow> 'a result" where
  "dict_get d k = (case map_of d k of None \<Rightarrow> Inl KeyError | Some v \<Rightarrow> Inr v)"

definition dict_by :: "('b \<Rightarrow> string) \<Rightarrow> ('b \<Rightarrow> 'a) \<Rightarrow> 'b list \<Rightarrow> (string \<times> 'a) list" where
  "dict_by key val xs = dict_update [] (map (\<lambda>x. (key x, val x)) xs)"

subsection \<open>Allocation\<close>

datatype slot = Tools_slot | Mandatory_slot | Recent_slot | Retrieval_slot

definition slot_of :: "candidate \<Rightarrow> slot" where
  "slot_of c =
     (if c_source c = TOOL_DEFINITIONS then Tools_slot
      else if c_tier c \<le> TIER_BY_SOURCE PINNED then Mandatory_slot
      else if c_source c = CURRENT_REQUEST then Mandatory_slot
      else if c_source c = RECENT_TURN then Recent_slot
      else Retrieval_slot)"

text \<open>The loop over \<open>reversed(recent)\<close> up to its \<open>break\<close>.\<close>

fun recent_window :: "int \<Rightarrow> int \<Rightarrow> candidate list \<Rightarrow> candidate list \<times> int" where
  "recent_window remaining recent_tokens [] = ([], recent_tokens)"
| "recent_window remaining recent_tokens (c # cs) =
     (if recent_tokens + c_tokens c > remaining then ([], recent_tokens)
      else map_prod (Cons c) id (recent_window remaining (recent_tokens + c_tokens c) cs))"

text \<open>The loop over the ranked keys.\<close>

record pack_state =
  pk_picked :: "candidate list"
  pk_tokens :: int
  pk_dropped :: dropped_dict

definition pack_step ::
  "(string \<times> candidate) list \<Rightarrow> int \<Rightarrow> pack_state \<Rightarrow> string \<Rightarrow> pack_state result"
where
  "pack_step by_key cap s key =
     bind_r (dict_get by_key key) (\<lambda>c.
     if pk_tokens s + c_tokens c > cap then
       Inr (s\<lparr>pk_dropped := AList.update key \<lparr>d_key = key, d_source = c_source c, d_reason = ''budget''\<rparr>
                (pk_dropped s)\<rparr>)
     else Inr (s\<lparr>pk_picked := pk_picked s @ [c], pk_tokens := pk_tokens s + c_tokens c\<rparr>))"

definition pack_retrieval ::
  "engine \<Rightarrow> (string \<times> real) list \<Rightarrow> int \<Rightarrow> candidate list \<Rightarrow> dropped_dict \<Rightarrow> pack_state result"
where
  "pack_retrieval en scores remaining retrieval ds =
     (let start = \<lparr>pk_picked = [], pk_tokens = 0, pk_dropped = ds\<rparr> in
      if retrieval \<noteq> [] \<and> remaining > 0 \<and> max_retrieved_items (en_settings en) > 0 then
        bind_r (map_r (\<lambda>c. bind_r (dict_get scores (c_key c)) (\<lambda>s. Inr (s, c_key c))) retrieval) (\<lambda>scored.
        let ranked = mmr_select scored (en_similarity en)
              (min (max_retrieved_items (en_settings en)) (int (length retrieval)))
              (mmr_lambda (en_settings en));
            by_key = dict_by c_key (\<lambda>c. c) retrieval;
            retrieved_cap = min remaining (retrieved_budget_tokens (en_settings en))
        in fold_r (pack_step by_key retrieved_cap) start ranked)
      else Inr start)"

definition head_key :: "candidate \<Rightarrow> int \<times> int \<times> string" where
  "head_key c = (c_tier c, (case m_position (c_meta c) of None \<Rightarrow> 0 | Some p \<Rightarrow> p), c_key c)"

definition drop_absent :: "string \<Rightarrow> string list \<Rightarrow> candidate list \<Rightarrow> dropped_dict \<Rightarrow> dropped_dict" where
  "drop_absent reason kept_keys candidates ds =
     foldl (drop_candidate reason) ds (filter (\<lambda>c. c_key c \<notin> set kept_keys) candidates)"

definition drop_unselected :: "string list \<Rightarrow> candidate list \<Rightarrow> dropped_dict \<Rightarrow> dropped_dict" where
  "drop_unselected picked_keys retrieval ds =
     foldl (\<lambda>d c. if c_key c \<notin> set picked_keys \<and> map_of d (c_key c) = None
                   then drop_candidate ''not_selected'' d c else d) ds retrieval"

definition allocate ::
  "engine \<Rightarrow> candidate list \<Rightarrow> (string \<times> real) list \<Rightarrow> dropped_dict
    \<Rightarrow> engine_error + (allocation \<times> dropped_dict)"
where
  "allocate en candidates scores ds =
     (let mandatory = filter (\<lambda>c. slot_of c = Mandatory_slot) candidates;
          recent = filter (\<lambda>c. slot_of c = Recent_slot) candidates;
          retrieval = filter (\<lambda>c. slot_of c = Retrieval_slot) candidates;
          tools = filter (\<lambda>c. slot_of c = Tools_slot) candidates;
          tools_tokens = (if tools = [] then 0 else c_tokens (last tools));
          mandatory_tokens = sum_by c_tokens mandatory in
      if mandatory_tokens + tools_tokens > en_usable en
      then Inl (EngineOverflow (mandatory_tokens + tools_tokens) (en_usable en))
      else
      let remaining = en_usable en - mandatory_tokens - tools_tokens;
          window = recent_window remaining 0 (rev recent);
          kept_recent = rev (fst window);
          recent_tokens = snd window;
          remaining' = remaining - recent_tokens;
          ds1 = drop_absent ''budget'' (map c_key kept_recent) recent ds in
      bind_r (lift_engine (pack_retrieval en scores remaining' retrieval ds1)) (\<lambda>pk.
      let ds2 = drop_unselected (map c_key (pk_picked pk)) retrieval (pk_dropped pk);
          head = sort_key head_key mandatory;
          tail = List.find (\<lambda>c. c_source c = CURRENT_REQUEST) head;
          head_no_request = (case tail of None \<Rightarrow> head | Some t \<Rightarrow> remove1 t head) in
      Inr (\<lparr>al_ordered = head_no_request @ pk_picked pk @ kept_recent
                @ (case tail of None \<Rightarrow> [] | Some t \<Rightarrow> [t]),
            al_stats = \<lparr>st_recent_tokens = recent_tokens, st_retrieved_tokens = pk_tokens pk,
                        st_mandatory_tokens = mandatory_tokens, st_tools_tokens = tools_tokens\<rparr>\<rparr>,
           ds2)))"

subsection \<open>The plan\<close>

definition trust_violation :: "candidate \<Rightarrow> bool" where
  "trust_violation c =
     (cand_classification c = DERIVED_CONTEXT \<and> c_render c \<noteq> []
      \<and> dget (hd (c_render c)) ''role'' = JStr ''system'')"

definition render_step ::
  "(string \<times> real) list \<Rightarrow> (pydict list \<times> int \<times> selected_item list) \<Rightarrow> candidate
    \<Rightarrow> (pydict list \<times> int \<times> selected_item list) result"
where
  "render_step scores s c =
     (case s of (messages, token_estimate, selected_items) \<Rightarrow>
      if trust_violation c
      then Inl (RuntimeError (''derived candidate '' @ str_repr (c_key c)
                  @ '' rendered as a trusted system instruction''))
      else Inr (messages @ c_render c, token_estimate + c_tokens c,
                selected_items @
                  (if c_source c \<noteq> TOOL_DEFINITIONS
                   then [\<lparr>si_key = c_key c, si_source = c_source c, si_tokens = c_tokens c,
                          si_score = (case map_of scores (c_key c) of None \<Rightarrow> 0 | Some x \<Rightarrow> x)\<rparr>]
                   else [])))"

definition rationale_text :: "nat \<Rightarrow> alloc_stats \<Rightarrow> nat \<Rightarrow> string" where
  "rationale_text n stats dropped_count =
     ''selected '' @ int_str (int n) @ '' items (recent='' @ int_str (st_recent_tokens stats)
     @ ''tok, retrieved='' @ int_str (st_retrieved_tokens stats)
     @ ''tok, mandatory='' @ int_str (st_mandatory_tokens stats)
     @ ''tok, tools='' @ int_str (st_tools_tokens stats)
     @ ''tok); dropped '' @ int_str (int dropped_count)"

definition make_plan ::
  "engine \<Rightarrow> allocation \<Rightarrow> (string \<times> real) list \<Rightarrow> dropped_dict \<Rightarrow> engine_error + engine_plan"
where
  "make_plan en alloc scores ds =
     bind_r (lift_engine (fold_r (render_step scores) ([], 0, []) (al_ordered alloc))) (\<lambda>(messages, est, selected_items).
     let stats = al_stats alloc;
         token_estimate = est + st_tools_tokens stats in
     if token_estimate > en_usable en then Inl (EngineOverflow token_estimate (en_usable en))
     else
     Inr \<lparr>ep_messages = messages, ep_selected = selected_items,
          ep_dropped = List.map_filter (map_of ds) (sort (map fst ds)),
          ep_token_estimate = token_estimate, ep_tools_tokens = st_tools_tokens stats,
          ep_usable = en_usable en,
          ep_rationale = rationale_text (length selected_items) stats (length ds),
          ep_diagnostics =
            \<lparr>dg_stats = stats, dg_settings = en_settings en, dg_weights = en_retrieval en,
             dg_drop_reasons = sort (remdups (map (d_reason \<circ> snd) ds))\<rparr>\<rparr>)"

definition build ::
  "engine \<Rightarrow> pydict list \<Rightarrow> pydict list \<Rightarrow> json \<Rightarrow> pydict list \<Rightarrow> retrieved_item list
    \<Rightarrow> string list \<Rightarrow> string option \<Rightarrow> engine_error + engine_plan"
where
  "build en history current_request tools pinned retrieved superseded_memory_ids conversation_id =
     bind_r (lift_engine (fuse_candidates (en_counter en) history current_request tools pinned retrieved)) (\<lambda>fused0.
     let (fused1, ds1) = filter_superseded fused0 superseded_memory_ids [];
         (fused2, ds2) = filter_foreign fused1 conversation_id ds1;
         (fused, duplicates) = deduplicate fused2;
         ds3 = dict_update ds2 duplicates;
         scored = dict_by c_key (relevance_score (en_retrieval en)) fused in
     bind_r (allocate en fused scored ds3) (\<lambda>(allocation, ds4).
     make_plan en allocation scored ds4))"

section \<open>Splitting the payload\<close>

lemma last_user_index_Some:
  "last_user_index ms n = Some u \<Longrightarrow> u < n \<and> is_user (ms ! u) \<and> (\<forall>j. u < j \<and> j < n \<longrightarrow> \<not> is_user (ms ! j))"
  by (induction n) (auto simp: is_user_def role_of_def less_Suc_eq split: if_splits)

lemma last_user_index_None: "last_user_index ms n = None \<Longrightarrow> \<forall>j < n. \<not> is_user (ms ! j)"
  by (induction n) (auto simp: is_user_def role_of_def less_Suc_eq split: if_splits)

lemma trailing_end_Inr:
  "trailing_end ms u n = Inr e \<Longrightarrow> u < n \<Longrightarrow> u < e \<and> e \<le> n \<and> (\<forall>j. e \<le> j \<and> j < n \<longrightarrow> is_instruction (ms ! j))
     \<and> (Suc u < e \<longrightarrow> \<not> is_instruction (ms ! (e - 1)))"
proof (induction n)
  case (Suc n)
  show ?case
  proof (cases "u < n")
    case True
    from Suc.prems True obtain b where b: "is_instruction_role (dget (ms ! n) ''role'') = Inr b"
      by (auto simp: result_simps)
    then have "is_instruction (ms ! n) = b" by (auto dest: is_instruction_role_Inr simp: role_of_def)
    with Suc True b show ?thesis by (cases b) (auto simp: less_Suc_eq)
  next
    case False
    with Suc.prems show ?thesis by auto
  qed
qed simp

section \<open>The sources of candidates\<close>

lemma map_r_projr: "map_r f xs = Inr ys \<Longrightarrow> ys = map (\<lambda>x. projr (f x)) xs \<and> (\<forall>x \<in> set xs. f x = Inr (projr (f x)))"
  by (induction xs arbitrary: ys) (auto simp: result_simps)

text \<open>Every candidate carries the tier of its source and no explicit classification.\<close>

definition well_tiered :: "candidate \<Rightarrow> bool" where
  "well_tiered c \<longleftrightarrow> c_tier c = TIER_BY_SOURCE (c_source c) \<and> m_classification (c_meta c) = None"

lemma slot_of_source:
  "well_tiered c \<Longrightarrow> slot_of c =
     (case c_source c of TOOL_DEFINITIONS \<Rightarrow> Tools_slot | RECENT_TURN \<Rightarrow> Recent_slot
      | MEMORY \<Rightarrow> Retrieval_slot | CHUNK \<Rightarrow> Retrieval_slot | _ \<Rightarrow> Mandatory_slot)"
  by (cases "c_source c") (auto simp: slot_of_def well_tiered_def)

lemma no_meta_sel [simp]:
  "m_classification no_meta = None" "m_conversation_id no_meta = None" "m_position no_meta = None"
  "m_dedup_text no_meta = None" "m_content_texts no_meta = None"
  by (simp_all add: no_meta_def)

lemma unit_candidate_Inr:
  "unit_candidate (i, u) = Inr c \<Longrightarrow> well_tiered c \<and> c_source c = (if is_system u then SYSTEM else RECENT_TURN)
     \<and> c_tokens c = u_tokens u \<and> c_render c = u_messages u \<and> m_position (c_meta c) = Some (int i)
     \<and> c_key c = ''unit:'' @ int_str (int i)"
  by (auto simp: unit_candidate_def Let_def result_simps well_tiered_def)

lemma request_candidate_Inr:
  "request_candidate counter cur n = Inr cs \<Longrightarrow> (cur = [] \<and> cs = []) \<or>
     (\<exists>c. cs = [c] \<and> well_tiered c \<and> c_source c = CURRENT_REQUEST \<and> c_render c = cur
        \<and> count_messages counter cur = Inr (c_tokens c) \<and> c_key c = CURRENT_REQUEST_KEY)"
  by (auto simp: request_candidate_def result_simps well_tiered_def split: if_splits)

lemma pinned_candidate_Inr:
  "pinned_candidate counter (i, m) = Inr c \<Longrightarrow> well_tiered c \<and> c_source c = PINNED
     \<and> c_render c = [m] \<and> count_message counter m = Inr (c_tokens c) \<and> m_position (c_meta c) = Some (int i)
     \<and> c_key c = ''pinned:'' @ int_str (int i)"
  by (auto simp: pinned_candidate_def result_simps well_tiered_def)

lemma retrieved_candidate_Inr:
  "candidate_from_retrieved counter item = Inr c \<Longrightarrow> well_tiered c
     \<and> c_source c = (if ri_item_type item = Item_memory then MEMORY else CHUNK)
     \<and> c_render c = [retrieved_block item] \<and> count_message counter (retrieved_block item) = Inr (c_tokens c)
     \<and> c_key c = ri_id item \<and> cand_conversation_id c = Some (ri_conversation_id item)
     \<and> dedup_text_of item = Inr (the (m_dedup_text (c_meta c))) \<and> m_dedup_text (c_meta c) \<noteq> None"
  by (auto simp: candidate_from_retrieved_def Let_def result_simps well_tiered_def cand_conversation_id_def)

lemma tools_candidates_Inr:
  "tools_candidates counter tools = Inr cs \<Longrightarrow> (\<not> truthy tools \<and> cs = []) \<or>
     (\<exists>c. cs = [c] \<and> well_tiered c \<and> c_source c = TOOL_DEFINITIONS \<and> c_render c = [] \<and> truthy tools
        \<and> count_tools counter tools = Inr (c_tokens c))"
  by (auto simp: tools_candidates_def result_simps well_tiered_def split: if_splits)

lemma retrieved_block_role: "dget (retrieved_block item) ''role'' = JStr ''user''"
  by (simp add: retrieved_block_def Let_def)

text \<open>The candidates of the history, split by kind.\<close>

definition pos_of :: "candidate \<Rightarrow> int" where
  "pos_of c = the (m_position (c_meta c))"

definition from_unit :: "nat \<times> ctx_unit \<Rightarrow> candidate \<Rightarrow> bool" where
  "from_unit iu c \<longleftrightarrow> unit_candidate iu = Inr c"

lemma unit_lists:
  assumes "list_all2 from_unit (enumerate n us) cs"
  shows "map c_render (filter (\<lambda>c. c_source c = SYSTEM) cs) = map u_messages (filter is_system us)"
    and "map c_tokens (filter (\<lambda>c. c_source c = SYSTEM) cs) = map u_tokens (filter is_system us)"
    and "map c_render (filter (\<lambda>c. c_source c = RECENT_TURN) cs) = map u_messages (filter (Not \<circ> is_system) us)"
    and "map c_tokens (filter (\<lambda>c. c_source c = RECENT_TURN) cs) = map u_tokens (filter (Not \<circ> is_system) us)"
    and "\<forall>c \<in> set cs. well_tiered c \<and> c_source c \<in> {SYSTEM, RECENT_TURN} \<and> m_position (c_meta c) \<noteq> None \<and> int n \<le> pos_of c"
    and "sorted_wrt (<) (map pos_of cs)"
  using assms
proof (induction us arbitrary: n cs)
  case (Cons u us)
  {
    case 1 with Cons show ?case
      by (auto simp: from_unit_def list_all2_Cons1 dest!: unit_candidate_Inr)
  next
    case 2 with Cons show ?case
      by (auto simp: from_unit_def list_all2_Cons1 dest!: unit_candidate_Inr)
  next
    case 3 with Cons show ?case
      by (auto simp: from_unit_def list_all2_Cons1 dest!: unit_candidate_Inr)
  next
    case 4 with Cons show ?case
      by (auto simp: from_unit_def list_all2_Cons1 dest!: unit_candidate_Inr)
  next
    case 5
    then obtain c cs' where cs: "cs = c # cs'" "from_unit (n, u) c" "list_all2 from_unit (enumerate (Suc n) us) cs'"
      by (auto simp: list_all2_Cons1)
    have "well_tiered c \<and> c_source c \<in> {SYSTEM, RECENT_TURN} \<and> m_position (c_meta c) = Some (int n)"
      using cs(2) by (auto simp: from_unit_def dest!: unit_candidate_Inr split: if_splits)
    with Cons.IH(5) [OF cs(3)] show ?case by (auto simp: cs(1) pos_of_def [of c])
  next
    case 6
    then obtain c cs' where cs: "cs = c # cs'" "from_unit (n, u) c" "list_all2 from_unit (enumerate (Suc n) us) cs'"
      by (auto simp: list_all2_Cons1)
    have "pos_of c = int n" using cs(2) by (auto simp: from_unit_def pos_of_def dest!: unit_candidate_Inr)
    with Cons.IH(5,6) [OF cs(3)] show ?case by (force simp: cs(1))
  }
qed simp_all

definition from_pinned :: "token_counter \<Rightarrow> nat \<times> pydict \<Rightarrow> candidate \<Rightarrow> bool" where
  "from_pinned counter im c \<longleftrightarrow> pinned_candidate counter im = Inr c"

lemma pinned_lists:
  assumes "list_all2 (from_pinned counter) (enumerate n ms) cs"
  shows "map c_render cs = map (\<lambda>m. [m]) ms"
    and "\<forall>c \<in> set cs. well_tiered c \<and> c_source c = PINNED \<and> m_position (c_meta c) \<noteq> None \<and> int n \<le> pos_of c"
    and "sorted_wrt (<) (map pos_of cs)"
    and "list_all2 (\<lambda>m c. count_message counter m = Inr (c_tokens c)) ms cs"
  using assms
proof (induction ms arbitrary: n cs)
  case (Cons m ms)
  {
    case 1 with Cons show ?case
      by (auto simp: from_pinned_def list_all2_Cons1 dest!: pinned_candidate_Inr)
  next
    case 2
    then obtain c cs' where cs: "cs = c # cs'" "from_pinned counter (n, m) c"
      "list_all2 (from_pinned counter) (enumerate (Suc n) ms) cs'" by (auto simp: list_all2_Cons1)
    have "well_tiered c \<and> c_source c = PINNED \<and> m_position (c_meta c) = Some (int n)"
      using cs(2) by (auto simp: from_pinned_def dest!: pinned_candidate_Inr)
    with Cons.IH(2) [OF cs(3)] show ?case by (auto simp: cs(1) pos_of_def [of c])
  next
    case 3
    then obtain c cs' where cs: "cs = c # cs'" "from_pinned counter (n, m) c"
      "list_all2 (from_pinned counter) (enumerate (Suc n) ms) cs'" by (auto simp: list_all2_Cons1)
    have "pos_of c = int n" using cs(2) by (auto simp: from_pinned_def pos_of_def dest!: pinned_candidate_Inr)
    with Cons.IH(2,3) [OF cs(3)] show ?case by (force simp: cs(1))
  next
    case 4 with Cons show ?case
      by (auto simp: from_pinned_def list_all2_Cons1 dest!: pinned_candidate_Inr)
  }
qed simp_all

definition from_item :: "token_counter \<Rightarrow> retrieved_item \<Rightarrow> candidate \<Rightarrow> bool" where
  "from_item counter item c \<longleftrightarrow> candidate_from_retrieved counter item = Inr c"

lemma fuse_shape:
  assumes "fuse_candidates counter h cur tools pinned retr = Inr cs"
  obtains us cs1 cs2 cs3 cs4 cs5 where "cs = cs1 @ cs2 @ cs3 @ cs4 @ cs5" "segment_messages counter h = Inr us"
    "list_all2 from_unit (enumerate 0 us) cs1" "request_candidate counter cur (length us) = Inr cs2"
    "tools_candidates counter tools = Inr cs3" "list_all2 (from_pinned counter) (enumerate 0 pinned) cs4"
    "list_all2 (from_item counter) retr cs5"
proof -
  from assms obtain us cs1 cs2 cs3 cs4 cs5 where "cs = cs1 @ cs2 @ cs3 @ cs4 @ cs5" "segment_messages counter h = Inr us"
    "map_r unit_candidate (enumerate 0 us) = Inr cs1" "request_candidate counter cur (length us) = Inr cs2"
    "tools_candidates counter tools = Inr cs3" "map_r (pinned_candidate counter) (enumerate 0 pinned) = Inr cs4"
    "map_r (candidate_from_retrieved counter) retr = Inr cs5"
    unfolding fuse_candidates_def bind_r_eq_Inr by auto
  then show ?thesis
    by (intro that [of cs1 cs2 cs3 cs4 cs5 us])
      (simp_all add: map_r_eq_Inr from_unit_def [abs_def] from_pinned_def [abs_def] from_item_def [abs_def])
qed

section \<open>The filters\<close>

text \<open>What \<open>build\<close> hands to the allocation: the surviving candidates and what was dropped.\<close>

definition survivors ::
  "candidate list \<Rightarrow> string list \<Rightarrow> string option \<Rightarrow> candidate list \<times> dropped_dict"
where
  "survivors cs old conv =
     (let (cs1, ds1) = filter_superseded cs old [];
          (cs2, ds2) = filter_foreign cs1 conv ds1;
          (cs3, duplicates) = deduplicate cs2
      in (cs3, dict_update ds2 duplicates))"

lemma build_survivors:
  "build en h cur tools pinned retr old conv =
     bind_r (lift_engine (fuse_candidates (en_counter en) h cur tools pinned retr)) (\<lambda>cs.
     let scored = dict_by c_key (relevance_score (en_retrieval en)) (fst (survivors cs old conv)) in
     bind_r (allocate en (fst (survivors cs old conv)) scored (snd (survivors cs old conv))) (\<lambda>(al, ds).
     make_plan en al scored ds))"
  unfolding build_def survivors_def Let_def by (simp add: case_prod_beta)

abbreviation is_raw :: "candidate \<Rightarrow> bool" where
  "is_raw c \<equiv> c_tier c \<le> 4"

lemma dedup_loop_raw: "filter is_raw (fst (dedup_loop r t d cs)) = filter is_raw cs"
  by (induction cs arbitrary: r t d) (simp_all add: Let_def split: option.split)

lemma dedup_loop_subset: "set (fst (dedup_loop r t d cs)) \<subseteq> set cs"
proof (induction cs arbitrary: r t d)
  case (Cons c cs)
  have "set (fst (dedup_loop r t d cs)) \<subseteq> set (c # cs)" for r t d using Cons by (meson subset_trans set_subset_Cons)
  with Cons show ?case by (simp add: Let_def insert_mono split: option.split)
qed simp

definition raw_texts :: "candidate list \<Rightarrow> string set" where
  "raw_texts cs = {x. \<exists>c \<in> set cs. is_raw c \<and> (x = c_text c \<and> x \<noteq> []
      \<or> (\<exists>ts. m_content_texts (c_meta c) = Some ts \<and> x \<in> set ts))}"

definition dedup_texts :: "candidate list \<Rightarrow> string list" where
  "dedup_texts cs = filter (\<lambda>x. x \<noteq> []) (List.map_filter (\<lambda>c. m_dedup_text (c_meta c)) (filter (\<lambda>c. \<not> is_raw c) cs))"

lemma dedup_texts_simps [simp]:
  "dedup_texts [] = []"
  "dedup_texts (c # cs) =
     (if is_raw c then dedup_texts cs
      else case m_dedup_text (c_meta c) of None \<Rightarrow> dedup_texts cs
        | Some x \<Rightarrow> if x = [] then dedup_texts cs else x # dedup_texts cs)"
  by (auto simp: dedup_texts_def List.map_filter_simps split: option.split)

lemma dedup_loop_fresh:
  "distinct (dedup_texts (fst (dedup_loop r t d cs)))
   \<and> set (dedup_texts (fst (dedup_loop r t d cs))) \<inter> (set r \<union> set t) = {}"
proof (induction cs arbitrary: r t d)
  case (Cons c cs)
  show ?case
  proof (cases "is_raw c")
    case True
    then show ?thesis
      using Cons [of "(case m_content_texts (c_meta c) of None \<Rightarrow> [] | Some ts \<Rightarrow> ts)
        @ (if c_text c = [] then r else c_text c # r)" t d] by (auto simp: Let_def)
  next
    case False
    show ?thesis
    proof (cases "m_dedup_text (c_meta c)")
      case None
      with False Cons [of r t d] show ?thesis by simp
    next
      case (Some x)
      with False Cons [of r t d] Cons [of r "x # t" d] Cons [of r t "drop_candidate ''duplicate'' d c"]
      show ?thesis by auto
    qed
  qed
qed simp

lemma dedup_loop_prefix:
  assumes "\<forall>c \<in> set xs. is_raw c"
  shows "\<exists>r'. fst (dedup_loop r t d (xs @ ys)) = xs @ fst (dedup_loop r' t d ys) \<and> set r' = raw_texts xs \<union> set r"
  using assms
proof (induction xs arbitrary: r)
  case Nil
  show ?case by (auto simp: raw_texts_def)
next
  case (Cons c xs)
  let ?r = "(case m_content_texts (c_meta c) of None \<Rightarrow> [] | Some ts \<Rightarrow> ts)
      @ (if c_text c = [] then r else c_text c # r)"
  obtain r' where r': "fst (dedup_loop ?r t d (xs @ ys)) = xs @ fst (dedup_loop r' t d ys)"
    "set r' = raw_texts xs \<union> set ?r" using Cons by (metis list.set_intros(2))
  have "raw_texts (c # xs) \<union> set r = raw_texts xs \<union> set ?r"
    using Cons.prems by (auto simp: raw_texts_def split: option.split)
  with r' Cons.prems show ?case by (intro exI [of _ r']) (simp add: Let_def)
qed

definition live :: "string list \<Rightarrow> string option \<Rightarrow> candidate \<Rightarrow> bool" where
  "live old conv c \<longleftrightarrow> \<not> (c_source c = MEMORY \<and> c_key c \<in> set old)
     \<and> (conv = None \<or> c_source c \<notin> {MEMORY, CHUNK} \<or> cand_conversation_id c = conv)"

lemma filtered_live: "fst (filter_foreign (fst (filter_superseded cs old [])) conv ds) = filter (live old conv) cs"
  by (auto simp: filter_superseded_def filter_foreign_def drop_where_def RETRIEVAL_SOURCES_def live_def
      intro!: filter_cong)

lemma survivors_fst: "fst (survivors cs old conv) = fst (dedup_loop [] [] [] (filter (live old conv) cs))"
  unfolding filtered_live [symmetric, where ds = "snd (filter_superseded cs old [])"]
  by (simp add: survivors_def deduplicate_def case_prod_beta Let_def)

lemma survivors_live: "c \<in> set (fst (survivors cs old conv)) \<Longrightarrow> c \<in> set cs \<and> live old conv c"
  using dedup_loop_subset [of "[]" "[]" "[]" "filter (live old conv) cs"] by (auto simp: survivors_fst)

lemma survivors_raw:
  assumes "\<forall>c \<in> set cs. well_tiered c"
  shows "filter is_raw (fst (survivors cs old conv)) = filter is_raw cs"
proof -
  have "live old conv c" if "c \<in> set cs" "is_raw c" for c
    using assms that by (auto simp: well_tiered_def live_def)
  then show ?thesis by (auto simp: survivors_fst dedup_loop_raw intro!: filter_cong)
qed

section \<open>The allocation\<close>

lemma dict_by_snoc: "dict_by key val (xs @ [x]) = AList.update (key x) (val x) (dict_by key val xs)"
  by (simp add: dict_by_def dict_update_def)

lemma dict_by_None: "map_of (dict_by key val xs) k = None \<longleftrightarrow> k \<notin> key ` set xs"
  by (induction xs rule: rev_induct) (auto simp: dict_by_snoc update_conv' dict_by_def dict_update_def)

lemma dict_by_Some: "map_of (dict_by key val xs) k = Some v \<Longrightarrow> \<exists>x \<in> set xs. key x = k \<and> val x = v"
  by (induction xs rule: rev_induct)
    (auto simp: dict_by_snoc update_conv' dict_by_def dict_update_def split: if_splits)

lemma recent_window_spec:
  "\<exists>n \<le> length cs. recent_window B t cs = (take n cs, t + sum_by c_tokens (take n cs))
     \<and> (n = length cs \<or> B < t + sum_by c_tokens (take (Suc n) cs)) \<and> (n = 0 \<or> t + sum_by c_tokens (take n cs) \<le> B)"
proof (induction cs arbitrary: t)
  case (Cons c cs)
  show ?case
  proof (cases "B < t + c_tokens c")
    case True
    then show ?thesis by (intro exI [of _ 0]) simp
  next
    case False
    from Cons [of "t + c_tokens c"] obtain n where n: "n \<le> length cs"
      "recent_window B (t + c_tokens c) cs = (take n cs, t + c_tokens c + sum_by c_tokens (take n cs))"
      "n = length cs \<or> B < t + c_tokens c + sum_by c_tokens (take (Suc n) cs)"
      "n = 0 \<or> t + c_tokens c + sum_by c_tokens (take n cs) \<le> B" by blast
    with False show ?thesis by (intro exI [of _ "Suc n"]) (auto simp: add.assoc)
  qed
qed simp

text \<open>The window as a suffix of the recent units, oldest first.\<close>

lemma recent_suffix:
  obtains k where "k \<le> length rs" "rev (fst (recent_window B 0 (rev rs))) = drop k rs"
    "snd (recent_window B 0 (rev rs)) = sum_by c_tokens (drop k rs)"
    "k = length rs \<or> sum_by c_tokens (drop k rs) \<le> B"
    "k = 0 \<or> B < sum_by c_tokens (drop (k - 1) rs)"
proof -
  obtain n where n: "n \<le> length rs"
    "recent_window B 0 (rev rs) = (take n (rev rs), sum_by c_tokens (take n (rev rs)))"
    "n = length rs \<or> B < sum_by c_tokens (take (Suc n) (rev rs))"
    "n = 0 \<or> sum_by c_tokens (take n (rev rs)) \<le> B"
    using recent_window_spec [of "rev rs" B 0] by auto
  have t: "rev (take m (rev rs)) = drop (length rs - m) rs" for m by (simp add: rev_take)
  then have sm: "sum_by c_tokens (take m (rev rs)) = sum_by c_tokens (drop (length rs - m) rs)" for m
    using sum_by_simps(4) [of c_tokens "take m (rev rs)"] by simp
  have pred: "length rs - Suc n = length rs - n - 1" by simp
  show ?thesis
  proof (rule that [of "length rs - n"])
    show "rev (fst (recent_window B 0 (rev rs))) = drop (length rs - n) rs"
      "snd (recent_window B 0 (rev rs)) = sum_by c_tokens (drop (length rs - n) rs)"
      unfolding n(2) by (simp_all add: t sm)
    show "length rs - n = length rs \<or> sum_by c_tokens (drop (length rs - n) rs) \<le> B"
      using n(4) unfolding sm by auto
    show "length rs - n = 0 \<or> B < sum_by c_tokens (drop (length rs - n - 1) rs)"
      using n(3) unfolding sm pred by auto
  qed simp
qed

lemma mmr_loop_keys: "set (mmr_loop lam sim l sel rem) \<subseteq> set sel \<union> snd ` set rem"
proof (induction "length rem" arbitrary: sel rem rule: less_induct)
  case less
  show ?case
  proof (cases "rem = [] \<or> l \<le> int (length sel)")
    case True
    then show ?thesis by (subst mmr_loop.simps) auto
  next
    case False
    then obtain s k where sk: "(s, k) \<in> set rem" and step: "mmr_loop lam sim l sel rem
        = mmr_loop lam sim l (sel @ [k]) (filter (\<lambda>p. snd p \<noteq> k) rem)"
      using mmr_step [of rem lam sim sel l] by metis
    have "length (filter (\<lambda>p. snd p \<noteq> k) rem) < length rem"
      using sk by (intro length_filter_less [of "(s, k)"]) auto
    from less [OF this, of "sel @ [k]"] show ?thesis unfolding step using sk by force
  qed
qed

lemma mmr_select_keys: "set (mmr_select scored sim l lam) \<subseteq> snd ` set scored"
proof (cases "sort_key (\<lambda>(s, k). (- s, k)) scored")
  case Nil
  then show ?thesis by (simp add: mmr_select_def)
next
  case (Cons p rest)
  have "set scored = set (p # rest)" using set_sort [of "\<lambda>(s, k). (- s, k)" scored] Cons by simp
  with Cons mmr_loop_keys [of lam sim l "[snd p]" rest] show ?thesis
    by (cases p) (auto simp: mmr_select_def)
qed

lemma mmr_loop_length: "int (length (mmr_loop lam sim l sel rem)) \<le> max l (int (length sel))"
proof (induction "length rem" arbitrary: sel rem rule: less_induct)
  case less
  show ?case
  proof (cases "rem = [] \<or> l \<le> int (length sel)")
    case True
    then show ?thesis by (subst mmr_loop.simps) auto
  next
    case False
    then obtain s k where sk: "(s, k) \<in> set rem" and step: "mmr_loop lam sim l sel rem
        = mmr_loop lam sim l (sel @ [k]) (filter (\<lambda>p. snd p \<noteq> k) rem)"
      using mmr_step [of rem lam sim sel l] by metis
    have "length (filter (\<lambda>p. snd p \<noteq> k) rem) < length rem"
      using sk by (intro length_filter_less [of "(s, k)"]) auto
    from less [OF this, of "sel @ [k]"] False show ?thesis unfolding step by simp
  qed
qed

lemma mmr_select_length: "0 < l \<Longrightarrow> int (length (mmr_select scored sim l lam)) \<le> l"
proof (cases "sort_key (\<lambda>(s, k). (- s, k)) scored")
  case (Cons p rest)
  assume "0 < l"
  with Cons mmr_loop_length [of lam sim l "[snd p]" rest] show ?thesis
    by (cases p) (auto simp: mmr_select_def)
qed (simp add: mmr_select_def)

definition pack_inv :: "candidate list \<Rightarrow> int \<Rightarrow> pack_state \<Rightarrow> bool" where
  "pack_inv retrieval cap s \<longleftrightarrow> set (pk_picked s) \<subseteq> set retrieval \<and> pk_tokens s = sum_by c_tokens (pk_picked s)
     \<and> (pk_picked s = [] \<or> pk_tokens s \<le> cap)"

lemma pack_fold:
  assumes "set ks \<subseteq> c_key ` set retrieval" "pack_inv retrieval cap s"
  shows "\<exists>s'. fold_r (pack_step (dict_by c_key (\<lambda>c. c) retrieval) cap) s ks = Inr s' \<and> pack_inv retrieval cap s'
    \<and> length (pk_picked s') \<le> length (pk_picked s) + length ks
    \<and> (distinct (map c_key (pk_picked s) @ ks) \<longrightarrow> distinct (map c_key (pk_picked s')))"
  using assms
proof (induction ks arbitrary: s)
  case (Cons k ks)
  obtain c where "map_of (dict_by c_key (\<lambda>c. c) retrieval) k = Some c"
    using Cons.prems(1) dict_by_None [of c_key "\<lambda>c. c" retrieval k] by (cases "map_of (dict_by c_key (\<lambda>c. c) retrieval) k") auto
  moreover from dict_by_Some [OF this] have c: "c \<in> set retrieval" "c_key c = k" by auto
  ultimately have "\<exists>s1. pack_step (dict_by c_key (\<lambda>c. c) retrieval) cap s k = Inr s1
    \<and> (pk_picked s1 = pk_picked s \<or> pk_picked s1 = pk_picked s @ [c]) \<and> pack_inv retrieval cap s1"
    using Cons.prems(2) by (simp add: pack_step_def dict_get_def pack_inv_def, auto)
  then obtain s1 where s1: "pack_step (dict_by c_key (\<lambda>c. c) retrieval) cap s k = Inr s1"
    "pk_picked s1 = pk_picked s \<or> pk_picked s1 = pk_picked s @ [c]" "pack_inv retrieval cap s1" by blast
  have "set ks \<subseteq> c_key ` set retrieval" using Cons.prems(1) by simp
  from Cons.IH [OF this s1(3)] obtain s' where s':
    "fold_r (pack_step (dict_by c_key (\<lambda>c. c) retrieval) cap) s1 ks = Inr s'" "pack_inv retrieval cap s'"
    "length (pk_picked s') \<le> length (pk_picked s1) + length ks"
    "distinct (map c_key (pk_picked s1) @ ks) \<longrightarrow> distinct (map c_key (pk_picked s'))" by blast
  moreover have "distinct (map c_key (pk_picked s1) @ ks)" if "distinct (map c_key (pk_picked s) @ k # ks)"
    using s1(2) c(2) that by (elim disjE) auto
  moreover have "length (pk_picked s1) \<le> Suc (length (pk_picked s))" using s1(2) by (elim disjE) auto
  ultimately show ?case using s1(1) by (intro exI [of _ s']) simp
qed simp

lemma pack_retrieval_ok:
  assumes "\<forall>c \<in> set retrieval. map_of scores (c_key c) \<noteq> None"
  shows "\<exists>pk. pack_retrieval en scores rem retrieval ds = Inr pk
    \<and> pack_inv retrieval (min rem (retrieved_budget_tokens (en_settings en))) pk
    \<and> int (length (pk_picked pk)) \<le> max 0 (max_retrieved_items (en_settings en))
    \<and> (distinct (map c_key retrieval) \<longrightarrow> distinct (map c_key (pk_picked pk)))"
proof (cases "retrieval \<noteq> [] \<and> rem > 0 \<and> max_retrieved_items (en_settings en) > 0")
  case True
  let ?pair = "\<lambda>c. (the (map_of scores (c_key c)), c_key c)"
  let ?l = "min (max_retrieved_items (en_settings en)) (int (length retrieval))"
  let ?ks = "mmr_select (map ?pair retrieval) (en_similarity en) ?l (mmr_lambda (en_settings en))"
  let ?start = "\<lparr>pk_picked = [], pk_tokens = 0, pk_dropped = ds\<rparr>"
  let ?cap = "min rem (retrieved_budget_tokens (en_settings en))"
  have "map_r (\<lambda>c. bind_r (dict_get scores (c_key c)) (\<lambda>s. Inr (s, c_key c))) retrieval = Inr (map ?pair retrieval)"
    using assms by (intro map_r_Inr_map) (auto simp: dict_get_def)
  with True have run: "pack_retrieval en scores rem retrieval ds = fold_r (pack_step (dict_by c_key (\<lambda>c. c) retrieval) ?cap) ?start ?ks"
    by (simp add: pack_retrieval_def)
  have keys: "set ?ks \<subseteq> c_key ` set retrieval" using mmr_select_keys [of "map ?pair retrieval"] by force
  have "pack_inv retrieval ?cap ?start" by (simp add: pack_inv_def)
  from pack_fold [OF keys this] obtain pk where pk: "fold_r (pack_step (dict_by c_key (\<lambda>c. c) retrieval) ?cap) ?start ?ks = Inr pk"
    "pack_inv retrieval ?cap pk" "length (pk_picked pk) \<le> length ?ks"
    "distinct ?ks \<longrightarrow> distinct (map c_key (pk_picked pk))" by auto
  have "int (length ?ks) \<le> ?l" using True by (intro mmr_select_length) auto
  moreover have "distinct ?ks" if "distinct (map c_key retrieval)"
    using True that mmr_select_spec(1) [of "map ?pair retrieval" ?l] by (simp add: mmr_result_def comp_def)
  ultimately have "int (length ?ks) \<le> ?l \<and> (distinct (map c_key retrieval) \<longrightarrow> distinct ?ks)" by simp
  with pk run show ?thesis by (intro exI [of _ pk]) auto
next
  case False
  then show ?thesis by (auto simp: pack_retrieval_def pack_inv_def)
qed

lemma sort_key_strict:
  assumes "mset xs = mset ys" "sorted_wrt (<) (map f ys)"
  shows "sort_key f xs = ys"
proof (rule sort_key_inj_key_eq [OF assms(1)])
  have "distinct (map f ys)" using assms(2) by (simp add: strict_sorted_iff)
  then show "inj_on f (set xs)" using mset_eq_setD [OF assms(1)] by (simp add: distinct_map)
  show "sorted (map f ys)" using assms(2) by (simp add: strict_sorted_iff)
qed

text \<open>The mandatory candidates: instructions, request, pinned; and the order they are rendered in.\<close>

definition mandatory_parts :: "candidate list \<Rightarrow> candidate list \<Rightarrow> candidate list \<Rightarrow> candidate list \<Rightarrow> bool" where
  "mandatory_parts cs sys pin req \<longleftrightarrow> filter (\<lambda>c. slot_of c = Mandatory_slot) cs = sys @ req @ pin
     \<and> sorted_wrt (<) (map head_key (sys @ pin @ req))
     \<and> (\<forall>c \<in> set (sys @ pin). c_source c \<noteq> CURRENT_REQUEST)
     \<and> (req = [] \<or> (\<exists>r. req = [r] \<and> c_source r = CURRENT_REQUEST))"

lemma render_order:
  assumes "mandatory_parts cs sys pin req"
  defines "head \<equiv> sort_key head_key (filter (\<lambda>c. slot_of c = Mandatory_slot) cs)"
  defines "tail \<equiv> List.find (\<lambda>c. c_source c = CURRENT_REQUEST) head"
  shows "(case tail of None \<Rightarrow> head | Some t \<Rightarrow> remove1 t head) = sys @ pin"
    and "(case tail of None \<Rightarrow> [] | Some t \<Rightarrow> [t]) = req"
proof -
  have head: "head = sys @ pin @ req"
    using assms(1) unfolding head_def mandatory_parts_def by (auto intro: sort_key_strict)
  have skip: "List.find P (xs @ ys) = List.find P ys" if "\<forall>x \<in> set xs. \<not> P x" for P and xs ys :: "candidate list"
    using that by (induction xs) auto
  have no: "List.find (\<lambda>c. c_source c = CURRENT_REQUEST) (sys @ pin @ xs)
      = List.find (\<lambda>c. c_source c = CURRENT_REQUEST) xs" for xs
    using assms(1) skip [of "sys @ pin" _ xs] unfolding mandatory_parts_def by simp
  have "(req = [] \<and> tail = None) \<or> (\<exists>r. req = [r] \<and> tail = Some r \<and> r \<notin> set (sys @ pin))"
    using assms(1) unfolding tail_def head no mandatory_parts_def by auto
  then show "(case tail of None \<Rightarrow> head | Some t \<Rightarrow> remove1 t head) = sys @ pin"
    and "(case tail of None \<Rightarrow> [] | Some t \<Rightarrow> [t]) = req"
    by (auto simp: head remove1_append)
qed

abbreviation in_slot :: "slot \<Rightarrow> candidate list \<Rightarrow> candidate list" where
  "in_slot s \<equiv> filter (\<lambda>c. slot_of c = s)"

definition tools_cost :: "candidate list \<Rightarrow> int" where
  "tools_cost cs = (if in_slot Tools_slot cs = [] then 0 else c_tokens (last (in_slot Tools_slot cs)))"

lemma allocate_overflow:
  "en_usable en < sum_by c_tokens (in_slot Mandatory_slot cs) + tools_cost cs \<Longrightarrow>
     allocate en cs scores ds
     = Inl (EngineOverflow (sum_by c_tokens (in_slot Mandatory_slot cs) + tools_cost cs) (en_usable en))"
  by (simp add: allocate_def tools_cost_def)

lemma allocate_fits:
  assumes parts: "mandatory_parts cs sys pin req"
    and keys: "\<forall>c \<in> set cs. map_of scores (c_key c) \<noteq> None \<and> 0 \<le> c_tokens c"
    and fits: "sum_by c_tokens (in_slot Mandatory_slot cs) + tools_cost cs \<le> en_usable en"
  obtains k picked ds' st where
    "allocate en cs scores ds = Inr (\<lparr>al_ordered = sys @ pin @ picked @ drop k (in_slot Recent_slot cs) @ req, al_stats = st\<rparr>, ds')"
    "set picked \<subseteq> set (in_slot Retrieval_slot cs)" "st_tools_tokens st = tools_cost cs"
    "sum_by c_tokens (sys @ pin @ picked @ drop k (in_slot Recent_slot cs) @ req) + tools_cost cs \<le> en_usable en"
    "k = 0 \<or> en_usable en < sum_by c_tokens (sys @ pin @ drop (k - 1) (in_slot Recent_slot cs) @ req) + tools_cost cs"
    "picked = [] \<or> sum_by c_tokens picked \<le> retrieved_budget_tokens (en_settings en)"
    "int (length picked) \<le> max 0 (max_retrieved_items (en_settings en))"
    "distinct (map c_key (in_slot Retrieval_slot cs)) \<longrightarrow> distinct (map c_key picked)"
    "k \<le> length (in_slot Recent_slot cs)"
proof -
  let ?M = "sum_by c_tokens (in_slot Mandatory_slot cs)"
  let ?rem = "en_usable en - ?M - tools_cost cs"
  let ?R = "in_slot Recent_slot cs"
  obtain k where k: "k \<le> length ?R" "rev (fst (recent_window ?rem 0 (rev ?R))) = drop k ?R"
    "snd (recent_window ?rem 0 (rev ?R)) = sum_by c_tokens (drop k ?R)"
    "k = length ?R \<or> sum_by c_tokens (drop k ?R) \<le> ?rem" "k = 0 \<or> ?rem < sum_by c_tokens (drop (k - 1) ?R)"
    by (rule recent_suffix)
  let ?rem' = "?rem - sum_by c_tokens (drop k ?R)"
  let ?ds = "drop_absent ''budget'' (map c_key (drop k ?R)) ?R ds"
  obtain pk where pk: "pack_retrieval en scores ?rem' (in_slot Retrieval_slot cs) ?ds = Inr pk"
    "pack_inv (in_slot Retrieval_slot cs) (min ?rem' (retrieved_budget_tokens (en_settings en))) pk"
    "int (length (pk_picked pk)) \<le> max 0 (max_retrieved_items (en_settings en))"
    "distinct (map c_key (in_slot Retrieval_slot cs)) \<longrightarrow> distinct (map c_key (pk_picked pk))"
    using pack_retrieval_ok [of "in_slot Retrieval_slot cs" scores en ?rem' ?ds] keys by auto
  define st where "st = \<lparr>st_recent_tokens = sum_by c_tokens (drop k ?R), st_retrieved_tokens = pk_tokens pk,
      st_mandatory_tokens = ?M, st_tools_tokens = tools_cost cs\<rparr>"
  have M: "?M = sum_by c_tokens sys + sum_by c_tokens pin + sum_by c_tokens req"
    using parts by (simp add: mandatory_parts_def)
  have rem: "0 \<le> ?rem'" using k(1,4) fits by auto
  have picked: "sum_by c_tokens (pk_picked pk) \<le> ?rem'" using pk(2) rem by (auto simp: pack_inv_def)
  have run: "allocate en cs scores ds = Inr (\<lparr>al_ordered = (sys @ pin) @ pk_picked pk @ drop k ?R @ req, al_stats = st\<rparr>,
      drop_unselected (map c_key (pk_picked pk)) (in_slot Retrieval_slot cs) (pk_dropped pk))"
    using fits unfolding allocate_def Let_def
    by (simp add: tools_cost_def [symmetric] k(2,3) pk(1) lift_engine_def st_def
        render_order [OF parts] del: filter_append)
  show ?thesis
    using k(1,5) pk(2,3,4) picked M run
    by (intro that [of "pk_picked pk" k st]) (auto simp: pack_inv_def st_def)
qed

section \<open>The plan\<close>

definition selected_of :: "(string \<times> real) list \<Rightarrow> candidate \<Rightarrow> selected_item" where
  "selected_of scores c =
     \<lparr>si_key = c_key c, si_source = c_source c, si_tokens = c_tokens c,
      si_score = (case map_of scores (c_key c) of None \<Rightarrow> 0 | Some x \<Rightarrow> x)\<rparr>"

lemma render_fold:
  "\<forall>c \<in> set cs. \<not> trust_violation c \<and> c_source c \<noteq> TOOL_DEFINITIONS \<Longrightarrow>
     fold_r (render_step scores) (ms, n, si) cs
     = Inr (ms @ concat (map c_render cs), n + sum_by c_tokens cs, si @ map (selected_of scores) cs)"
  by (induction cs arbitrary: ms n si) (auto simp: render_step_def selected_of_def)

lemma make_plan_fits:
  assumes "\<forall>c \<in> set (al_ordered al). \<not> trust_violation c \<and> c_source c \<noteq> TOOL_DEFINITIONS"
    and "sum_by c_tokens (al_ordered al) + st_tools_tokens (al_stats al) \<le> en_usable en"
  obtains p where "make_plan en al scores ds = Inr p" "ep_messages p = concat (map c_render (al_ordered al))"
    "ep_selected p = map (selected_of scores) (al_ordered al)"
    "ep_token_estimate p = sum_by c_tokens (al_ordered al) + st_tools_tokens (al_stats al)"
    "ep_tools_tokens p = st_tools_tokens (al_stats al)" "ep_usable p = en_usable en"
    "ep_dropped p = List.map_filter (map_of ds) (sort (map fst ds))"
  using assms unfolding make_plan_def
  by (simp add: render_fold lift_engine_def Let_def)

lemma no_trust_violation:
  assumes "well_tiered c" "c_source c \<in> {MEMORY, CHUNK} \<Longrightarrow> \<exists>item. c_render c = [retrieved_block item]"
  shows "\<not> trust_violation c"
proof (cases "c_source c \<in> {MEMORY, CHUNK}")
  case True
  with assms(2) obtain item where "c_render c = [retrieved_block item]" by blast
  then show ?thesis by (simp add: trust_violation_def retrieved_block_role)
next
  case False
  with assms(1) show ?thesis
    by (cases "c_source c") (auto simp: trust_violation_def cand_classification_def well_tiered_def)
qed

lemma list_choice: "\<forall>y \<in> set ys. \<exists>x. R x y \<Longrightarrow> \<exists>xs. list_all2 R xs ys"
proof (induction ys)
  case (Cons y ys)
  then obtain x xs where "R x y" "list_all2 R xs ys" by auto
  then show ?case by (intro exI [of _ "x # xs"]) simp
qed simp

text \<open>All candidates of a fusion, by source.\<close>

definition fused_parts ::
  "token_counter \<Rightarrow> pydict list \<Rightarrow> json \<Rightarrow> pydict list \<Rightarrow> retrieved_item list \<Rightarrow> ctx_unit list
    \<Rightarrow> candidate list \<Rightarrow> candidate list \<Rightarrow> candidate list \<Rightarrow> candidate list \<Rightarrow> candidate list \<Rightarrow> bool"
where
  "fused_parts counter cur tools pinned retr us cs1 cs2 cs3 cs4 cs5 \<longleftrightarrow>
     list_all2 from_unit (enumerate 0 us) cs1 \<and> request_candidate counter cur (length us) = Inr cs2
     \<and> tools_candidates counter tools = Inr cs3 \<and> list_all2 (from_pinned counter) (enumerate 0 pinned) cs4
     \<and> list_all2 (from_item counter) retr cs5"

lemma from_item_props:
  assumes "list_all2 (from_item counter) retr cs" "c \<in> set cs"
  obtains item where "item \<in> set retr" "from_item counter item c" "well_tiered c" "c_source c \<in> {MEMORY, CHUNK}"
proof -
  from assms obtain i where i: "i < length cs" "cs ! i = c" by (metis in_set_conv_nth)
  with assms(1) have "from_item counter (retr ! i) c" "retr ! i \<in> set retr"
    by (auto simp: list_all2_conv_all_nth)
  then show ?thesis using that [of "retr ! i"] retrieved_candidate_Inr [of counter "retr ! i" c]
    by (auto simp: from_item_def split: if_splits)
qed

lemma fused_well_tiered:
  assumes "fused_parts counter cur tools pinned retr us cs1 cs2 cs3 cs4 cs5"
  shows "\<forall>c \<in> set cs1. well_tiered c \<and> c_source c \<in> {SYSTEM, RECENT_TURN}"
    and "\<forall>c \<in> set cs2. well_tiered c \<and> c_source c = CURRENT_REQUEST"
    and "\<forall>c \<in> set cs3. well_tiered c \<and> c_source c = TOOL_DEFINITIONS"
    and "\<forall>c \<in> set cs4. well_tiered c \<and> c_source c = PINNED"
    and "\<forall>c \<in> set cs5. well_tiered c \<and> c_source c \<in> {MEMORY, CHUNK}"
proof -
  note p = assms [unfolded fused_parts_def]
  show "\<forall>c \<in> set cs1. well_tiered c \<and> c_source c \<in> {SYSTEM, RECENT_TURN}" using unit_lists(5) p by blast
  show "\<forall>c \<in> set cs2. well_tiered c \<and> c_source c = CURRENT_REQUEST" using request_candidate_Inr p by fastforce
  show "\<forall>c \<in> set cs3. well_tiered c \<and> c_source c = TOOL_DEFINITIONS" using tools_candidates_Inr p by fastforce
  show "\<forall>c \<in> set cs4. well_tiered c \<and> c_source c = PINNED" using pinned_lists(2) p by blast
  show "\<forall>c \<in> set cs5. well_tiered c \<and> c_source c \<in> {MEMORY, CHUNK}" using from_item_props p by metis
qed

end
