(* ===== verification/EngineCorrect.thy ===== *)
theory EngineCorrect
  imports Engine "HOL-Library.Sublist"
begin

text \<open>
  Correctness of the context assembly engine.  The lemmas put the parts of \<open>Engine\<close> together:
  what survives the filters, how the survivors split into the slots of the allocation, and what
  \<open>build\<close> returns, for every counter that satisfies the contract \<open>lawful_counter\<close>; the properties
  at the end are about the program's own \<open>TokenCounter\<close>.
\<close>

section \<open>Slots of the survivors\<close>

lemma raw_slots:
  assumes "\<forall>c \<in> set cs. well_tiered c" "s \<noteq> Retrieval_slot"
  shows "in_slot s cs = in_slot s (filter is_raw cs)"
proof -
  have "is_raw c" if "c \<in> set cs" "slot_of c = s" for c
    using assms that slot_of_source [of c] by (cases "c_source c") (auto simp: well_tiered_def)
  then show ?thesis by (auto intro!: filter_cong)
qed

lemma in_slot_all:
  "\<forall>c \<in> set cs. well_tiered c \<and> slot_of c = s \<Longrightarrow> in_slot t cs = (if s = t then cs else [])"
  by auto

lemma head_key_less:
  "well_tiered c \<Longrightarrow> well_tiered d \<Longrightarrow> TIER_BY_SOURCE (c_source c) < TIER_BY_SOURCE (c_source d) \<Longrightarrow> head_key c < head_key d"
  by (simp add: head_key_def well_tiered_def)

lemma head_key_pos:
  "well_tiered c \<Longrightarrow> m_position (c_meta c) \<noteq> None \<Longrightarrow> head_key c = (TIER_BY_SOURCE (c_source c), pos_of c, c_key c)"
  by (auto simp: head_key_def well_tiered_def pos_of_def)

lemma head_keys_sorted:
  assumes "sorted_wrt (<) (map pos_of cs)"
    and "\<forall>c \<in> set cs. well_tiered c \<and> c_source c = s \<and> m_position (c_meta c) \<noteq> None"
  shows "sorted_wrt (<) (map head_key cs)"
  using assms by (induction cs) (simp_all add: head_key_pos)

lemma mandatory_sorted:
  assumes parts: "fused_parts counter cur tools pinned retr us cs1 cs2 cs3 cs4 cs5"
  shows "sorted_wrt (<) (map head_key (filter (\<lambda>c. c_source c = SYSTEM) cs1 @ cs4 @ cs2))"
proof -
  note w = fused_well_tiered [OF parts] and p = parts [unfolded fused_parts_def]
  let ?sys = "filter (\<lambda>c. c_source c = SYSTEM) cs1"
  have "sorted_wrt (<) (map pos_of cs1)" using unit_lists(6) p by blast
  then have "sorted_wrt (<) (map pos_of ?sys)" by (simp add: sorted_wrt_map sorted_wrt_filter)
  then have 1: "sorted_wrt (<) (map head_key ?sys)"
    using unit_lists(5) p by (intro head_keys_sorted [where s = SYSTEM]) auto
  have 2: "sorted_wrt (<) (map head_key cs4)"
    using pinned_lists(2,3) p by (intro head_keys_sorted [where s = PINNED]) blast+
  have "cs2 = [] \<or> (\<exists>r. cs2 = [r])" using p request_candidate_Inr by blast
  then have 3: "sorted_wrt (<) (map head_key cs2)" by auto
  have "head_key c < head_key d" if "c \<in> set ?sys" "d \<in> set cs4 \<union> set cs2" for c d
    using that w by (intro head_key_less) auto
  moreover have "head_key c < head_key d" if "c \<in> set cs4" "d \<in> set cs2" for c d
    using that w by (intro head_key_less) auto
  ultimately show ?thesis using 1 2 3 by (auto simp: sorted_wrt_append)
qed

lemma survivor_slots:
  assumes parts: "fused_parts counter cur tools pinned retr us cs1 cs2 cs3 cs4 cs5"
    and S_def: "S = fst (survivors (cs1 @ cs2 @ cs3 @ cs4 @ cs5) old conv)"
  shows "in_slot Recent_slot S = filter (\<lambda>c. c_source c = RECENT_TURN) cs1"
    and "in_slot Tools_slot S = cs3"
    and "mandatory_parts S (filter (\<lambda>c. c_source c = SYSTEM) cs1) cs4 cs2"
    and "\<forall>c \<in> set S. well_tiered c"
    and "set (in_slot Retrieval_slot S) \<subseteq> set cs5"
proof -
  note w = fused_well_tiered [OF parts]
  let ?cs = "cs1 @ cs2 @ cs3 @ cs4 @ cs5"
  have all: "\<forall>c \<in> set ?cs. well_tiered c" using w by auto
  show S: "\<forall>c \<in> set S. well_tiered c" using all survivors_live unfolding S_def by blast
  have "filter is_raw cs5 = []" using w(5) by (auto simp: filter_empty_conv well_tiered_def)
  moreover have "filter is_raw cs1 = cs1" "filter is_raw cs2 = cs2" "filter is_raw cs3 = cs3" "filter is_raw cs4 = cs4"
    using w(1-4) by (auto simp: filter_id_conv well_tiered_def)
  ultimately have raw: "filter is_raw S = cs1 @ cs2 @ cs3 @ cs4"
    unfolding S_def survivors_raw [OF all] by simp
  have slots: "slot_of c = (case c_source c of TOOL_DEFINITIONS \<Rightarrow> Tools_slot | RECENT_TURN \<Rightarrow> Recent_slot
      | MEMORY \<Rightarrow> Retrieval_slot | CHUNK \<Rightarrow> Retrieval_slot | _ \<Rightarrow> Mandatory_slot)" if "c \<in> set ?cs" for c
    using all that slot_of_source by blast
  have f: "in_slot s cs1 = filter (\<lambda>c. c_source c = (if s = Recent_slot then RECENT_TURN else SYSTEM)) cs1"
    if "s = Recent_slot \<or> s = Mandatory_slot" for s
    using w(1) slots that by (auto intro!: filter_cong)
  have g: "in_slot s cs1 = []" if "s = Tools_slot" for s
    using w(1) slots that by (auto simp: filter_empty_conv)
  have h: "in_slot s cs2 = (if s = Mandatory_slot then cs2 else [])"
    "in_slot s cs3 = (if s = Tools_slot then cs3 else [])"
    "in_slot s cs4 = (if s = Mandatory_slot then cs4 else [])" for s
    using w(2-4) slots by (auto simp: filter_id_conv filter_empty_conv)
  show "in_slot Recent_slot S = filter (\<lambda>c. c_source c = RECENT_TURN) cs1" "in_slot Tools_slot S = cs3"
    using raw_slots [OF S] by (simp_all add: raw f g h)
  have "in_slot Mandatory_slot S = filter (\<lambda>c. c_source c = SYSTEM) cs1 @ cs2 @ cs4"
    using raw_slots [OF S] by (simp add: raw f h)
  moreover have "sorted_wrt (<) (map head_key (filter (\<lambda>c. c_source c = SYSTEM) cs1 @ cs4 @ cs2))"
    by (rule mandatory_sorted [OF parts])
  moreover have "cs2 = [] \<or> (\<exists>r. cs2 = [r] \<and> c_source r = CURRENT_REQUEST)"
    using parts request_candidate_Inr unfolding fused_parts_def by blast
  ultimately show "mandatory_parts S (filter (\<lambda>c. c_source c = SYSTEM) cs1) cs4 cs2"
    using w(4) by (auto simp: mandatory_parts_def)
  show "set (in_slot Retrieval_slot S) \<subseteq> set cs5"
  proof
    fix c assume "c \<in> set (in_slot Retrieval_slot S)"
    then have "c \<in> set ?cs" "slot_of c = Retrieval_slot" using survivors_live unfolding S_def by fastforce+
    with slots [of c] w show "c \<in> set cs5" by (cases "c_source c") auto
  qed
qed

text \<open>The survivors are a subsequence of the fused candidates.\<close>

lemma dedup_subseq: "subseq (fst (dedup_loop r t d cs)) cs"
proof (induction cs arbitrary: r t d)
  case (Cons c cs)
  have "subseq (fst (dedup_loop r t d cs)) (c # cs)" for r t d using Cons by (rule list_emb_Cons)
  with Cons show ?case by (simp add: Let_def split: option.split)
qed simp

lemma survivors_subseq: "subseq (fst (survivors cs old conv)) cs"
  unfolding survivors_fst using dedup_subseq subseq_filter_left subseq_order.order_trans by blast

lemma retrieval_keys_distinct:
  assumes parts: "fused_parts counter cur tools pinned retr us cs1 cs2 cs3 cs4 cs5"
    and S: "S = fst (survivors (cs1 @ cs2 @ cs3 @ cs4 @ cs5) old conv)" and "distinct (map ri_id retr)"
  shows "distinct (map c_key (in_slot Retrieval_slot S))"
proof -
  note w = fused_well_tiered [OF parts]
  have empty: "in_slot Retrieval_slot cs = []"
    if "\<forall>c \<in> set cs. well_tiered c \<and> c_source c \<notin> {MEMORY, CHUNK}" for cs
    using that slot_of_source by (fastforce simp: filter_empty_conv split: cand_source.splits)
  have "in_slot Retrieval_slot cs1 = []" "in_slot Retrieval_slot cs2 = []"
    "in_slot Retrieval_slot cs3 = []" "in_slot Retrieval_slot cs4 = []"
    using w(1-4) by (intro empty; auto)+
  then have "in_slot Retrieval_slot (cs1 @ cs2 @ cs3 @ cs4 @ cs5) = in_slot Retrieval_slot cs5" by simp
  then have "subseq (in_slot Retrieval_slot S) (in_slot Retrieval_slot cs5)"
    unfolding S by (metis subseq_filter survivors_subseq)
  then have "subseq (in_slot Retrieval_slot S) cs5" by (meson subseq_filter_left subseq_order.order_trans)
  then have "subseq (map c_key (in_slot Retrieval_slot S)) (map c_key cs5)" by (rule subseq_map)
  moreover have "map c_key cs5 = map ri_id retr"
    using parts unfolding fused_parts_def
    by (auto simp: from_item_def list_all2_conv_all_nth intro!: nth_equalityI dest!: retrieved_candidate_Inr)
  ultimately show ?thesis using assms(3) subseqs_distinctD subseqs_refl by (metis subseq_conv_nths distinct_nthsI)
qed

text \<open>
  \<open>restates us cur x\<close>: the canonical text \<open>x\<close> is that of a unit or of the current request as a whole, with the
  roles in front of its lines, or the content of one message of a unit.  The contents of the messages of the
  current request are not compared: its candidate carries no \<open>content_texts\<close>.
\<close>

definition restates :: "ctx_unit list \<Rightarrow> pydict list \<Rightarrow> string \<Rightarrow> bool" where
  "restates us cur x \<longleftrightarrow>
     (\<exists>u \<in> set us. message_texts (u_messages u) \<in> Inr ` {t. canonical_text t = x}
        \<or> (\<exists>m \<in> set (u_messages u). x \<in> set (content_texts m)))
     \<or> cur \<noteq> [] \<and> message_texts cur \<in> Inr ` {t. canonical_text t = x}"

lemma unit_candidate_texts:
  "unit_candidate (i, u) = Inr c \<Longrightarrow> (\<exists>t. message_texts (u_messages u) = Inr t \<and> c_text c = canonical_text t)
     \<and> m_content_texts (c_meta c) = Some (concat (map content_texts (u_messages u)))"
  by (auto simp: unit_candidate_def Let_def result_simps)

lemma request_candidate_text:
  "request_candidate counter cur n = Inr cs \<Longrightarrow> cur \<noteq> [] \<Longrightarrow>
     \<exists>c t. cs = [c] \<and> message_texts cur = Inr t \<and> c_text c = canonical_text t"
  by (auto simp: request_candidate_def result_simps)

lemma restates_raw:
  assumes parts: "fused_parts counter cur tools pinned retr us cs1 cs2 cs3 cs4 cs5"
    and "restates us cur x" "x \<noteq> []"
  shows "x \<in> raw_texts (cs1 @ cs2 @ cs3 @ cs4)"
proof -
  note p = parts [unfolded fused_parts_def] and w = fused_well_tiered [OF parts]
  have raw: "is_raw c" if "c \<in> set (cs1 @ cs2)" for c using w that by (auto simp: well_tiered_def)
  from assms(2) consider u where "u \<in> set us" "message_texts (u_messages u) \<in> Inr ` {t. canonical_text t = x}
        \<or> (\<exists>m \<in> set (u_messages u). x \<in> set (content_texts m))"
    | "cur \<noteq> []" "message_texts cur \<in> Inr ` {t. canonical_text t = x}" unfolding restates_def by blast
  then show ?thesis
  proof cases
    case (1 u)
    then obtain i where "i < length us" "us ! i = u" by (metis in_set_conv_nth)
    then have "unit_candidate (i, u) = Inr (cs1 ! i)" "cs1 ! i \<in> set cs1"
      using p by (auto simp: list_all2_conv_all_nth nth_enumerate_eq from_unit_def)
    with 1(2) unit_candidate_texts [of i u "cs1 ! i"] raw [of "cs1 ! i"] assms(3) show ?thesis
      unfolding raw_texts_def by (auto intro!: bexI [of _ "cs1 ! i"])
  next
    case 2
    with request_candidate_text p obtain c t where "cs2 = [c]" "message_texts cur = Inr t" "c_text c = canonical_text t"
      by blast
    with 2 raw [of c] assms(3) show ?thesis unfolding raw_texts_def by (auto intro!: bexI [of _ c])
  qed
qed

lemma dedup_texts_mem:
  "c \<in> set cs \<Longrightarrow> \<not> is_raw c \<Longrightarrow> m_dedup_text (c_meta c) = Some x \<Longrightarrow> x \<noteq> [] \<Longrightarrow> x \<in> set (dedup_texts cs)"
  by (induction cs) (auto split: option.split)

lemma dedup_texts_distinct:
  assumes "distinct (dedup_texts cs)" "c \<in> set cs" "d \<in> set cs" "\<not> is_raw c" "\<not> is_raw d"
    and "m_dedup_text (c_meta c) = Some x" "m_dedup_text (c_meta d) = Some x" "x \<noteq> []"
  shows "c = d"
  using assms by (induction cs) (auto dest: dedup_texts_mem split: if_splits option.splits)

lemma survivors_fresh:
  assumes parts: "fused_parts counter cur tools pinned retr us cs1 cs2 cs3 cs4 cs5"
    and S: "S = fst (survivors (cs1 @ cs2 @ cs3 @ cs4 @ cs5) old conv)"
  shows "distinct (dedup_texts S)" "set (dedup_texts S) \<inter> raw_texts (cs1 @ cs2 @ cs3 @ cs4) = {}"
proof -
  note w = fused_well_tiered [OF parts]
  let ?raw = "cs1 @ cs2 @ cs3 @ cs4"
  have raw: "\<forall>c \<in> set ?raw. is_raw c" using w by (auto simp: well_tiered_def)
  have "filter (live old conv) ?raw = ?raw" using w by (auto simp: filter_id_conv live_def)
  then have live: "filter (live old conv) (cs1 @ cs2 @ cs3 @ cs4 @ cs5) = ?raw @ filter (live old conv) cs5" by simp
  obtain r where r: "S = ?raw @ fst (dedup_loop r [] [] (filter (live old conv) cs5))" "set r = raw_texts ?raw \<union> set []"
    using dedup_loop_prefix [OF raw, of "[]" "[]" "[]" "filter (live old conv) cs5"] unfolding S survivors_fst live by blast
  have "dedup_texts (xs @ ys) = dedup_texts ys" if "\<forall>c \<in> set xs. is_raw c" for xs ys
    using that by (induction xs) auto
  with raw r(1) have "dedup_texts S = dedup_texts (fst (dedup_loop r [] [] (filter (live old conv) cs5)))" by blast
  with dedup_loop_fresh [of r "[]" "[]" "filter (live old conv) cs5"] r(2)
  show "distinct (dedup_texts S)" "set (dedup_texts S) \<inter> raw_texts ?raw = {}" by auto
qed

text \<open>No retrieved block repeats the raw context, and no two of them have the same text.\<close>

definition fresh_items :: "ctx_unit list \<Rightarrow> pydict list \<Rightarrow> retrieved_item list \<Rightarrow> bool" where
  "fresh_items us cur items \<longleftrightarrow>
     (\<forall>i \<in> set items. \<forall>x. dedup_text_of i = Inr x \<and> x \<noteq> [] \<longrightarrow>
        \<not> restates us cur x \<and> (\<forall>j \<in> set items. dedup_text_of j = Inr x \<longrightarrow> ri_id j = ri_id i))"

lemma picked_fresh:
  assumes parts: "fused_parts counter cur tools pinned retr us cs1 cs2 cs3 cs4 cs5"
    and S: "S = fst (survivors (cs1 @ cs2 @ cs3 @ cs4 @ cs5) old conv)"
    and picked: "set picked \<subseteq> set (in_slot Retrieval_slot S)" "list_all2 (from_item counter) items picked"
  shows "fresh_items us cur items"
proof -
  have w: "\<forall>c \<in> set cs5. well_tiered c \<and> c_source c \<in> {MEMORY, CHUNK}"
    by (rule fused_well_tiered(5) [OF parts])
  have cand: "\<exists>c \<in> set S. \<not> is_raw c \<and> m_dedup_text (c_meta c) = Some x \<and> c_key c = ri_id i"
    if i: "i \<in> set items" "dedup_text_of i = Inr x" for i x
  proof -
    from i(1) obtain n where "n < length items" "items ! n = i" by (metis in_set_conv_nth)
    with picked(2) have c: "from_item counter i (picked ! n)" "picked ! n \<in> set picked"
      by (auto simp: list_all2_conv_all_nth)
    then have "picked ! n \<in> set S" "picked ! n \<in> set cs5"
      using picked(1) survivor_slots(5) [OF parts S] by auto
    moreover from this(2) w have "\<not> is_raw (picked ! n)" by (auto simp: well_tiered_def)
    moreover have "m_dedup_text (c_meta (picked ! n)) = Some x" "c_key (picked ! n) = ri_id i"
      using c(1) i(2) retrieved_candidate_Inr [of counter i "picked ! n"] by (auto simp: from_item_def)
    ultimately show ?thesis by blast
  qed
  note fresh = survivors_fresh [OF parts S]
  show ?thesis
    unfolding fresh_items_def
  proof (intro ballI allI impI conjI)
    fix i x assume i: "i \<in> set items" "dedup_text_of i = Inr x \<and> x \<noteq> []"
    with cand obtain c where c: "c \<in> set S" "\<not> is_raw c" "m_dedup_text (c_meta c) = Some x" "c_key c = ri_id i"
      by metis
    with i(2) have "x \<in> set (dedup_texts S)" by (intro dedup_texts_mem) auto
    with fresh(2) restates_raw [OF parts] i(2) show "\<not> restates us cur x" by blast
    fix j assume j: "j \<in> set items" "dedup_text_of j = Inr x"
    with cand obtain d where d: "d \<in> set S" "\<not> is_raw d" "m_dedup_text (c_meta d) = Some x" "c_key d = ri_id j"
      by metis
    from dedup_texts_distinct [OF fresh(1) c(1) d(1) c(2) d(2) c(3) d(3)] i(2) c(4) d(4)
    show "ri_id j = ri_id i" by simp
  qed
qed

section \<open>What \<open>build\<close> returns\<close>

text \<open>
  \<open>assembled\<close> describes a returned plan: \<open>k\<close> is the number of dropped turns, \<open>items\<close> are the
  retrieved blocks in the order they are sent, \<open>tt\<close> the cost of the tool definitions.
\<close>

definition assembled ::
  "engine \<Rightarrow> pydict list \<Rightarrow> pydict list \<Rightarrow> pydict list \<Rightarrow> retrieved_item list \<Rightarrow> string list \<Rightarrow> string option
    \<Rightarrow> ctx_unit list \<Rightarrow> int \<Rightarrow> engine_plan \<Rightarrow> nat \<Rightarrow> retrieved_item list \<Rightarrow> bool"
where
  "assembled en h cur pinned retr old conv us tt p k items \<longleftrightarrow>
     ep_messages p = filter is_instruction h @ pinned @ map retrieved_block items
       @ unit_messages (drop k (filter (Not \<circ> is_system) us)) @ cur
     \<and> k \<le> length (filter (Not \<circ> is_system) us)
     \<and> ep_tools_tokens p = tt \<and> ep_usable p = en_usable en \<and> ep_token_estimate p \<le> en_usable en
     \<and> count_messages (en_counter en) (ep_messages p) = Inr (ep_token_estimate p - tt)
     \<and> (k = 0 \<or> (\<exists>n. count_messages (en_counter en) (filter is_instruction h @ pinned
          @ unit_messages (drop (k - 1) (filter (Not \<circ> is_system) us)) @ cur) = Inr n \<and> en_usable en < n + tt))
     \<and> set items \<subseteq> set retr
     \<and> (\<forall>i \<in> set items. (conv = None \<or> conv = Some (ri_conversation_id i))
          \<and> (ri_item_type i = Item_memory \<longrightarrow> ri_id i \<notin> set old))
     \<and> int (length items) \<le> max 0 (max_retrieved_items (en_settings en))
     \<and> (items = [] \<or> (\<exists>n. count_messages (en_counter en) (map retrieved_block items) = Inr n
          \<and> n \<le> retrieved_budget_tokens (en_settings en)))
     \<and> (distinct (map ri_id retr) \<longrightarrow> distinct (map ri_id items))
     \<and> fresh_items us cur items"

context lawful_counter
begin

definition tools_need :: "json \<Rightarrow> int" where
  "tools_need tools = (if truthy tools then projr (count_tools counter tools) else 0)"

lemma unit_tokens_cost:
  assumes "segment_messages counter h = Inr us" "u \<in> set us"
  shows "u_tokens u = sum_by cost (u_messages u)" "\<forall>m \<in> set (u_messages u). countable m"
  using segment_messages_spec(1) [OF assms(1)] assms(2) count_messages_Inr by auto

lemma units_cost:
  assumes "segment_messages counter h = Inr us" "set vs \<subseteq> set us"
  shows "sum_by u_tokens vs = sum_by cost (unit_messages vs)" "\<forall>m \<in> set (unit_messages vs). countable m"
  using assms(2) by (induction vs) (auto simp: unit_tokens_cost [OF assms(1)])

lemma instructions_cost:
  assumes "segment_messages counter h = Inr us"
  shows "sum_by u_tokens (filter is_system us) = sum_by cost (filter is_instruction h)"
    and "\<forall>m \<in> set (filter is_instruction h). countable m"
  using units_cost [OF assms, of "filter is_system us"] segment_messages_spec(2) [OF assms] by auto

lemma part_costs:
  assumes parts: "fused_parts counter cur tools pinned retr us cs1 cs2 cs3 cs4 cs5"
    and us: "segment_messages counter h = Inr us"
  shows "sum_by c_tokens (filter (\<lambda>c. c_source c = SYSTEM) cs1) = sum_by cost (filter is_instruction h)"
    and "sum_by c_tokens cs2 = sum_by cost cur" "\<forall>m \<in> set cur. countable m"
    and "sum_by c_tokens cs4 = sum_by cost pinned" "\<forall>m \<in> set pinned. countable m"
    and "tools_need tools = (if cs3 = [] then 0 else c_tokens (last cs3))" "0 \<le> tools_need tools"
    and "\<forall>c \<in> set (cs1 @ cs2 @ cs3 @ cs4 @ cs5). 0 \<le> c_tokens c"
proof -
  note p = parts [unfolded fused_parts_def]
  show "sum_by c_tokens (filter (\<lambda>c. c_source c = SYSTEM) cs1) = sum_by cost (filter is_instruction h)"
    using unit_lists(2) p instructions_cost(1) [OF us] by (metis sum_by_def)
  have req: "cur = [] \<and> cs2 = [] \<or> (\<exists>c. cs2 = [c] \<and> count_messages counter cur = Inr (c_tokens c))"
    using request_candidate_Inr p by blast
  then show "sum_by c_tokens cs2 = sum_by cost cur" "\<forall>m \<in> set cur. countable m"
    by (auto simp: count_messages_Inr)
  have pin: "list_all2 (\<lambda>m c. count_message counter m = Inr (c_tokens c)) pinned cs4"
    using pinned_lists(4) p by blast
  then show "sum_by c_tokens cs4 = sum_by cost pinned" "\<forall>m \<in> set pinned. countable m"
    by (induction rule: list_all2_induct) (auto simp: cost_def countable_def)
  have tls: "(\<not> truthy tools \<and> cs3 = []) \<or> (\<exists>c. cs3 = [c] \<and> truthy tools \<and> count_tools counter tools = Inr (c_tokens c))"
    using tools_candidates_Inr p by blast
  then show "tools_need tools = (if cs3 = [] then 0 else c_tokens (last cs3))" "0 \<le> tools_need tools"
    by (auto simp: tools_need_def dest: count_tools_nonneg)
  have "0 \<le> c_tokens c" if "c \<in> set cs1" for c
  proof -
    from that obtain i where i: "i < length cs1" "cs1 ! i = c" by (metis in_set_conv_nth)
    with p have "from_unit (i, us ! i) c" "us ! i \<in> set us"
      by (auto simp: list_all2_conv_all_nth nth_enumerate_eq)
    then have "c_tokens c = sum_by cost (u_messages (us ! i))"
      using unit_candidate_Inr unit_tokens_cost(1) [OF us] by (simp add: from_unit_def)
    then show ?thesis by (simp add: sum_by_nonneg cost_nonneg)
  qed
  moreover have "0 \<le> c_tokens c" if "c \<in> set cs4" for c
    using pin that by (induction rule: list_all2_induct) (auto dest: count_message_nonneg)
  moreover have "0 \<le> c_tokens c" if "c \<in> set cs5" for c
    using p that retrieved_candidate_Inr count_message_nonneg by (metis from_item_def from_item_props)
  ultimately show "\<forall>c \<in> set (cs1 @ cs2 @ cs3 @ cs4 @ cs5). 0 \<le> c_tokens c"
    using req tls by (auto dest: count_messages_nonneg count_tools_nonneg)
qed

lemma picked_items:
  assumes parts: "fused_parts counter cur tools pinned retr us cs1 cs2 cs3 cs4 cs5"
    and S: "S = fst (survivors (cs1 @ cs2 @ cs3 @ cs4 @ cs5) old conv)"
    and picked: "set picked \<subseteq> set (in_slot Retrieval_slot S)"
  obtains items where "map c_render picked = map (\<lambda>i. [retrieved_block i]) items" "set items \<subseteq> set retr"
    "map c_key picked = map ri_id items" "sum_by c_tokens picked = sum_by cost (map retrieved_block items)"
    "\<forall>m \<in> set (map retrieved_block items). countable m"
    "\<forall>i \<in> set items. (conv = None \<or> conv = Some (ri_conversation_id i))
      \<and> (ri_item_type i = Item_memory \<longrightarrow> ri_id i \<notin> set old)"
    "list_all2 (from_item counter) items picked"
proof -
  have "\<forall>c \<in> set picked. \<exists>i. i \<in> set retr \<and> from_item counter i c \<and> live old conv c"
  proof
    fix c assume "c \<in> set picked"
    then have "c \<in> set S" "c \<in> set cs5"
      using picked survivor_slots(5) [OF parts S] by auto
    with from_item_props survivors_live parts show "\<exists>i. i \<in> set retr \<and> from_item counter i c \<and> live old conv c"
      unfolding fused_parts_def S by metis
  qed
  then obtain items where items: "list_all2 (\<lambda>i c. i \<in> set retr \<and> from_item counter i c \<and> live old conv c) items picked"
    using list_choice [of picked "\<lambda>i c. i \<in> set retr \<and> from_item counter i c \<and> live old conv c"] by blast
  have one: "c_render c = [retrieved_block i] \<and> c_key c = ri_id i \<and> c_tokens c = cost (retrieved_block i)
      \<and> countable (retrieved_block i) \<and> (conv = None \<or> conv = Some (ri_conversation_id i))
      \<and> (ri_item_type i = Item_memory \<longrightarrow> ri_id i \<notin> set old)"
    if "from_item counter i c" "live old conv c" for i c
    using that retrieved_candidate_Inr [of counter i c]
    by (auto simp: from_item_def live_def cost_def countable_def split: if_splits)
  show ?thesis
  proof (rule that)
    show "map c_render picked = map (\<lambda>i. [retrieved_block i]) items" "set items \<subseteq> set retr"
      "map c_key picked = map ri_id items" "sum_by c_tokens picked = sum_by cost (map retrieved_block items)"
      "\<forall>m \<in> set (map retrieved_block items). countable m"
      "\<forall>i \<in> set items. (conv = None \<or> conv = Some (ri_conversation_id i))
        \<and> (ri_item_type i = Item_memory \<longrightarrow> ri_id i \<notin> set old)"
      "list_all2 (from_item counter) items picked"
      using items by (induction rule: list_all2_induct) (auto dest!: one)
  qed
qed

lemma recent_costs:
  assumes parts: "fused_parts counter cur tools pinned retr us cs1 cs2 cs3 cs4 cs5"
    and us: "segment_messages counter h = Inr us"
  shows "concat (map c_render (drop j (filter (\<lambda>c. c_source c = RECENT_TURN) cs1))) = unit_messages (drop j (filter (Not \<circ> is_system) us))"
    and "sum_by c_tokens (drop j (filter (\<lambda>c. c_source c = RECENT_TURN) cs1)) = sum_by cost (unit_messages (drop j (filter (Not \<circ> is_system) us)))"
    and "length (filter (\<lambda>c. c_source c = RECENT_TURN) cs1) = length (filter (Not \<circ> is_system) us)"
    and "\<forall>m \<in> set (unit_messages (drop j (filter (Not \<circ> is_system) us))). countable m"
proof -
  let ?R = "filter (\<lambda>c. c_source c = RECENT_TURN) cs1" and ?T = "filter (Not \<circ> is_system) us"
  have l: "map c_render ?R = map u_messages ?T" "map c_tokens ?R = map u_tokens ?T"
    using unit_lists(3,4) parts unfolding fused_parts_def by blast+
  then show "concat (map c_render (drop j ?R)) = unit_messages (drop j ?T)"
    by (simp add: unit_messages_def drop_map [symmetric])
  have T: "set (drop j ?T) \<subseteq> set us" by (meson filter_is_subset set_drop_subset subset_trans)
  show "sum_by c_tokens (drop j ?R) = sum_by cost (unit_messages (drop j ?T))"
    using l(2) units_cost(1) [OF us T] by (metis drop_map sum_by_def)
  show "\<forall>m \<in> set (unit_messages (drop j ?T)). countable m" by (rule units_cost(2) [OF us T])
  show "length ?R = length ?T" using arg_cong [OF l(1), of length] by simp
qed

lemma part_renders:
  assumes parts: "fused_parts counter cur tools pinned retr us cs1 cs2 cs3 cs4 cs5"
    and us: "segment_messages counter h = Inr us"
  shows "concat (map c_render (filter (\<lambda>c. c_source c = SYSTEM) cs1)) = filter is_instruction h"
    and "concat (map c_render cs2) = cur" "concat (map c_render cs4) = pinned"
proof -
  note p = parts [unfolded fused_parts_def]
  have "map c_render (filter (\<lambda>c. c_source c = SYSTEM) cs1) = map u_messages (filter is_system us)"
    using unit_lists(1) p by blast
  then show "concat (map c_render (filter (\<lambda>c. c_source c = SYSTEM) cs1)) = filter is_instruction h"
    using segment_messages_spec(2) [OF us] by (simp add: unit_messages_def)
  show "concat (map c_render cs2) = cur" using request_candidate_Inr p by fastforce
  have "map c_render cs4 = map (\<lambda>m. [m]) pinned" using pinned_lists(1) p by blast
  then show "concat (map c_render cs4) = pinned" by simp
qed

lemma ordered_trusted:
  assumes parts: "fused_parts counter cur tools pinned retr us cs1 cs2 cs3 cs4 cs5"
    and S: "S = fst (survivors (cs1 @ cs2 @ cs3 @ cs4 @ cs5) old conv)"
    and "set picked \<subseteq> set (in_slot Retrieval_slot S)"
  shows "\<forall>c \<in> set (filter (\<lambda>c. c_source c = SYSTEM) cs1 @ cs4 @ picked @ drop k (in_slot Recent_slot S) @ cs2).
    \<not> trust_violation c \<and> c_source c \<noteq> TOOL_DEFINITIONS"
proof
  note w = fused_well_tiered [OF parts] and slots = survivor_slots [OF parts S]
  fix c assume c: "c \<in> set (filter (\<lambda>c. c_source c = SYSTEM) cs1 @ cs4 @ picked @ drop k (in_slot Recent_slot S) @ cs2)"
  then consider "c \<in> set cs1 \<union> set cs4 \<union> set cs2" | "c \<in> set cs5"
    using slots(1,5) assms(3) by (auto dest: in_set_dropD)
  then show "\<not> trust_violation c \<and> c_source c \<noteq> TOOL_DEFINITIONS"
  proof cases
    case 1
    then have "well_tiered c" "c_source c \<notin> {MEMORY, CHUNK, TOOL_DEFINITIONS}" using w by auto
    then show ?thesis using no_trust_violation [of c] by auto
  next
    case 2
    then obtain i where "from_item counter i c" "c_source c \<in> {MEMORY, CHUNK}" "well_tiered c"
      using from_item_props parts unfolding fused_parts_def by metis
    moreover from this have "c_render c = [retrieved_block i]"
      using retrieved_candidate_Inr by (simp add: from_item_def)
    ultimately show ?thesis using no_trust_violation [of c] by auto
  qed
qed

lemma concat_map_single: "concat (map (\<lambda>i. [f i]) xs) = map f xs"
  by (induction xs) auto

lemma build_result:
  assumes fuse: "fuse_candidates counter h cur tools pinned retr = Inr cs" and en: "en_counter en = counter"
    and us: "segment_messages counter h = Inr us"
    and need: "need = sum_by cost (filter is_instruction h) + sum_by cost pinned + sum_by cost cur + tools_need tools"
  shows "if en_usable en < need
    then build en h cur tools pinned retr old conv = Inl (EngineOverflow need (en_usable en))
    else \<exists>p k items. build en h cur tools pinned retr old conv = Inr p
      \<and> assembled en h cur pinned retr old conv us (tools_need tools) p k items"
proof -
  obtain cs1 cs2 cs3 cs4 cs5 where cs: "cs = cs1 @ cs2 @ cs3 @ cs4 @ cs5"
    and parts: "fused_parts counter cur tools pinned retr us cs1 cs2 cs3 cs4 cs5"
    using fuse_shape [OF fuse] us unfolding fused_parts_def by (metis Inr_inject)
  define S where "S = fst (survivors (cs1 @ cs2 @ cs3 @ cs4 @ cs5) old conv)"
  define scored where "scored = dict_by c_key (relevance_score (en_retrieval en)) S"
  define ds where "ds = snd (survivors (cs1 @ cs2 @ cs3 @ cs4 @ cs5) old conv)"
  note slots = survivor_slots [OF parts S_def] and costs = part_costs [OF parts us]
  let ?sys = "filter (\<lambda>c. c_source c = SYSTEM) cs1" and ?turns = "filter (Not \<circ> is_system) us"
  let ?R = "in_slot Recent_slot S"
  have run: "build en h cur tools pinned retr old conv = bind_r (allocate en S scored ds) (\<lambda>(al, ds). make_plan en al scored ds)"
    using fuse by (simp add: build_survivors en lift_engine_def cs scored_def ds_def S_def Let_def)
  have tt: "tools_cost S = tools_need tools" by (simp add: tools_cost_def slots(2) costs(6))
  have mand: "sum_by c_tokens (in_slot Mandatory_slot S) + tools_cost S = need"
    using slots(3) costs(1,2,4) by (simp add: mandatory_parts_def tt need)
  have keys: "\<forall>c \<in> set S. map_of scored (c_key c) \<noteq> None \<and> 0 \<le> c_tokens c"
  proof (intro ballI conjI)
    fix c assume c: "c \<in> set S"
    then show "map_of scored (c_key c) \<noteq> None" unfolding scored_def dict_by_None by simp
    from c survivors_live have "c \<in> set (cs1 @ cs2 @ cs3 @ cs4 @ cs5)" unfolding S_def by blast
    with costs(8) show "0 \<le> c_tokens c" by blast
  qed
  show ?thesis
  proof (cases "en_usable en < need")
    case True
    then show ?thesis using allocate_overflow [of en S scored ds] by (simp add: run mand)
  next
    case False
    then have "sum_by c_tokens (in_slot Mandatory_slot S) + tools_cost S \<le> en_usable en" using mand by simp
    from allocate_fits [OF slots(3) keys this, of ds] obtain k picked ds' st where
      al: "allocate en S scored ds = Inr (\<lparr>al_ordered = ?sys @ cs4 @ picked @ drop k ?R @ cs2, al_stats = st\<rparr>, ds')"
      "set picked \<subseteq> set (in_slot Retrieval_slot S)" "st_tools_tokens st = tools_cost S"
      "sum_by c_tokens (?sys @ cs4 @ picked @ drop k ?R @ cs2) + tools_cost S \<le> en_usable en"
      "k = 0 \<or> en_usable en < sum_by c_tokens (?sys @ cs4 @ drop (k - 1) ?R @ cs2) + tools_cost S"
      "picked = [] \<or> sum_by c_tokens picked \<le> retrieved_budget_tokens (en_settings en)"
      "int (length picked) \<le> max 0 (max_retrieved_items (en_settings en))"
      "distinct (map c_key (in_slot Retrieval_slot S)) \<longrightarrow> distinct (map c_key picked)" "k \<le> length ?R" .
    obtain items where items: "map c_render picked = map (\<lambda>i. [retrieved_block i]) items" "set items \<subseteq> set retr"
      "map c_key picked = map ri_id items" "sum_by c_tokens picked = sum_by cost (map retrieved_block items)"
      "\<forall>m \<in> set (map retrieved_block items). countable m"
      "\<forall>i \<in> set items. (conv = None \<or> conv = Some (ri_conversation_id i))
        \<and> (ri_item_type i = Item_memory \<longrightarrow> ri_id i \<notin> set old)"
      "list_all2 (from_item counter) items picked"
      by (rule picked_items [OF parts S_def al(2)])
    let ?al = "\<lparr>al_ordered = ?sys @ cs4 @ picked @ drop k ?R @ cs2, al_stats = st\<rparr>"
    have "\<forall>c \<in> set (al_ordered ?al). \<not> trust_violation c \<and> c_source c \<noteq> TOOL_DEFINITIONS"
      using ordered_trusted [OF parts S_def al(2)] by simp
    then obtain p where plan: "make_plan en ?al scored ds' = Inr p" "ep_messages p = concat (map c_render (al_ordered ?al))"
      "ep_token_estimate p = sum_by c_tokens (al_ordered ?al) + st_tools_tokens (al_stats ?al)"
      "ep_tools_tokens p = st_tools_tokens (al_stats ?al)" "ep_usable p = en_usable en"
      using al(3,4) by (elim make_plan_fits) auto
    note rec = recent_costs [OF parts us, folded slots(1)]
    have msgs: "ep_messages p = filter is_instruction h @ pinned @ map retrieved_block items
        @ unit_messages (drop k ?turns) @ cur"
      using plan(2) items(1) rec(1) part_renders [OF parts us] by (simp add: concat_map_single)
    have "count_messages counter (ep_messages p) = Inr (ep_token_estimate p - tools_need tools)"
      unfolding msgs count_messages_Inr
      using plan(3) al(3) costs items(4,5) rec instructions_cost [OF us] by (auto simp: tt)
    moreover have "k = 0 \<or> (\<exists>n. count_messages counter (filter is_instruction h @ pinned
        @ unit_messages (drop (k - 1) ?turns) @ cur) = Inr n \<and> en_usable en < n + tools_need tools)"
      unfolding count_messages_Inr
      using al(5) costs rec instructions_cost [OF us] by (auto simp: tt)
    moreover have "items = [] \<or> (\<exists>n. count_messages counter (map retrieved_block items) = Inr n
        \<and> n \<le> retrieved_budget_tokens (en_settings en))"
      unfolding count_messages_Inr using al(6) items(4,5) items(1) by auto
    moreover have "fresh_items us cur items" by (rule picked_fresh [OF parts S_def al(2) items(7)])
    ultimately have "assembled en h cur pinned retr old conv us (tools_need tools) p k items"
      unfolding assembled_def en
      using msgs plan(3-5) al(3,4,7,8,9) items(2,3,6) rec(3) retrieval_keys_distinct [OF parts S_def]
        arg_cong [OF items(1), of length] by (auto simp: tt)
    then show ?thesis using False plan(1) by (auto simp: run al(1))
  qed
qed

lemma build_Inr:
  assumes "build en h cur tools pinned retr old conv = Inr p" "en_counter en = counter"
  obtains us k items tt where "segment_messages counter h = Inr us"
    "count_tools counter tools = Inr tt \<or> \<not> truthy tools \<and> tt = 0"
    "assembled en h cur pinned retr old conv us tt p k items"
proof -
  from assms obtain cs where fuse: "fuse_candidates counter h cur tools pinned retr = Inr cs"
    by (cases "fuse_candidates counter h cur tools pinned retr") (auto simp: build_def lift_engine_def)
  from fuse_shape [OF fuse] obtain us cs3 where us: "segment_messages counter h = Inr us"
    and cs3: "tools_candidates counter tools = Inr cs3" by metis
  have tt: "count_tools counter tools = Inr (tools_need tools) \<or> \<not> truthy tools \<and> tools_need tools = 0"
    using tools_candidates_Inr [OF cs3] by (auto simp: tools_need_def)
  from build_result [OF fuse assms(2) us refl, of old conv] assms(1) obtain k items where
    "assembled en h cur pinned retr old conv us (tools_need tools) p k items"
    by (auto split: if_splits)
  then show ?thesis by (rule that [OF us tt])
qed

lemma build_Inl:
  assumes "build en h cur tools pinned retr old conv = Inl e" "en_counter en = counter"
  shows "case e of
      EngineRaised x \<Rightarrow> fuse_candidates counter h cur tools pinned retr = Inl x
    | EngineOverflow need usable \<Rightarrow> usable = en_usable en \<and> usable < need
        \<and> (\<exists>n. count_messages counter (filter is_instruction h @ pinned @ cur) = Inr n \<and> need = n + tools_need tools)"
proof (cases "fuse_candidates counter h cur tools pinned retr")
  case (Inl x)
  with assms show ?thesis by (auto simp: build_def lift_engine_def)
next
  case (Inr cs)
  from fuse_shape [OF Inr] obtain us cs1 cs2 cs3 cs4 cs5 where us: "segment_messages counter h = Inr us"
    and parts: "fused_parts counter cur tools pinned retr us cs1 cs2 cs3 cs4 cs5"
    unfolding fused_parts_def by metis
  let ?need = "sum_by cost (filter is_instruction h) + sum_by cost pinned + sum_by cost cur + tools_need tools"
  from build_result [OF Inr assms(2) us refl, of old conv] assms(1)
  have "e = EngineOverflow ?need (en_usable en)" "en_usable en < ?need" by (auto split: if_splits)
  then show ?thesis
    using instructions_cost [OF us] part_costs(3,5) [OF parts us] by (auto simp: count_messages_Inr)
qed

end

section \<open>Properties\<close>

lemma tools_tokens_cases:
  "count_tools TokenCounter tools = Inr tt \<or> \<not> truthy tools \<and> tt = 0 \<Longrightarrow> tools_tokens_of tools = Inr tt"
  by (auto simp: TokenCounter_simps tools_tokens_of_def)

lemma tools_need_token_counter:
  "fuse_candidates TokenCounter h cur tools pinned retr = Inr cs \<Longrightarrow> tools_tokens_of tools = Inr (tc.tools_need tools)"
  by (auto simp: fuse_candidates_def tools_candidates_def tc.tools_need_def TokenCounter_simps tools_tokens_of_def
      result_simps split: if_splits)

lemma assembled_split:
  assumes us: "segment_messages counter h = Inr us" and a: "assembled en h cur pinned retr old conv us tt p k items"
  obtains before after where "ep_messages p = before @ map retrieved_block items @ after"
    "set before \<union> set after \<subseteq> set h \<union> set pinned \<union> set cur"
proof -
  have "set (unit_messages us) = set h" using mset_eq_setD [OF segment_messages_mset [OF us]] .
  then have "set (unit_messages (drop k (filter (Not \<circ> is_system) us))) \<subseteq> set h"
    by (auto simp: unit_messages_def dest!: in_set_dropD)
  then have "set (filter is_instruction h @ pinned) \<union> set (unit_messages (drop k (filter (Not \<circ> is_system) us)) @ cur)
      \<subseteq> set h \<union> set pinned \<union> set cur" by auto
  moreover have "ep_messages p = (filter is_instruction h @ pinned) @ map retrieved_block items
      @ (unit_messages (drop k (filter (Not \<circ> is_system) us)) @ cur)"
    using a unfolding assembled_def by simp
  ultimately show ?thesis using that by blast
qed

text \<open>A concrete engine, with a history of two turns of which the older does not fit.\<close>

definition demo_weights :: retrieval_settings where
  "demo_weights =
     \<lparr>semantic_weight = 40 / 100, lexical_weight = 25 / 100, recency_weight = 15 / 100,
      importance_weight = 15 / 100, type_weight = 5 / 100, limit_default = 8, candidate_pool = 50\<rparr>"

definition demo_engine :: engine where
  "demo_engine =
     \<lparr>en_usable = 39,
      en_settings = \<lparr>mmr_lambda = 7 / 10, max_retrieved_items = 8, retrieved_budget_tokens = 4000\<rparr>,
      en_retrieval = demo_weights, en_counter = TokenCounter, en_similarity = cosine_similarity\<rparr>"

definition demo_memory :: retrieved_item where
  "demo_memory =
     \<lparr>ri_item_type = Item_memory, ri_id = ''m1'', ri_conversation_id = ''c'', ri_kind = ''fact'',
      ri_content = ''likes tea'', ri_score = 1 / 2, ri_components = [(''semantic'', 1)],
      ri_source_message_ids = [], ri_start_seq = None, ri_end_seq = None\<rparr>"

lemma retrieved_memory_total:
  assumes "ri_item_type i = Item_memory"
  shows "\<exists>c. candidate_from_retrieved TokenCounter i = Inr c"
proof -
  have "\<exists>n. message_tokens (retrieved_block i) = Inr n"
    using text_tokens_str
    by (simp add: message_tokens_def retrieved_block_def Let_def serialized_tokens_def or_else_def opt_text_tokens_def)
  with assms show ?thesis by (auto simp: candidate_from_retrieved_def Let_def dedup_text_of_def TokenCounter_simps)
qed

lemma demo_fused: "\<exists>cs. fuse_candidates TokenCounter demo_history demo_request JNull [] [demo_memory] = Inr cs"
proof -
  obtain c where "candidate_from_retrieved TokenCounter demo_memory = Inr c"
    using retrieved_memory_total [of demo_memory] by (auto simp: demo_memory_def)
  moreover have "\<not> isl (fuse_candidates TokenCounter demo_history demo_request JNull [] [])" by code_simp
  then obtain cs where "fuse_candidates TokenCounter demo_history demo_request JNull [] [] = Inr cs"
    by (cases "fuse_candidates TokenCounter demo_history demo_request JNull [] []") auto
  ultimately show ?thesis by (auto simp: fuse_candidates_def result_simps)
qed

lemma demo_built: "\<exists>p. build demo_engine demo_history demo_request JNull [] [demo_memory] [] (Some ''c'') = Inr p"
proof (rule ccontr)
  assume "\<nexists>p. build demo_engine demo_history demo_request JNull [] [demo_memory] [] (Some ''c'') = Inr p"
  then obtain e where e: "build demo_engine demo_history demo_request JNull [] [demo_memory] [] (Some ''c'') = Inl e"
    by (cases "build demo_engine demo_history demo_request JNull [] [demo_memory] [] (Some ''c'')") auto
  have "messages_tokens (filter is_instruction demo_history @ [] @ demo_request) = Inr 11" by code_simp
  with tc.build_Inl [OF e] demo_fused show False
    by (auto simp: demo_engine_def TokenCounter_simps tc.tools_need_def split: engine_error.splits)
qed

text \<open>
  C3. Assembly (\<open>ContextAssemblyEngine.build\<close>): the messages of a plan are the system and developer
  messages, the pinned ones, retrieved blocks, the newest turns, and the current request, in this
  order.  The turns are whole and contiguous, and one more would exceed the budget.  What is sent
  counts to the estimate of the plan, which with the tool definitions is within the usable budget.
\<close>

theorem build_contiguous_window_within_budget:
  assumes "en_counter en = TokenCounter" "build en history request tools pinned retrieved superseded conv = Inr p"
  shows "\<exists>units k items tt n. segment_messages TokenCounter history = Inr units \<and> set items \<subseteq> set retrieved
    \<and> ep_messages p = filter is_instruction history @ pinned @ map retrieved_block items
        @ unit_messages (drop k (filter (Not \<circ> is_system) units)) @ request
    \<and> tools_tokens_of tools = Inr tt \<and> messages_tokens (ep_messages p) = Inr n
    \<and> ep_token_estimate p = n + tt \<and> n + tt \<le> en_usable en \<and> plan_within_budget p
    \<and> (k = 0 \<or> (\<exists>m. messages_tokens (filter is_instruction history @ pinned
          @ unit_messages (drop (k - 1) (filter (Not \<circ> is_system) units)) @ request) = Inr m \<and> en_usable en < m + tt))"
proof -
  from tc.build_Inr [OF assms(2,1)] obtain us k items tt where us: "segment_messages TokenCounter history = Inr us"
    and tt: "tools_tokens_of tools = Inr tt"
    and a: "assembled en history request pinned retrieved superseded conv us tt p k items"
    using tools_tokens_cases by metis
  from a us tt show ?thesis
    by (intro exI [of _ us] exI [of _ k] exI [of _ items] exI [of _ tt] exI [of _ "ep_token_estimate p - tt"])
      (auto simp: assembled_def assms(1) TokenCounter_simps plan_within_budget_def)
qed

theorem build_contiguous_window_within_budget_witness:
  "\<exists>p k items. build demo_engine demo_history demo_request JNull [] [demo_memory] [] (Some ''c'') = Inr p
    \<and> ep_messages p = [chat_msg ''system'' ''be brief''] @ map retrieved_block items
        @ concat (drop k [[chat_msg ''user'' ''first question'', chat_msg ''assistant'' ''an answer''],
            [chat_msg ''user'' ''second question'', chat_msg ''assistant'' ''again'']]) @ demo_request
    \<and> plan_within_budget p"
proof -
  obtain p where p: "build demo_engine demo_history demo_request JNull [] [demo_memory] [] (Some ''c'') = Inr p"
    using demo_built by blast
  have en: "en_counter demo_engine = TokenCounter" by (simp add: demo_engine_def)
  have seg: "map_r (\<lambda>u. Inr (u_messages u)) (filter (Not \<circ> is_system) (projr (segment_messages TokenCounter demo_history)))
      = (Inr [[chat_msg ''user'' ''first question'', chat_msg ''assistant'' ''an answer''],
         [chat_msg ''user'' ''second question'', chat_msg ''assistant'' ''again'']] :: unit + _)" by code_simp
  have ins: "filter is_instruction demo_history = [chat_msg ''system'' ''be brief'']" by code_simp
  from build_contiguous_window_within_budget [OF en p] obtain us k items where
    us: "segment_messages TokenCounter demo_history = Inr us" and "plan_within_budget p"
    "ep_messages p = filter is_instruction demo_history @ [] @ map retrieved_block items
      @ unit_messages (drop k (filter (Not \<circ> is_system) us)) @ demo_request" by blast
  moreover have "map u_messages (filter (Not \<circ> is_system) us)
      = [[chat_msg ''user'' ''first question'', chat_msg ''assistant'' ''an answer''],
         [chat_msg ''user'' ''second question'', chat_msg ''assistant'' ''again'']]"
    using seg us map_r_Inr_map [of "filter (Not \<circ> is_system) us" "\<lambda>u. Inr (u_messages u) :: unit + _" u_messages] by simp
  ultimately show ?thesis
    using p ins by (intro exI [of _ p] exI [of _ k] exI [of _ items]) (simp add: unit_messages_def drop_map [symmetric])
qed

text \<open>
  C8. Retrieved context (\<open>ContextAssemblyEngine.build\<close>): every message of a plan that is not of the
  history, pinned or the request is a user-role block of a retrieved item.  These items belong to the
  conversation of the request, none is a superseded memory, and both caps of the settings hold.
\<close>

theorem build_isolates_retrieved:
  assumes "en_counter en = TokenCounter"
    and "build en history request tools pinned retrieved superseded (Some conv) = Inr p"
  shows "\<exists>before items after. ep_messages p = before @ map retrieved_block items @ after
    \<and> set before \<union> set after \<subseteq> set history \<union> set pinned \<union> set request
    \<and> (\<forall>i \<in> set items. i \<in> set retrieved \<and> ri_conversation_id i = conv
         \<and> (ri_item_type i = Item_memory \<longrightarrow> ri_id i \<notin> set superseded)
         \<and> dget (retrieved_block i) ''role'' = JStr ''user'')
    \<and> int (length items) \<le> max 0 (max_retrieved_items (en_settings en))
    \<and> (items = [] \<or> (\<exists>n. messages_tokens (map retrieved_block items) = Inr n
         \<and> n \<le> retrieved_budget_tokens (en_settings en)))"
proof -
  from tc.build_Inr [OF assms(2,1)] obtain us k items tt where us: "segment_messages TokenCounter history = Inr us"
    and a: "assembled en history request pinned retrieved superseded (Some conv) us tt p k items" by metis
  obtain before after where split: "ep_messages p = before @ map retrieved_block items @ after"
    "set before \<union> set after \<subseteq> set history \<union> set pinned \<union> set request" by (rule assembled_split [OF us a])
  have "\<forall>i \<in> set items. i \<in> set retrieved \<and> ri_conversation_id i = conv
      \<and> (ri_item_type i = Item_memory \<longrightarrow> ri_id i \<notin> set superseded) \<and> dget (retrieved_block i) ''role'' = JStr ''user''"
    using a unfolding assembled_def by (auto simp: retrieved_block_role)
  moreover have "int (length items) \<le> max 0 (max_retrieved_items (en_settings en))"
    "items = [] \<or> (\<exists>n. messages_tokens (map retrieved_block items) = Inr n \<and> n \<le> retrieved_budget_tokens (en_settings en))"
    using a unfolding assembled_def by (simp_all add: assms(1) TokenCounter_simps)
  ultimately show ?thesis using split by blast
qed

theorem build_isolates_retrieved_witness:
  "\<exists>p before items after. build demo_engine demo_history demo_request JNull [] [demo_memory] [] (Some ''c'') = Inr p
    \<and> ep_messages p = before @ map retrieved_block items @ after
    \<and> (\<forall>i \<in> set items. i = demo_memory \<and> ri_conversation_id i = ''c'') \<and> int (length items) \<le> 8"
proof -
  obtain p where p: "build demo_engine demo_history demo_request JNull [] [demo_memory] [] (Some ''c'') = Inr p"
    using demo_built by blast
  have en: "en_counter demo_engine = TokenCounter" by (simp add: demo_engine_def)
  from build_isolates_retrieved [OF en p] obtain before items after where i:
    "ep_messages p = before @ map retrieved_block items @ after"
    "\<forall>i \<in> set items. i \<in> set [demo_memory] \<and> ri_conversation_id i = ''c''"
    "int (length items) \<le> max 0 (max_retrieved_items (en_settings demo_engine))" by blast
  from i(3) have "int (length items) \<le> 8" by (simp add: demo_engine_def)
  moreover have "\<forall>i \<in> set items. i = demo_memory \<and> ri_conversation_id i = ''c''" using i(2) by simp
  ultimately show ?thesis using p i(1) by blast
qed

text \<open>
  The request takes part in the comparison with its role in front only: a memory with the very content of the
  request stays beside it.
\<close>

lemma request_content_not_compared:
  assumes "request_candidate TokenCounter [chat_msg ''user'' ''now''] 0 = Inr cs"
    and "candidate_from_retrieved TokenCounter (demo_memory\<lparr>ri_content := ''now''\<rparr>) = Inr c"
  shows "deduplicate (cs @ [c]) = (cs @ [c], [])"
proof -
  have texts: "message_texts [chat_msg ''user'' ''now''] = Inr ''user: now''" "canonical_text ''user: now'' = ''user: now''"
    "canonical_text ''now'' = ''now''" by code_simp+
  obtain r where r: "cs = [r]" "c_text r = ''user: now''" "c_tier r = TIER_BY_SOURCE CURRENT_REQUEST"
    "m_content_texts (c_meta r) = None"
    using assms(1) texts by (auto simp: request_candidate_def result_simps no_meta_def)
  have "m_dedup_text (c_meta c) = Some ''now''" "c_tier c = TIER_BY_SOURCE MEMORY"
    using assms(2) texts(3) by (auto simp: candidate_from_retrieved_def dedup_text_of_def demo_memory_def result_simps Let_def)
  with r show ?thesis by (simp add: deduplicate_def)
qed

text \<open>
  C32. Duplicates (\<open>ContextAssemblyEngine._deduplicate\<close>): no retrieved block of a plan has the canonical text of a
  history unit, the content of a message of a unit, or the text of the request with its roles, and two blocks with
  the same text are the same item.  The bare content of the request may be repeated by a block (lemma
  \<open>request_content_not_compared\<close>).
\<close>

theorem build_no_duplicates:
  assumes "en_counter en = TokenCounter" "build en history request tools pinned retrieved superseded conv = Inr p"
  shows "\<exists>units before items after. segment_messages TokenCounter history = Inr units
    \<and> ep_messages p = before @ map retrieved_block items @ after
    \<and> set before \<union> set after \<subseteq> set history \<union> set pinned \<union> set request
    \<and> (\<forall>i \<in> set items. \<forall>x. dedup_text_of i = Inr x \<and> x \<noteq> [] \<longrightarrow> \<not> restates units request x
         \<and> (\<forall>j \<in> set items. dedup_text_of j = Inr x \<longrightarrow> ri_id j = ri_id i))"
proof -
  from tc.build_Inr [OF assms(2,1)] obtain us k items tt where us: "segment_messages TokenCounter history = Inr us"
    and a: "assembled en history request pinned retrieved superseded conv us tt p k items" by metis
  obtain before after where "ep_messages p = before @ map retrieved_block items @ after"
    "set before \<union> set after \<subseteq> set history \<union> set pinned \<union> set request" by (rule assembled_split [OF us a])
  moreover have "fresh_items us request items" using a unfolding assembled_def by simp
  ultimately show ?thesis using us unfolding fresh_items_def by blast
qed

theorem build_no_duplicates_witness:
  "\<exists>p before items after. build demo_engine demo_history demo_request JNull [] [demo_memory] [] (Some ''c'') = Inr p
    \<and> ep_messages p = before @ map retrieved_block items @ after
    \<and> (\<forall>i \<in> set items. dedup_text_of i \<noteq> Inr ''an answer'')"
proof -
  obtain p where p: "build demo_engine demo_history demo_request JNull [] [demo_memory] [] (Some ''c'') = Inr p"
    using demo_built by blast
  have en: "en_counter demo_engine = TokenCounter" by (simp add: demo_engine_def)
  have "list_ex (\<lambda>u. list_ex (\<lambda>m. ''an answer'' \<in> set (content_texts m)) (u_messages u))
      (projr (segment_messages TokenCounter demo_history))" by code_simp
  then have "restates us demo_request ''an answer''" if "segment_messages TokenCounter demo_history = Inr us" for us
    using that by (auto simp: restates_def list_ex_iff)
  with build_no_duplicates [OF en p] p show ?thesis by (metis list.distinct(1))
qed

text \<open>
  C33. Failures (\<open>ContextAssemblyEngine.build\<close>): the only errors are those of reading and counting
  the inputs, and the overflow of the mandatory part: instructions, pinned messages, request and
  tools exceed the usable budget.  In particular the trust-boundary guard and the final overflow
  check of the plan are never reached.
\<close>

theorem build_fails_only_on_mandatory_overflow:
  assumes "en_counter en = TokenCounter"
    and "fuse_candidates TokenCounter history request tools pinned retrieved = Inr candidates"
  shows "\<exists>n tt. messages_tokens (filter is_instruction history @ pinned @ request) = Inr n \<and> tools_tokens_of tools = Inr tt
    \<and> (if en_usable en < n + tt
        then build en history request tools pinned retrieved superseded conv = Inl (EngineOverflow (n + tt) (en_usable en))
        else \<exists>p. build en history request tools pinned retrieved superseded conv = Inr p)"
proof -
  from fuse_shape [OF assms(2)] obtain us cs1 cs2 cs3 cs4 cs5 where us: "segment_messages TokenCounter history = Inr us"
    and parts: "fused_parts TokenCounter request tools pinned retrieved us cs1 cs2 cs3 cs4 cs5"
    unfolding fused_parts_def by metis
  have "count_messages TokenCounter (filter is_instruction history @ pinned @ request)
      = Inr (sum_by tc.cost (filter is_instruction history) + sum_by tc.cost pinned + sum_by tc.cost request)"
    using tc.instructions_cost [OF us] tc.part_costs(3,5) [OF parts us] by (auto simp: tc.count_messages_Inr)
  with tc.build_result [OF assms(2,1) us refl, of superseded conv] tools_need_token_counter [OF assms(2)]
  show ?thesis by (auto simp: TokenCounter_simps split: if_splits)
qed

theorem build_fails_only_on_mandatory_overflow_witness:
  "build (demo_engine\<lparr>en_usable := 10\<rparr>) demo_history demo_request JNull [] [demo_memory] [] (Some ''c'')
    = Inl (EngineOverflow 11 10)"
proof -
  obtain cs where cs: "fuse_candidates TokenCounter demo_history demo_request JNull [] [demo_memory] = Inr cs"
    using demo_fused by blast
  have en: "en_counter (demo_engine\<lparr>en_usable := 10\<rparr>) = TokenCounter" by (simp add: demo_engine_def)
  have "messages_tokens (filter is_instruction demo_history @ [] @ demo_request) = Inr 11" "tools_tokens_of JNull = Inr 0"
    by code_simp+
  with build_fails_only_on_mandatory_overflow [OF en cs, of "[]" "Some ''c''"] show ?thesis by simp
qed

end
