(* ===== verification/Capture.thy ===== *)
theory Capture
  imports Candidates
begin

text \<open>
  Capture of a streamed response, \<open>capture.py\<close>: \<open>AssistantCapture\<close> accumulates the bytes of the
  stream up to a limit and rebuilds the assistant message from the SSE events at the end;
  \<open>PersistingLLMStream\<close> passes the bytes on and hands the message to its callback.

  A chunk of bytes is a list of numbers below 256.  The decoder covers the code points 0 to 255
  that a \<open>string\<close> can hold; a longer or ill-formed sequence is \<open>Unmodelled\<close>.  The keys of
  \<open>_tool_calls\<close> are whatever the provider sends as \<open>index\<close>, so they are values compared with
  \<open>==\<close>; sorting keys that cannot be compared raises.
\<close>

section \<open>Model\<close>

subsection \<open>The capture object\<close>

definition REASONING_KEYS :: "string list" where
  "REASONING_KEYS = [''reasoning'', ''reasoning_content'', ''reasoning_text'']"

record capture =
  cap_buffer :: "nat list"
  cap_role :: json
  cap_content :: "json list"
  cap_refusal :: "json list"
  cap_reasoning :: "(string \<times> string list) list"
  cap_tool_calls :: "(json \<times> pydict) list"
  cap_finish_reason :: json
  cap_usage :: json
  cap_model :: json
  cap_saw_choice :: bool
  cap_max_bytes :: "nat option"
  cap_overflowed :: bool

definition AssistantCapture :: "nat option \<Rightarrow> capture" where
  "AssistantCapture max_bytes =
     \<lparr>cap_buffer = [], cap_role = JNull, cap_content = [], cap_refusal = [], cap_reasoning = [],
      cap_tool_calls = [], cap_finish_reason = JNull, cap_usage = JNull, cap_model = JNull,
      cap_saw_choice = False, cap_max_bytes = max_bytes, cap_overflowed = False\<rparr>"

definition feed :: "capture \<Rightarrow> nat list \<Rightarrow> capture" where
  "feed c chunk =
     (if cap_overflowed c then c
      else
        (case cap_max_bytes c of
           Some limit \<Rightarrow>
             if limit < length (cap_buffer c) + length chunk then c\<lparr>cap_overflowed := True\<rparr>
             else c\<lparr>cap_buffer := cap_buffer c @ chunk\<rparr>
         | None \<Rightarrow> c\<lparr>cap_buffer := cap_buffer c @ chunk\<rparr>))"

subsection \<open>One event\<close>

text \<open>\<open>choices[0]\<close> of a truthy value.\<close>

fun first_item :: "json \<Rightarrow> json result" where
  "first_item (JArr (x # xs)) = Inr x"
| "first_item (JStr (c # s)) = Inr (JStr [c])"
| "first_item (JObj d) = Inl KeyError"
| "first_item _ = Inl TypeError"

text \<open>\<open>x or y or {}\<close> of two entries of a dictionary, which \<open>.get\<close> then needs to be one.\<close>

definition as_dict :: "json \<Rightarrow> pydict result" where
  "as_dict v = (case v of JObj d \<Rightarrow> Inr d | _ \<Rightarrow> Inl AttributeError)"

text \<open>\<open>s += v\<close> for a string \<open>s\<close>.\<close>

definition str_add :: "json \<Rightarrow> json \<Rightarrow> json result" where
  "str_add a b = (case (a, b) of (JStr x, JStr y) \<Rightarrow> Inr (JStr (x @ y)) | _ \<Rightarrow> Inl TypeError)"

definition add_entry :: "string \<Rightarrow> pydict \<Rightarrow> pydict \<Rightarrow> pydict result" where
  "add_entry k src target =
     (if truthy (dget src k)
      then bind_r (str_add (dget target k) (dget src k)) (\<lambda>v. Inr (dset k v target))
      else Inr target)"

text \<open>
  The accumulation of \<open>function\<close> (with \<open>name\<close> and \<open>arguments\<close>) or \<open>custom\<close> (with \<open>name\<close> and
  \<open>input\<close>) in a slot.
\<close>

definition add_call_part :: "string \<Rightarrow> string \<Rightarrow> pydict \<Rightarrow> pydict \<Rightarrow> pydict result" where
  "add_call_part part field tool_call slot =
     (case dget tool_call part of
        JObj src \<Rightarrow>
          bind_r (as_dict (dget_default slot part (JObj [(''name'', JStr []), (field, JStr [])]))) (\<lambda>acc.
          bind_r (add_entry ''name'' src acc) (\<lambda>acc1.
          bind_r (add_entry field src acc1) (\<lambda>acc2.
          Inr (dset part (JObj acc2) slot))))
      | _ \<Rightarrow> Inr slot)"

definition set_if_truthy :: "string \<Rightarrow> pydict \<Rightarrow> pydict \<Rightarrow> pydict" where
  "set_if_truthy k src target = (if truthy (dget src k) then dset k (dget src k) target else target)"

definition absorb_call :: "pydict \<Rightarrow> pydict \<Rightarrow> pydict result" where
  "absorb_call tool_call slot =
     (let slot1 = set_if_truthy ''type'' tool_call (set_if_truthy ''id'' tool_call slot);
          slot2 = foldl (\<lambda>s kv. dsetdefault (fst kv) (snd kv) s) slot1
            (filter (\<lambda>kv. fst kv \<notin> {''index'', ''id'', ''type'', ''function'', ''custom''}) tool_call)
      in bind_r (add_call_part ''function'' ''arguments'' tool_call slot2) (\<lambda>slot3.
         add_call_part ''custom'' ''input'' tool_call slot3))"

text \<open>\<open>self._tool_calls.setdefault(index, {})\<close> and the update of that slot in place.\<close>

definition hashable :: "json \<Rightarrow> bool" where
  "hashable v = (\<not> is_list v \<and> \<not> is_dict v)"

fun slot_update :: "json \<Rightarrow> (pydict \<Rightarrow> pydict result) \<Rightarrow> (json \<times> pydict) list \<Rightarrow> (json \<times> pydict) list result" where
  "slot_update i f [] = bind_r (f []) (\<lambda>s. Inr [(i, s)])"
| "slot_update i f ((j, s) # rest) =
     (if py_eq j i then bind_r (f s) (\<lambda>s'. Inr ((j, s') # rest))
      else bind_r (slot_update i f rest) (\<lambda>rest'. Inr ((j, s) # rest')))"

definition absorb_tool_call :: "(json \<times> pydict) list \<Rightarrow> json \<Rightarrow> (json \<times> pydict) list result" where
  "absorb_tool_call calls v =
     bind_r (as_dict v) (\<lambda>tool_call.
     let index = dget_default tool_call ''index'' (JInt 0) in
     if \<not> hashable index then Inl TypeError
     else slot_update index (absorb_call tool_call) calls)"

definition add_reasoning :: "pydict \<Rightarrow> (string \<times> string list) list \<Rightarrow> string \<Rightarrow> (string \<times> string list) list" where
  "add_reasoning delta parts key =
     (case dget delta key of
        JStr s \<Rightarrow>
          if s = [] then parts
          else AList.update key ((case map_of parts key of None \<Rightarrow> [] | Some ps \<Rightarrow> ps) @ [s]) parts
      | _ \<Rightarrow> parts)"

definition append_if_truthy :: "json \<Rightarrow> json list \<Rightarrow> json list" where
  "append_if_truthy v parts = (if truthy v then parts @ [v] else parts)"

definition absorb_delta :: "capture \<Rightarrow> pydict \<Rightarrow> capture result" where
  "absorb_delta c delta =
     (let c1 = c\<lparr>cap_role := or_else (dget delta ''role'') (cap_role c),
                 cap_content := append_if_truthy (dget delta ''content'') (cap_content c),
                 cap_refusal := append_if_truthy (dget delta ''refusal'') (cap_refusal c),
                 cap_reasoning := foldl (add_reasoning delta) (cap_reasoning c) REASONING_KEYS\<rparr> in
      bind_r (py_iter (or_else (dget delta ''tool_calls'') (JArr []))) (\<lambda>tool_calls.
      bind_r (fold_r absorb_tool_call (cap_tool_calls c) tool_calls) (\<lambda>calls.
      Inr (c1\<lparr>cap_tool_calls := calls\<rparr>))))"

definition absorb :: "capture \<Rightarrow> json \<Rightarrow> capture result" where
  "absorb c v =
     bind_r (as_dict v) (\<lambda>payload.
     let c1 = c\<lparr>cap_usage := or_else (dget payload ''usage'') (cap_usage c),
                cap_model := or_else (dget payload ''model'') (cap_model c)\<rparr>;
         choices = dget payload ''choices'' in
     if \<not> truthy choices then Inr c1
     else
     bind_r (first_item choices) (\<lambda>choice0.
     bind_r (as_dict choice0) (\<lambda>choice.
     bind_r (as_dict (or_else (or_else (dget choice ''delta'') (dget choice ''message'')) (JObj []))) (\<lambda>delta.
     bind_r (absorb_delta (c1\<lparr>cap_saw_choice := True\<rparr>) delta) (\<lambda>c2.
     Inr (c2\<lparr>cap_finish_reason := or_else (dget choice ''finish_reason'') (cap_finish_reason c2)\<rparr>))))))"

subsection \<open>The message\<close>

text \<open>\<open>"".join(parts)\<close>\<close>

definition join_parts :: "json list \<Rightarrow> string result" where
  "join_parts parts =
     bind_r (map_r (\<lambda>v. case v of JStr s \<Rightarrow> Inr s | _ \<Rightarrow> Inl TypeError) parts) (\<lambda>ss. Inr (concat ss))"

definition str_or_none :: "string \<Rightarrow> json" where
  "str_or_none s = (if s = [] then JNull else JStr s)"

text \<open>\<open>sorted\<close> of keys that are distinct under \<open>==\<close>: all numbers, or all strings, or it raises.\<close>

definition sorted_calls :: "(json \<times> pydict) list \<Rightarrow> pydict list result" where
  "sorted_calls calls =
     (if length calls \<le> 1 then Inr (map snd calls)
      else if \<forall>kv \<in> set calls. num_value (fst kv) \<noteq> None
      then Inr (map snd (sort_key (\<lambda>kv. the (num_value (fst kv))) calls))
      else if \<forall>kv \<in> set calls. is_str (fst kv)
      then Inr (map snd (sort_key (\<lambda>kv. py_str (fst kv)) calls))
      else Inl TypeError)"

definition rebuild_call :: "pydict \<Rightarrow> pydict result" where
  "rebuild_call call =
     bind_r
       (if dget call ''type'' = JStr ''custom'' \<or> has_key call ''custom'' then
          bind_r (as_dict (or_else (dget call ''custom'') (JObj []))) (\<lambda>custom.
          Inr [(''id'', dget call ''id''), (''type'', JStr ''custom''),
               (''custom'', JObj [(''name'', dget_default custom ''name'' (JStr [])),
                                  (''input'', dget_default custom ''input'' (JStr []))])])
        else
          bind_r (as_dict (or_else (dget call ''function'') (JObj []))) (\<lambda>function.
          Inr [(''id'', dget call ''id''), (''type'', dget_default call ''type'' (JStr ''function'')),
               (''function'', JObj [(''name'', dget_default function ''name'' (JStr [])),
                                    (''arguments'', dget_default function ''arguments'' (JStr []))])]))
       (\<lambda>rebuilt.
          Inr (foldl (\<lambda>r kv. dset (fst kv) (snd kv) r) rebuilt
            (filter (\<lambda>kv. fst kv \<notin> {''id'', ''type'', ''function'', ''custom''}) call)))"

definition build_message :: "capture \<Rightarrow> pydict result" where
  "build_message c =
     bind_r (join_parts (cap_content c)) (\<lambda>content.
     bind_r (join_parts (cap_refusal c)) (\<lambda>refusal.
     bind_r (sorted_calls (cap_tool_calls c)) (\<lambda>slots.
     bind_r (map_r rebuild_call (filter (\<lambda>s. truthy (dget s ''id'')) slots)) (\<lambda>tool_calls.
     let message = [(''role'', or_else (cap_role c) (JStr ''assistant'')), (''content'', str_or_none content)];
         message1 = foldl (\<lambda>m kv. if concat (snd kv) = [] then m else dset (fst kv) (JStr (concat (snd kv))) m)
           message (sort_key fst (cap_reasoning c));
         message2 = (if tool_calls = [] then message1 else dset ''tool_calls'' (JArr (map JObj tool_calls)) message1)
     in Inr (if refusal = [] then message2 else dset ''refusal'' (JStr refusal) message2)))))"

definition response_metadata :: "capture \<Rightarrow> pydict" where
  "response_metadata c =
     (if cap_finish_reason c = JNull then [] else [(''finish_reason'', cap_finish_reason c)])
     @ (if cap_usage c = JNull then [] else [(''usage'', cap_usage c)])
     @ (if cap_model c = JNull then [] else [(''model'', cap_model c)])"

subsection \<open>The end of the stream\<close>

fun utf8_decode :: "nat list \<Rightarrow> string result" where
  "utf8_decode [] = Inr []"
| "utf8_decode (b # bs) =
     (if b < 128 then bind_r (utf8_decode bs) (\<lambda>s. Inr (char_of b # s))
      else
        (case bs of
           b2 # bs' \<Rightarrow>
             if 194 \<le> b \<and> b \<le> 195 \<and> 128 \<le> b2 \<and> b2 \<le> 191
             then bind_r (utf8_decode bs') (\<lambda>s. Inr (char_of ((b - 192) * 64 + (b2 - 128)) # s))
             else Inl Unmodelled
         | [] \<Rightarrow> Inl Unmodelled))"

definition sse_lines :: "string \<Rightarrow> string list" where
  "sse_lines t = concat (map splitlines (split_nlnl [] t))"

definition absorb_line :: "capture \<Rightarrow> string \<Rightarrow> capture result" where
  "absorb_line c line =
     (if \<not> starts_with ''data:'' line then Inr c
      else
      let data = strip (drop (length ''data:'') line) in
      if data = [] \<or> data = ''[DONE]'' then Inr c
      else
        (case json_loads data of
           Inl (ValueError _) \<Rightarrow> Inr c
         | Inl e \<Rightarrow> Inl e
         | Inr payload \<Rightarrow> absorb c payload))"

definition finalize :: "capture \<Rightarrow> (pydict option \<times> capture) result" where
  "finalize c =
     (if cap_overflowed c then Inr (None, c)
      else
      bind_r (utf8_decode (cap_buffer c)) (\<lambda>t.
      bind_r (fold_r absorb_line c (sse_lines t)) (\<lambda>c'.
      if \<not> cap_saw_choice c' then Inr (None, c')
      else bind_r (build_message c') (\<lambda>m. Inr (Some m, c')))))"

subsection \<open>The wrapped stream\<close>

text \<open>
  The inner stream yields \<open>chunks\<close> and then either ends (\<open>completed\<close>) or is broken off, by an
  error of the provider or by the client going away.  The outcome records what was passed on, what
  the callback was called with, if it was, and an exception raised on the way to it.
\<close>

record stream_outcome =
  so_yielded :: "nat list list"
  so_finished :: "(pydict option \<times> pydict) option"
  so_event :: "string option"
  so_raised :: "pyerr option"

definition iter_bytes :: "nat option \<Rightarrow> nat list list \<Rightarrow> bool \<Rightarrow> stream_outcome" where
  "iter_bytes max_capture_bytes chunks completed =
     (let capture = foldl feed (AssistantCapture max_capture_bytes) chunks;
          overflowed = (completed \<and> cap_overflowed capture) in
      if \<not> completed then
        \<lparr>so_yielded = chunks, so_finished = Some (None, []),
         so_event = Some ''assistant_stream_incomplete_persistence_skipped'', so_raised = None\<rparr>
      else if overflowed then
        \<lparr>so_yielded = chunks, so_finished = Some (None, []),
         so_event = Some ''assistant_persistence_skipped_capture_overflow'', so_raised = None\<rparr>
      else
        (case finalize capture of
           Inl e \<Rightarrow> \<lparr>so_yielded = chunks, so_finished = None, so_event = None, so_raised = Some e\<rparr>
         | Inr (message, capture') \<Rightarrow>
             \<lparr>so_yielded = chunks, so_finished = Some (message, response_metadata capture'),
              so_event = None, so_raised = None\<rparr>))"

text \<open>How the callback ends, and the event that is logged for it: no exception of it leaves the stream.\<close>

datatype callback_end = Callback_ok | Callback_diverged | Callback_infrastructure | Callback_exception

fun callback_event :: "callback_end \<Rightarrow> string option" where
  "callback_event Callback_ok = None"
| "callback_event Callback_diverged = Some ''assistant_persistence_conflict''"
| "callback_event Callback_infrastructure = Some ''assistant_persistence_failed''"
| "callback_event Callback_exception = Some ''assistant_persistence_programming_error''"

section \<open>Bytes\<close>

lemma of_nat_char [simp]: "n < 256 \<Longrightarrow> of_char (char_of n :: char) = (n::nat)"
  by (simp add: of_char_of)

lemma utf8_decode_encode: "utf8_decode (utf8_encode s) = Inr s"
proof (induction s)
  case (Cons c s)
  define n where "n = (of_char c :: nat)"
  have n: "n < 256" unfolding n_def by (rule nat_of_char_less_256)
  have c: "char_of n = c" by (simp add: n_def)
  show ?case
  proof (cases "n < 128")
    case True
    then show ?thesis using Cons c by (simp add: utf8_encode_def utf8_char_def n_def [symmetric])
  next
    case False
    have "n div 64 = 2 \<or> n div 64 = 3" "n mod 64 < 64" using False n by auto
    then have "utf8_decode ([192 + n div 64, 128 + n mod 64] @ utf8_encode s) = Inr (char_of n # s)"
      using Cons by auto
    then show ?thesis using False c by (simp add: utf8_encode_def utf8_char_def n_def [symmetric])
  qed
qed (simp add: utf8_encode_def)

fun under :: "nat option \<Rightarrow> nat \<Rightarrow> bool" where
  "under None n = True"
| "under (Some m) n = (n \<le> m)"

lemma under_mono: "under limit n \<Longrightarrow> k \<le> n \<Longrightarrow> under limit k"
  by (cases limit) auto

lemma feed_under: "\<not> cap_overflowed c \<Longrightarrow>
  feed c x = (if under (cap_max_bytes c) (length (cap_buffer c @ x)) then c\<lparr>cap_buffer := cap_buffer c @ x\<rparr>
              else c\<lparr>cap_overflowed := True\<rparr>)"
  by (auto simp: feed_def split: option.split)

lemma feed_overflowed: "cap_overflowed c \<Longrightarrow> foldl feed c chunks = c"
  by (induction chunks) (simp_all add: feed_def)

lemma feed_chunks:
  "\<not> cap_overflowed c \<Longrightarrow> under (cap_max_bytes c) (length (cap_buffer c @ concat chunks)) \<Longrightarrow>
     foldl feed c chunks = c\<lparr>cap_buffer := cap_buffer c @ concat chunks\<rparr>"
proof (induction chunks arbitrary: c)
  case (Cons x chunks)
  have "under (cap_max_bytes c) (length (cap_buffer c @ x))" by (rule under_mono [OF Cons.prems(2)]) simp
  then have "feed c x = c\<lparr>cap_buffer := cap_buffer c @ x\<rparr>" using Cons.prems(1) by (simp add: feed_under)
  with Cons.IH [of "c\<lparr>cap_buffer := cap_buffer c @ x\<rparr>"] Cons.prems show ?case by simp
qed simp

lemma feed_too_much:
  "\<not> cap_overflowed c \<Longrightarrow> under (cap_max_bytes c) (length (cap_buffer c)) \<Longrightarrow>
     \<not> under (cap_max_bytes c) (length (cap_buffer c @ concat chunks)) \<Longrightarrow>
     cap_overflowed (foldl feed c chunks)"
proof (induction chunks arbitrary: c)
  case (Cons x chunks)
  show ?case
  proof (cases "under (cap_max_bytes c) (length (cap_buffer c @ x))")
    case True
    with Cons.IH [of "c\<lparr>cap_buffer := cap_buffer c @ x\<rparr>"] Cons.prems show ?thesis by (simp add: feed_under)
  qed (use Cons.prems in \<open>simp add: feed_under feed_overflowed\<close>)
qed simp

lemma iter_bytes_within:
  "under mb (length (concat chunks)) \<Longrightarrow>
     iter_bytes mb chunks True =
       (case finalize ((AssistantCapture mb)\<lparr>cap_buffer := concat chunks\<rparr>) of
          Inl e \<Rightarrow> \<lparr>so_yielded = chunks, so_finished = None, so_event = None, so_raised = Some e\<rparr>
        | Inr (message, c) \<Rightarrow>
            \<lparr>so_yielded = chunks, so_finished = Some (message, response_metadata c),
             so_event = None, so_raised = None\<rparr>)"
  using feed_chunks [of "AssistantCapture mb" chunks]
  by (simp add: iter_bytes_def AssistantCapture_def Let_def)

lemma iter_bytes_overflow:
  "\<not> under mb (length (concat chunks)) \<Longrightarrow>
     iter_bytes mb chunks True =
       \<lparr>so_yielded = chunks, so_finished = Some (None, []),
        so_event = Some ''assistant_persistence_skipped_capture_overflow'', so_raised = None\<rparr>"
  using feed_too_much [of "AssistantCapture mb" chunks]
  by (cases mb) (simp_all add: iter_bytes_def AssistantCapture_def Let_def)

text \<open>
  C34. The bytes of the provider are passed on untouched, and what is captured depends only on the
  bytes and not on how they were cut into chunks: two streams with the same bytes give the callback
  the same message and metadata, log the same event and raise or do not raise alike.  A stream that was
  broken off, or that is longer than the capture limit, gives the callback no message.
\<close>

theorem capture_ignores_chunk_boundaries:
  assumes "concat chunks = concat chunks'"
  shows "so_yielded (iter_bytes limit chunks completed) = chunks
    \<and> iter_bytes limit chunks' completed = (iter_bytes limit chunks completed)\<lparr>so_yielded := chunks'\<rparr>
    \<and> (\<not> completed \<or> (\<exists>m. limit = Some m \<and> m < length (concat chunks)) \<longrightarrow>
         so_finished (iter_bytes limit chunks completed) = Some (None, []))"
proof (cases "completed")
  case True
  then show ?thesis
    using assms iter_bytes_overflow [of limit chunks] iter_bytes_overflow [of limit chunks']
      iter_bytes_within [of limit chunks] iter_bytes_within [of limit chunks']
    by (cases "under limit (length (concat chunks))") (auto split: sum.splits option.splits)
qed (simp add: iter_bytes_def)

theorem capture_ignores_chunk_boundaries_witness:
  "so_finished (iter_bytes (Some 3) [[100, 97], [116, 97]] True) = Some (None, [])
   \<and> so_yielded (iter_bytes (Some 3) [[100, 97], [116, 97]] True) = [[100, 97], [116, 97]]"
  using capture_ignores_chunk_boundaries [of "[[100, 97], [116, 97]]" "[[100, 97, 116, 97]]" "Some 3" True]
  by simp

section \<open>Reassembly\<close>

text \<open>
  The deltas of a response, as a provider streams them: a piece of the answer, a piece of the
  reasoning, or a fragment of the tool call with a given index, whose identifier, name and
  arguments may each be empty.
\<close>

datatype piece =
    Content_piece string
  | Reasoning_piece string
  | Call_piece nat string string string

fun piece_delta :: "piece \<Rightarrow> pydict" where
  "piece_delta (Content_piece s) = [(''content'', JStr s)]"
| "piece_delta (Reasoning_piece s) = [(''reasoning_content'', JStr s)]"
| "piece_delta (Call_piece i ident name arguments) =
     [(''tool_calls'', JArr [JObj
        [(''index'', JInt (int i)), (''id'', JStr ident),
         (''function'', JObj [(''name'', JStr name), (''arguments'', JStr arguments)])]])]"

definition piece_payload :: "piece \<Rightarrow> pydict" where
  "piece_payload p =
     [(''object'', JStr ''chat.completion.chunk''),
      (''choices'', JArr [JObj [(''index'', JInt 0), (''delta'', JObj (piece_delta p))]])]"

definition piece_line :: "piece \<Rightarrow> string" where
  "piece_line p = ''data: '' @ dumps_default (JObj (piece_payload p))"

definition sse_text :: "piece list \<Rightarrow> string" where
  "sse_text ps = concat (map (\<lambda>l. l @ [nl, nl]) (map piece_line ps @ [''data: [DONE]'']))"

text \<open>The message the pieces make.\<close>

fun piece_content :: "piece \<Rightarrow> string" where
  "piece_content (Content_piece s) = s"
| "piece_content _ = []"

fun piece_reasoning :: "piece \<Rightarrow> string" where
  "piece_reasoning (Reasoning_piece s) = s"
| "piece_reasoning _ = []"

fun piece_index :: "piece \<Rightarrow> nat list" where
  "piece_index (Call_piece i _ _ _) = [i]"
| "piece_index _ = []"

fun piece_name :: "nat \<Rightarrow> piece \<Rightarrow> string" where
  "piece_name i (Call_piece j _ name _) = (if i = j then name else [])"
| "piece_name i _ = []"

fun piece_arguments :: "nat \<Rightarrow> piece \<Rightarrow> string" where
  "piece_arguments i (Call_piece j _ _ arguments) = (if i = j then arguments else [])"
| "piece_arguments i _ = []"

fun piece_id :: "nat \<Rightarrow> string \<Rightarrow> piece \<Rightarrow> string" where
  "piece_id i old (Call_piece j ident _ _) = (if i = j \<and> ident \<noteq> [] then ident else old)"
| "piece_id i old _ = old"

definition pieces_id :: "nat \<Rightarrow> piece list \<Rightarrow> string" where
  "pieces_id i ps = foldl (piece_id i) [] ps"

definition pieces_function :: "nat \<Rightarrow> piece list \<Rightarrow> json" where
  "pieces_function i ps =
     JObj [(''name'', JStr (concat (map (piece_name i) ps))),
           (''arguments'', JStr (concat (map (piece_arguments i) ps)))]"

definition pieces_call :: "piece list \<Rightarrow> nat \<Rightarrow> pydict" where
  "pieces_call ps i =
     [(''id'', JStr (pieces_id i ps)), (''type'', JStr ''function''), (''function'', pieces_function i ps)]"

definition pieces_calls :: "piece list \<Rightarrow> pydict list" where
  "pieces_calls ps =
     map (pieces_call ps) (filter (\<lambda>i. pieces_id i ps \<noteq> []) (sort (remdups (concat (map piece_index ps)))))"

definition pieces_message :: "piece list \<Rightarrow> pydict" where
  "pieces_message ps =
     [(''role'', JStr ''assistant''), (''content'', str_or_none (concat (map piece_content ps)))]
     @ (let r = concat (map piece_reasoning ps) in if r = [] then [] else [(''reasoning_content'', JStr r)])
     @ (if pieces_calls ps = [] then [] else [(''tool_calls'', JArr (map JObj (pieces_calls ps)))])"

subsection \<open>Lines\<close>

lemma split_nlnl_line:
  "nl \<notin> set l \<Longrightarrow> split_nlnl acc (l @ nl # nl # s) = rev (rev l @ acc) # split_nlnl [] s"
proof (induction l arbitrary: acc)
  case (Cons c l)
  then show ?case by (cases l) auto
qed simp

lemma split_nlnl_lines:
  "\<forall>l \<in> set ls. nl \<notin> set l \<Longrightarrow> split_nlnl [] (concat (map (\<lambda>l. l @ [nl, nl]) ls)) = ls @ [[]]"
  by (induction ls) (simp_all add: split_nlnl_line)

lemma nl_breaks: "is_line_break nl"
  by (simp add: is_line_break_def nl_def)

lemma sse_lines_events:
  assumes "\<forall>l \<in> set ls. l \<noteq> [] \<and> (\<forall>c \<in> set l. \<not> is_line_break c)"
  shows "sse_lines (concat (map (\<lambda>l. l @ [nl, nl]) ls)) = ls"
proof -
  have "split_nlnl [] (concat (map (\<lambda>l. l @ [nl, nl]) ls)) = ls @ [[]]"
    using assms nl_breaks by (intro split_nlnl_lines) auto
  moreover have "splitlines l = [l]" if "l \<in> set ls" for l
    using assms that splitlines_acc_last [of l "[]"] by (simp add: splitlines_def)
  then have "map splitlines ls = map (\<lambda>l. [l]) ls" by simp
  moreover have "splitlines [] = []" by (simp add: splitlines_def)
  ultimately show ?thesis by (simp only: sse_lines_def map_append) simp
qed

lemma absorb_piece_line:
  assumes "one_line (piece_payload p)"
  shows "absorb_line c (piece_line p) = absorb c (JObj (piece_payload p))"
proof -
  let ?d = "dumps_default (JObj (piece_payload p))"
  have "strip (CHR '' '' # ?d) = ?d"
    using dumps_one_line(1) [OF assms] by (simp add: strip_def is_space_def)
  moreover have "?d \<noteq> ''[DONE]''" by (simp add: dumps_default_def)
  ultimately show ?thesis
    using dumps_one_line(2,3) [OF assms] by (simp add: absorb_line_def piece_line_def starts_with_def)
qed

lemma sse_text_lines:
  assumes "\<forall>p \<in> set ps. one_line (piece_payload p)"
  shows "sse_lines (sse_text ps) = map piece_line ps @ [''data: [DONE]'']"
proof -
  have "piece_line p \<noteq> [] \<and> (\<forall>c \<in> set (piece_line p). \<not> is_line_break c)" if "p \<in> set ps" for p
    using dumps_one_line(4) [of "piece_payload p"] assms that by (simp add: piece_line_def is_line_break_def)
  then show ?thesis unfolding sse_text_def
    by (intro sse_lines_events) (auto simp: is_line_break_def)
qed

subsection \<open>The state after some pieces\<close>

definition slot_holds :: "piece list \<Rightarrow> nat \<Rightarrow> pydict \<Rightarrow> bool" where
  "slot_holds ps i s \<longleftrightarrow>
     fst ` set s \<subseteq> {''id'', ''function''} \<and>
     dget s ''id'' = (if pieces_id i ps = [] then JNull else JStr (pieces_id i ps)) \<and>
     map_of s ''function'' = Some (pieces_function i ps)"

definition calls_hold :: "piece list \<Rightarrow> (json \<times> pydict) list \<Rightarrow> bool" where
  "calls_hold ps calls \<longleftrightarrow>
     (\<exists>js. distinct js \<and> set js = set (concat (map piece_index ps)) \<and>
       list_all2 (\<lambda>i kv. fst kv = JInt (int i) \<and> slot_holds ps i (snd kv)) js calls)"

definition absorbed :: "piece list \<Rightarrow> capture \<Rightarrow> capture \<Rightarrow> bool" where
  "absorbed ps c0 c \<longleftrightarrow>
     (\<exists>cs rs calls.
        c = c0\<lparr>cap_content := map JStr cs, cap_reasoning := rs, cap_tool_calls := calls,
               cap_saw_choice := (ps \<noteq> [])\<rparr> \<and>
        concat cs = concat (map piece_content ps) \<and>
        rs = (case filter (\<lambda>s. s \<noteq> []) (map piece_reasoning ps) of
               [] \<Rightarrow> [] | r # rs' \<Rightarrow> [(''reasoning_content'', r # rs')]) \<and>
        calls_hold ps calls)"

lemma absorb_call_new:
  "absorb_call [(''index'', JInt (int i)), (''id'', JStr ident),
         (''function'', JObj [(''name'', JStr name), (''arguments'', JStr arguments)])] slot
   = add_call_part ''function'' ''arguments''
       [(''index'', JInt (int i)), (''id'', JStr ident),
         (''function'', JObj [(''name'', JStr name), (''arguments'', JStr arguments)])]
       (if ident = [] then slot else dset ''id'' (JStr ident) slot)"
  by (simp add: absorb_call_def set_if_truthy_def add_call_part_def Let_def bind_r_def split: sum.split)

lemma add_function_part:
  assumes "dget_default slot ''function'' (JObj [(''name'', JStr []), (''arguments'', JStr [])])
      = JObj [(''name'', JStr n), (''arguments'', JStr a)]"
  shows "add_call_part ''function'' ''arguments''
       [(''index'', x), (''id'', y), (''function'', JObj [(''name'', JStr name), (''arguments'', JStr arguments)])]
       slot
   = Inr (dset ''function'' (JObj [(''name'', JStr (n @ name)), (''arguments'', JStr (a @ arguments))]) slot)"
  using assms by (simp add: add_call_part_def as_dict_def add_entry_def str_add_def dset_def)

lemma num_value_int_eq: "num_value (JInt (int i)) = num_value (JInt (int j)) \<longleftrightarrow> i = j"
  by simp

lemma slot_update_fold:
  assumes "list_all2 (\<lambda>i kv. fst kv = JInt (int i) \<and> P i (snd kv)) js calls" "distinct js"
    and old: "\<And>s. P i s \<Longrightarrow> \<exists>s'. f s = Inr s' \<and> Q i s'"
    and new: "i \<notin> set js \<Longrightarrow> \<exists>s'. f [] = Inr s' \<and> Q i s'"
    and rest: "\<And>j s. j \<noteq> i \<Longrightarrow> P j s \<Longrightarrow> Q j s"
  shows "\<exists>js' calls'. slot_update (JInt (int i)) f calls = Inr calls' \<and> distinct js' \<and>
    set js' = insert i (set js) \<and> list_all2 (\<lambda>i kv. fst kv = JInt (int i) \<and> Q i (snd kv)) js' calls'"
  using assms(1,2) new
proof (induction rule: list_all2_induct)
  case Nil
  then obtain s' where s': "f [] = Inr s'" "Q i s'" by auto
  then have "slot_update (JInt (int i)) f [] = Inr [(JInt (int i), s')]" by simp
  moreover have "list_all2 (\<lambda>i kv. fst kv = JInt (int i) \<and> Q i (snd kv)) [i] [(JInt (int i), s')]"
    using s' by simp
  ultimately show ?case by (intro exI [of _ "[i]"] exI [of _ "[(JInt (int i), s')]"]) simp
next
  case (Cons j js kv calls)
  obtain s where kv: "kv = (JInt (int j), s)" "P j s" using Cons.hyps(1) by (cases kv) auto
  show ?case
  proof (cases "j = i")
    case True
    obtain s' where s': "f s = Inr s'" "Q i s'" using old kv True by auto
    have "list_all2 (\<lambda>i kv. fst kv = JInt (int i) \<and> Q i (snd kv)) js calls"
      using Cons.hyps(2) by (rule list.rel_mono_strong) (use Cons.prems True in \<open>auto intro!: rest\<close>)
    with s' kv True Cons.prems show ?thesis
      by (intro exI [of _ "i # js"] exI [of _ "(JInt (int i), s') # calls"]) auto
  next
    case False
    with Cons.IH Cons.prems obtain js' calls' where *: "slot_update (JInt (int i)) f calls = Inr calls'"
      "distinct js'" "set js' = insert i (set js)"
      "list_all2 (\<lambda>i kv. fst kv = JInt (int i) \<and> Q i (snd kv)) js' calls'" by auto
    with False kv rest Cons.prems show ?thesis
      by (intro exI [of _ "j # js'"] exI [of _ "kv # calls'"]) auto
  qed
qed

lemma pieces_snoc:
  "pieces_id i (ps @ [p]) = piece_id i (pieces_id i ps) p"
  "pieces_function i (ps @ [p]) =
     JObj [(''name'', JStr (concat (map (piece_name i) ps) @ piece_name i p)),
           (''arguments'', JStr (concat (map (piece_arguments i) ps) @ piece_arguments i p))]"
  by (simp_all add: pieces_id_def pieces_function_def)

lemma pieces_none:
  "i \<notin> set (concat (map piece_index ps)) \<Longrightarrow>
     pieces_id i ps = [] \<and> concat (map (piece_name i) ps) = [] \<and> concat (map (piece_arguments i) ps) = []"
proof (induction ps rule: rev_induct)
  case (snoc p ps)
  then show ?case by (cases p) (simp_all add: pieces_snoc)
qed (simp add: pieces_id_def)

lemma pieces_other:
  "i \<notin> set (piece_index p) \<Longrightarrow> pieces_id i (ps @ [p]) = pieces_id i ps \<and> pieces_function i (ps @ [p]) = pieces_function i ps"
  by (cases p) (simp_all add: pieces_snoc pieces_function_def)

lemma slot_holds_other: "i \<notin> set (piece_index p) \<Longrightarrow> slot_holds ps i s \<Longrightarrow> slot_holds (ps @ [p]) i s"
  by (simp add: slot_holds_def pieces_other)

lemma calls_hold_other: "piece_index p = [] \<Longrightarrow> calls_hold ps calls \<Longrightarrow> calls_hold (ps @ [p]) calls"
proof -
  assume "piece_index p = []" "calls_hold ps calls"
  moreover from this have "slot_holds (ps @ [p]) = slot_holds ps"
    by (intro ext) (auto simp: slot_holds_def pieces_other)
  ultimately show ?thesis by (simp add: calls_hold_def)
qed

lemma dset_keys: "fst ` set (dset k v s) = insert k (fst ` set s)"
  by (simp add: dset_def dom_map_of_conv_image_fst [symmetric] update_conv')

lemma map_of_dset: "map_of (dset k v s) k' = (if k' = k then Some v else map_of s k')"
  by (simp add: dset_def update_conv')

lemma absorb_call_piece:
  assumes "slot_holds ps i s \<or> s = [] \<and> i \<notin> set (concat (map piece_index ps))"
  shows "\<exists>s'. absorb_call [(''index'', JInt (int i)), (''id'', JStr ident),
         (''function'', JObj [(''name'', JStr name), (''arguments'', JStr arguments)])] s = Inr s'
    \<and> slot_holds (ps @ [Call_piece i ident name arguments]) i s'"
proof -
  let ?n = "concat (map (piece_name i) ps)" and ?a = "concat (map (piece_arguments i) ps)"
  let ?s = "if ident = [] then s else dset ''id'' (JStr ident) s"
  have d: "dget_default ?s ''function'' (JObj [(''name'', JStr []), (''arguments'', JStr [])])
      = JObj [(''name'', JStr ?n), (''arguments'', JStr ?a)]"
    using assms pieces_none [of i ps]
    by (auto simp: dget_default_def slot_holds_def pieces_function_def map_of_dset)
  let ?s' = "dset ''function'' (JObj [(''name'', JStr (?n @ name)), (''arguments'', JStr (?a @ arguments))]) ?s"
  have "slot_holds (ps @ [Call_piece i ident name arguments]) i ?s'"
    using assms pieces_none [of i ps]
    by (auto simp: slot_holds_def pieces_snoc dset_keys map_of_dset)
  then show ?thesis unfolding absorb_call_new add_function_part [OF d] by blast
qed

lemma absorb_piece_calls:
  assumes "calls_hold ps calls"
  shows "\<exists>calls'. absorb_tool_call calls (JObj [(''index'', JInt (int i)), (''id'', JStr ident),
         (''function'', JObj [(''name'', JStr name), (''arguments'', JStr arguments)])]) = Inr calls'
    \<and> calls_hold (ps @ [Call_piece i ident name arguments]) calls'"
proof -
  let ?p = "Call_piece i ident name arguments"
  obtain js where js: "distinct js" "set js = set (concat (map piece_index ps))"
    "list_all2 (\<lambda>i kv. fst kv = JInt (int i) \<and> slot_holds ps i (snd kv)) js calls"
    using assms unfolding calls_hold_def by blast
  have "\<exists>js' calls'. slot_update (JInt (int i)) (absorb_call [(''index'', JInt (int i)), (''id'', JStr ident),
         (''function'', JObj [(''name'', JStr name), (''arguments'', JStr arguments)])]) calls = Inr calls' \<and>
      distinct js' \<and> set js' = insert i (set js) \<and>
      list_all2 (\<lambda>i kv. fst kv = JInt (int i) \<and> slot_holds (ps @ [?p]) i (snd kv)) js' calls'"
    using js by (intro slot_update_fold [where P = "slot_holds ps"] absorb_call_piece slot_holds_other) auto
  then show ?thesis using js(2)
    by (auto simp: absorb_tool_call_def as_dict_def dget_default_def hashable_def calls_hold_def)
qed

lemma absorb_piece:
  assumes "absorbed ps c0 c" and c0: "c0 = (AssistantCapture mb)\<lparr>cap_buffer := bs\<rparr>"
  shows "\<exists>c'. absorb c (JObj (piece_payload p)) = Inr c' \<and> absorbed (ps @ [p]) c0 c'"
proof -
  obtain cs rs calls where c: "c = c0\<lparr>cap_content := map JStr cs, cap_reasoning := rs, cap_tool_calls := calls,
               cap_saw_choice := (ps \<noteq> [])\<rparr>" "concat cs = concat (map piece_content ps)"
      "rs = (case filter (\<lambda>s. s \<noteq> []) (map piece_reasoning ps) of
               [] \<Rightarrow> [] | r # rs' \<Rightarrow> [(''reasoning_content'', r # rs')])" "calls_hold ps calls"
    using assms(1) unfolding absorbed_def by blast
  have delta: "absorb c (JObj (piece_payload p)) = absorb_delta (c\<lparr>cap_saw_choice := True\<rparr>) (piece_delta p)"
    using c0 c(1) by (cases p) (simp_all add: AssistantCapture_def absorb_def as_dict_def piece_payload_def or_else_def
        bind_r_def absorb_delta_def Let_def split: sum.split)
  show ?thesis
  proof (cases p)
    case (Content_piece s)
    have "calls_hold (ps @ [p]) calls" using calls_hold_other [OF _ c(4)] Content_piece by simp
    then show ?thesis unfolding delta unfolding Content_piece using c(1-3)
      by (auto simp: c0 AssistantCapture_def absorb_delta_def or_else_def append_if_truthy_def REASONING_KEYS_def add_reasoning_def
          absorbed_def intro!: exI [of _ "if s = [] then cs else cs @ [s]"])
  next
    case (Reasoning_piece s)
    have "calls_hold (ps @ [p]) calls" using calls_hold_other [OF _ c(4)] Reasoning_piece by simp
    then show ?thesis unfolding delta unfolding Reasoning_piece using c(1-3)
      by (auto simp: c0 AssistantCapture_def absorb_delta_def or_else_def append_if_truthy_def REASONING_KEYS_def add_reasoning_def
          absorbed_def split: list.split intro!: exI [of _ cs])
  next
    case (Call_piece i ident name arguments)
    obtain calls' where "absorb_tool_call calls (JObj [(''index'', JInt (int i)), (''id'', JStr ident),
         (''function'', JObj [(''name'', JStr name), (''arguments'', JStr arguments)])]) = Inr calls'"
       "calls_hold (ps @ [p]) calls'"
      using absorb_piece_calls [OF c(4)] unfolding Call_piece by blast
    then show ?thesis unfolding delta unfolding Call_piece using c(1-3)
      by (auto simp: c0 AssistantCapture_def absorb_delta_def or_else_def append_if_truthy_def REASONING_KEYS_def add_reasoning_def
          absorbed_def intro!: exI [of _ cs])
  qed
qed

lemma absorb_pieces:
  assumes "c0 = (AssistantCapture mb)\<lparr>cap_buffer := bs\<rparr>" "\<forall>p \<in> set ps. one_line (piece_payload p)"
  shows "\<exists>c. fold_r absorb_line c0 (map piece_line ps) = Inr c \<and> absorbed ps c0 c"
  using assms(2)
proof (induction ps rule: rev_induct)
  case Nil
  show ?case by (simp add: absorbed_def calls_hold_def assms(1) AssistantCapture_def)
next
  case (snoc p ps)
  then obtain c where c: "fold_r absorb_line c0 (map piece_line ps) = Inr c" "absorbed ps c0 c" by auto
  have "\<exists>c'. absorb c (JObj (piece_payload p)) = Inr c' \<and> absorbed (ps @ [p]) c0 c'"
    by (rule absorb_piece [OF c(2) assms(1)])
  then show ?case using c(1) snoc.prems by (auto simp: fold_r_append absorb_piece_line)
qed

subsection \<open>The message of the pieces\<close>

lemma join_strs: "join_parts (map JStr cs) = Inr (concat cs)"
proof -
  have "map_r (\<lambda>v. case v of JStr s \<Rightarrow> Inr s | _ \<Rightarrow> Inl TypeError) (map JStr cs) = Inr cs"
    by (induction cs) auto
  then show ?thesis by (simp add: join_parts_def)
qed

lemma rebuild_slot:
  assumes "slot_holds ps i s" "pieces_id i ps \<noteq> []"
  shows "rebuild_call s = Inr (pieces_call ps i)"
proof -
  have keys: "map_of s k = None" if "k \<notin> {''id'', ''function''}" for k
    using assms(1) that by (auto simp: slot_holds_def map_of_eq_None_iff)
  have "filter (\<lambda>kv. fst kv \<notin> {''id'', ''type'', ''function'', ''custom''}) s = []"
    using assms(1) by (auto simp: slot_holds_def filter_empty_conv)
  with assms keys [of "''type''"] keys [of "''custom''"] show ?thesis
    by (simp add: rebuild_call_def slot_holds_def dget_def dget_default_def has_key_def or_else_def
        pieces_function_def as_dict_def pieces_call_def)
qed

lemma sorted_slots:
  assumes "calls_hold ps calls"
  shows "\<exists>slots. sorted_calls calls = Inr slots \<and>
    list_all2 (slot_holds ps) (sort (remdups (concat (map piece_index ps)))) slots"
proof -
  obtain js where js: "distinct js" "set js = set (concat (map piece_index ps))"
    "list_all2 (\<lambda>i kv. fst kv = JInt (int i) \<and> slot_holds ps i (snd kv)) js calls"
    using assms unfolding calls_hold_def by blast
  define key where "key = (\<lambda>kv :: json \<times> pydict. the (num_value (fst kv)))"
  let ?cs = "sort_key key calls"
  have num: "num_value (fst kv) \<noteq> None \<and> (\<exists>i. fst kv = JInt (int i) \<and> slot_holds ps i (snd kv))" if "kv \<in> set calls" for kv
    using js(3) that by (auto simp: list_all2_conv_all_nth in_set_conv_nth)
  have sc: "sorted_calls calls = Inr (map snd ?cs)"
    using num by (cases calls; cases "tl calls") (auto simp: sorted_calls_def key_def)
  define idx where "idx = (\<lambda>kv :: json \<times> pydict. case fst kv of JInt i \<Rightarrow> nat i | _ \<Rightarrow> 0)"
  have idx: "map idx calls = js"
    using js(3) by (induction rule: list_all2_induct) (auto simp: idx_def)
  have "key kv = of_nat (idx kv)" if "kv \<in> set calls" for kv
    using num [OF that] by (auto simp: key_def idx_def)
  then have "sorted (map (\<lambda>kv. of_nat (idx kv) :: rat) ?cs)"
    using sorted_sort_key [of key calls] by (metis (no_types, lifting) map_cong set_sort)
  then have sorted: "sorted (map idx ?cs)" by (simp add: sorted_map sorted_wrt_map)
  have "mset (map idx ?cs) = mset js" by (simp flip: idx)
  then have "map idx ?cs = sort (remdups (concat (map piece_index ps)))"
    using js(1,2) sorted by (metis distinct_remdups properties_for_sort set_remdups set_eq_iff_mset_eq_distinct)
  moreover have "list_all2 (slot_holds ps) (map idx ?cs) (map snd ?cs)"
    unfolding list_all2_map1 list_all2_map2
  proof (rule list.rel_refl_strong)
    fix kv assume "kv \<in> set ?cs"
    then obtain i where "fst kv = JInt (int i)" "slot_holds ps i (snd kv)" using num [of kv] by auto
    then show "slot_holds ps (idx kv) (snd kv)" by (simp add: idx_def)
  qed
  ultimately show ?thesis using sc by metis
qed

lemma rebuilt_slots:
  assumes "list_all2 (slot_holds ps) js slots"
  shows "map_r rebuild_call (filter (\<lambda>s. truthy (dget s ''id'')) slots)
    = Inr (map (pieces_call ps) (filter (\<lambda>i. pieces_id i ps \<noteq> []) js))"
  using assms
proof (induction rule: list_all2_induct)
  case (Cons i js s slots)
  have "truthy (dget s ''id'') \<longleftrightarrow> pieces_id i ps \<noteq> []" using Cons.hyps(1) by (simp add: slot_holds_def)
  with Cons rebuild_slot [OF Cons.hyps(1)] show ?case by simp
qed simp

lemma build_pieces:
  assumes "absorbed ps c0 c" and c0: "c0 = (AssistantCapture mb)\<lparr>cap_buffer := bs\<rparr>"
  shows "build_message c = Inr (pieces_message ps)"
proof -
  obtain cs rs calls where c: "c = c0\<lparr>cap_content := map JStr cs, cap_reasoning := rs, cap_tool_calls := calls,
               cap_saw_choice := (ps \<noteq> [])\<rparr>" "concat cs = concat (map piece_content ps)"
      "rs = (case filter (\<lambda>s. s \<noteq> []) (map piece_reasoning ps) of
               [] \<Rightarrow> [] | r # rs' \<Rightarrow> [(''reasoning_content'', r # rs')])" "calls_hold ps calls"
    using assms(1) unfolding absorbed_def by blast
  obtain slots where slots: "sorted_calls calls = Inr slots"
      "list_all2 (slot_holds ps) (sort (remdups (concat (map piece_index ps)))) slots"
    using sorted_slots [OF c(4)] by blast
  have calls: "map_r rebuild_call (filter (\<lambda>s. truthy (dget s ''id'')) slots) = Inr (pieces_calls ps)"
    using rebuilt_slots [OF slots(2)] by (simp add: pieces_calls_def)
  define fs where "fs = filter (\<lambda>s. s \<noteq> []) (map piece_reasoning ps)"
  define r where "r = concat (map piece_reasoning ps)"
  have r: "concat fs = r" unfolding fs_def r_def by (induction ps) auto
  have fs: "[] \<notin> set fs" by (simp add: fs_def)
  have message: "pieces_message ps =
      [(''role'', JStr ''assistant''), (''content'', str_or_none (concat cs))]
      @ (if r = [] then [] else [(''reasoning_content'', JStr r)])
      @ (if pieces_calls ps = [] then [] else [(''tool_calls'', JArr (map JObj (pieces_calls ps)))])"
    by (simp add: pieces_message_def r_def c(2))
  have "join_parts [] = Inr []" by (simp add: join_parts_def)
  with c(1,3) slots(1) calls join_strs [of cs] fs show ?thesis
    unfolding fs_def [symmetric] message r [symmetric]
    by (cases fs) (auto simp: c0 AssistantCapture_def build_message_def or_else_def Let_def dset_def)
qed

lemma absorbed_metadata:
  "absorbed ps ((AssistantCapture mb)\<lparr>cap_buffer := bs\<rparr>) c \<Longrightarrow> response_metadata c = [] \<and> (cap_saw_choice c \<longleftrightarrow> ps \<noteq> [])"
  by (auto simp: absorbed_def response_metadata_def AssistantCapture_def)

text \<open>
  C10. A response streamed as server-sent events, cut into chunks anywhere, even inside an event or a
  UTF-8 sequence, is handed to the callback as one message: the content and reasoning pieces joined in
  order, and the tool calls in the order of their indices with their names and arguments joined, also
  when the fragments of several calls are interleaved.  The stream stays within the capture limit, and
  no event contains U+0085.
\<close>

theorem capture_reassembles_stream:
  assumes "concat chunks = utf8_encode (sse_text ps)" "ps \<noteq> []"
    and "\<forall>p \<in> set ps. one_line (piece_payload p)"
    and "\<forall>m. limit = Some m \<longrightarrow> length (utf8_encode (sse_text ps)) \<le> m"
  shows "iter_bytes limit chunks True
    = \<lparr>so_yielded = chunks, so_finished = Some (Some (pieces_message ps), []), so_event = None, so_raised = None\<rparr>"
proof -
  define c0 where "c0 = (AssistantCapture limit)\<lparr>cap_buffer := concat chunks\<rparr>"
  obtain c where c: "fold_r absorb_line c0 (map piece_line ps) = Inr c" "absorbed ps c0 c"
    using absorb_pieces [OF c0_def assms(3)] by blast
  have "absorb_line c ''data: [DONE]'' = Inr c"
    by (simp add: absorb_line_def starts_with_def strip_def is_space_def)
  then have "fold_r absorb_line c0 (sse_lines (sse_text ps)) = Inr c"
    using c(1) by (simp add: sse_text_lines [OF assms(3)] fold_r_append)
  moreover have "utf8_decode (cap_buffer c0) = Inr (sse_text ps)" "\<not> cap_overflowed c0"
    using assms(1) by (simp_all add: c0_def AssistantCapture_def utf8_decode_encode)
  ultimately have "finalize c0 = Inr (Some (pieces_message ps), c)"
    using build_pieces [OF c(2) c0_def] absorbed_metadata c(2) assms(2) unfolding finalize_def c0_def by simp
  moreover have "under limit (length (concat chunks))" using assms(1,4) by (cases limit) auto
  ultimately show ?thesis
    using absorbed_metadata c(2) iter_bytes_within [of limit chunks] unfolding c0_def by simp
qed

theorem capture_reassembles_stream_witness:
  "let ps = [Reasoning_piece ''hm'', Call_piece 1 ''b'' ''g'' ''{'', Call_piece 0 ''a'' ''f'' ''{'',
             Call_piece 1 [] [] ''}'', Call_piece 0 [] [] ''}'', Content_piece ''o'', Content_piece ''k''];
       bytes = utf8_encode (sse_text ps) in
   iter_bytes None [take 40 bytes, drop 40 bytes] True
     = \<lparr>so_yielded = [take 40 bytes, drop 40 bytes], so_finished = Some (Some
        [(''role'', JStr ''assistant''), (''content'', JStr ''ok''), (''reasoning_content'', JStr ''hm''),
         (''tool_calls'', JArr
            [JObj [(''id'', JStr ''a''), (''type'', JStr ''function''),
                   (''function'', JObj [(''name'', JStr ''f''), (''arguments'', JStr ''{}'')])],
             JObj [(''id'', JStr ''b''), (''type'', JStr ''function''),
                   (''function'', JObj [(''name'', JStr ''g''), (''arguments'', JStr ''{}'')])]])], []),
        so_event = None, so_raised = None\<rparr>"
proof -
  define ps where "ps = [Reasoning_piece ''hm'', Call_piece 1 ''b'' ''g'' ''{'', Call_piece 0 ''a'' ''f'' ''{'',
             Call_piece 1 [] [] ''}'', Call_piece 0 [] [] ''}'', Content_piece ''o'', Content_piece ''k'']"
  have "\<forall>p \<in> set ps. one_line (piece_payload p)" unfolding ps_def by code_simp
  moreover have "pieces_message ps = [(''role'', JStr ''assistant''), (''content'', JStr ''ok''), (''reasoning_content'', JStr ''hm''),
         (''tool_calls'', JArr
            [JObj [(''id'', JStr ''a''), (''type'', JStr ''function''),
                   (''function'', JObj [(''name'', JStr ''f''), (''arguments'', JStr ''{}'')])],
             JObj [(''id'', JStr ''b''), (''type'', JStr ''function''),
                   (''function'', JObj [(''name'', JStr ''g''), (''arguments'', JStr ''{}'')])]])]"
    unfolding ps_def by code_simp
  ultimately show ?thesis
    using capture_reassembles_stream [of "[take 40 (utf8_encode (sse_text ps)), drop 40 (utf8_encode (sse_text ps))]" ps None]
    unfolding ps_def [symmetric] Let_def by (simp add: ps_def)
qed

text \<open>
  An event whose data is JSON but not an object makes \<open>finalize\<close> raise outside the guarded
  call: every byte was delivered, yet the exception leaves the stream and the callback is not called.
\<close>

lemma capture_breaks_stream_on_array_event:
  "iter_bytes None [utf8_encode (''data: [1]'' @ [nl, nl])] True
   = \<lparr>so_yielded = [utf8_encode (''data: [1]'' @ [nl, nl])], so_finished = None, so_event = None,
      so_raised = Some AttributeError\<rparr>"
  by code_simp

text \<open>
  A piece of content with U+0085 is one event of the provider, but \<open>splitlines\<close> cuts its line in
  two and neither half is JSON: the piece is missing from the message that is captured as complete.
\<close>

lemma capture_drops_text_with_next_line:
  "so_finished (iter_bytes None [utf8_encode (sse_text [Content_piece ''yes'', Content_piece ('' but'' @ [CHR 0x85] @ ''no'')])] True)
   = Some (Some [(''role'', JStr ''assistant''), (''content'', JStr ''yes'')], [])"
  by code_simp

end
