(* ===== verification/VectorStore.thy ===== *)
theory VectorStore
  imports PyJson
begin

text \<open>
  The HTTP clients of the memory service: \<open>memory/qdrant.py\<close>, the vector store with its cached
  readiness flag, and \<open>memory/embeddings.py\<close>, the embedding provider, with the errors of
  \<open>memory/errors.py\<close>.

  A server is a parameter: a function from the state of the outside world and a request to a reply and
  a new state of the world.  A reply is a transport failure (any \<open>httpx\<close> error before a response) or
  a status with a body, \<open>None\<close> when the body is not JSON.  The texts of the errors are left out.
\<close>

section \<open>Servers\<close>

datatype http_request = Http_get string | Http_put string json | Http_post string json

datatype http_reply = Transport_failed | Reply nat "json option"

type_synonym 'w server = "'w \<Rightarrow> http_request \<Rightarrow> http_reply \<times> 'w"

definition is_success :: "nat \<Rightarrow> bool" where
  "is_success status = (200 \<le> status \<and> status < 300)"

text \<open>
  What a query raises when the database does not answer: the two classes of the driver, a timeout, an error of the
  operating system such as a refused connection, the program's own class, or another exception.
\<close>

datatype db_fault =
    Postgres_error
  | Interface_error
  | Timeout_error
  | Os_error
  | Persistence_infrastructure_error
  | Unexpected_fault pyerr

text \<open>
  What a call raises: the three domain errors, an \<open>httpx\<close> error that nobody wrapped, a \<open>ValueError\<close>,
  an error of PostgreSQL, a fault of the database that passes through, or another exception.
\<close>

datatype memory_error =
    VectorStoreError
  | EmbeddingProviderError
  | RetrievalError
  | HTTPError
  | MemoryValueError string
  | PostgresError
  | Database_fault db_fault
  | MemoryRaised pyerr

section \<open>Qdrant\<close>

record 'w vector_store =
  collection_ready :: bool
  vs_world :: 'w

definition vs_send :: "'w server \<Rightarrow> http_request \<Rightarrow> 'w vector_store \<Rightarrow> http_reply \<times> 'w vector_store" where
  "vs_send server req v = (case server (vs_world v) req of (reply, w) \<Rightarrow> (reply, v\<lparr>vs_world := w\<rparr>))"

definition collection_path :: "string \<Rightarrow> string" where
  "collection_path collection = ''/collections/'' @ collection"

text \<open>\<open>x.get(k, {})\<close>\<close>

definition get_dict :: "json \<Rightarrow> string \<Rightarrow> memory_error + json" where
  "get_dict v k = (case v of JObj d \<Rightarrow> Inr (dget_default d k (JObj [])) | _ \<Rightarrow> Inl (MemoryRaised AttributeError))"

fun is_int_json :: "json \<Rightarrow> bool" where
  "is_int_json (JInt i) = True"
| "is_int_json (JBool b) = True"
| "is_int_json _ = False"

definition vector_params :: "json \<Rightarrow> memory_error + (json \<times> json)" where
  "vector_params body =
     bind_r
       (case (case body of JObj d \<Rightarrow> dget d ''result'' | _ \<Rightarrow> JNull) of
          JObj result \<Rightarrow>
            bind_r (get_dict (JObj result) ''config'') (\<lambda>config.
            bind_r (get_dict config ''params'') (\<lambda>params.
            get_dict params ''vectors''))
        | _ \<Rightarrow> Inr (JObj []))
       (\<lambda>params.
          let (vsize, distance) =
            (case params of JObj d \<Rightarrow> (dget d ''size'', dget d ''distance'') | _ \<Rightarrow> (JNull, JNull)) in
          if \<not> is_int_json vsize \<or> \<not> is_str distance then Inl VectorStoreError else Inr (vsize, distance))"

definition fetch_collection_params ::
  "'w server \<Rightarrow> string \<Rightarrow> 'w vector_store \<Rightarrow> (memory_error + json \<times> json) \<times> 'w vector_store"
where
  "fetch_collection_params server collection v =
     (case vs_send server (Http_get (collection_path collection)) v of
        (Reply status (Some body), v1) \<Rightarrow>
          (if is_success status then vector_params body else Inl VectorStoreError, v1)
      | (_, v1) \<Rightarrow> (Inl VectorStoreError, v1))"

definition ensure_collection ::
  "'w server \<Rightarrow> string \<Rightarrow> nat \<Rightarrow> 'w vector_store \<Rightarrow> (memory_error + unit) \<times> 'w vector_store"
where
  "ensure_collection server collection vector_size v =
     (if collection_ready v then (Inr (), v)
      else
        (case vs_send server (Http_put (collection_path collection)
                (JObj [(''vectors'', JObj [(''size'', JInt (int vector_size)), (''distance'', JStr ''Cosine'')])])) v of
           (Transport_failed, v1) \<Rightarrow> (Inl HTTPError, v1)
         | (Reply status body, v1) \<Rightarrow>
             if status = 409 then
               (case fetch_collection_params server collection v1 of
                  (Inl e, v2) \<Rightarrow> (Inl e, v2)
                | (Inr (vsize, distance), v2) \<Rightarrow>
                    if py_eq vsize (JInt (int vector_size)) \<and> distance = JStr ''Cosine''
                    then (Inr (), v2\<lparr>collection_ready := True\<rparr>)
                    else (Inl VectorStoreError, v2))
             else if status \<notin> {200, 201} \<and> \<not> is_success status then (Inl HTTPError, v1)
             else (Inr (), v1\<lparr>collection_ready := True\<rparr>)))"

record point =
  pt_id :: string
  pt_vector :: "json list"
  pt_payload :: pydict

definition point_json :: "point \<Rightarrow> json" where
  "point_json p = JObj [(''id'', JStr (pt_id p)), (''vector'', JArr (pt_vector p)), (''payload'', JObj (pt_payload p))]"

definition put_points :: "string \<Rightarrow> point list \<Rightarrow> http_request" where
  "put_points collection points =
     Http_put (collection_path collection @ ''/points'') (JObj [(''points'', JArr (map point_json points))])"

definition raise_for_status :: "http_reply \<Rightarrow> memory_error + unit" where
  "raise_for_status reply =
     (case reply of
        Transport_failed \<Rightarrow> Inl HTTPError
      | Reply status body \<Rightarrow> if is_success status then Inr () else Inl HTTPError)"

definition upsert ::
  "'w server \<Rightarrow> string \<Rightarrow> point list \<Rightarrow> nat \<Rightarrow> 'w vector_store \<Rightarrow> (memory_error + unit) \<times> 'w vector_store"
where
  "upsert server collection points vector_size v =
     (if points = [] then (Inr (), v)
      else
        (case ensure_collection server collection vector_size v of
           (Inl e, v1) \<Rightarrow> (Inl e, v1)
         | (Inr _, v1) \<Rightarrow>
             (case vs_send server (put_points collection points) v1 of
                (Reply status body, v2) \<Rightarrow>
                  if status = 404 then
                    (case ensure_collection server collection vector_size (v2\<lparr>collection_ready := False\<rparr>) of
                       (Inl e, v3) \<Rightarrow> (Inl e, v3)
                     | (Inr _, v3) \<Rightarrow>
                         (case vs_send server (put_points collection points) v3 of
                            (reply, v4) \<Rightarrow> (raise_for_status reply, v4)))
                  else (raise_for_status (Reply status body), v2)
              | (Transport_failed, v2) \<Rightarrow> (Inl HTTPError, v2))))"

definition search_body :: "json list \<Rightarrow> nat \<Rightarrow> string option \<Rightarrow> json" where
  "search_body vector limit conversation_id =
     JObj ([(''vector'', JArr vector), (''limit'', JInt (int limit)), (''with_payload'', JBool True)]
       @ (case conversation_id of
            None \<Rightarrow> []
          | Some cid \<Rightarrow>
              [(''filter'', JObj [(''must'', JArr [JObj
                 [(''key'', JStr ''conversation_id''), (''match'', JObj [(''value'', JStr cid)])]])])]))"

definition search_result :: "json \<Rightarrow> memory_error + json list" where
  "search_result body =
     (case body of
        JObj d \<Rightarrow> (case dget_default d ''result'' (JArr []) of JArr hits \<Rightarrow> Inr hits | _ \<Rightarrow> Inl VectorStoreError)
      | _ \<Rightarrow> Inl VectorStoreError)"

definition search ::
  "'w server \<Rightarrow> string \<Rightarrow> json list \<Rightarrow> nat \<Rightarrow> string option \<Rightarrow> 'w vector_store
   \<Rightarrow> (memory_error + json list) \<times> 'w vector_store"
where
  "search server collection vector limit conversation_id v =
     (case vs_send server (Http_post (collection_path collection @ ''/points/search'')
              (search_body vector limit conversation_id)) v of
        (Reply status (Some body), v1) \<Rightarrow>
          (if is_success status then search_result body else Inl VectorStoreError, v1)
      | (_, v1) \<Rightarrow> (Inl VectorStoreError, v1))"

section \<open>Embeddings\<close>

definition embedding_item :: "json \<Rightarrow> memory_error + json list" where
  "embedding_item item =
     (case item of
        JObj d \<Rightarrow> (case dget d ''embedding'' of JArr e \<Rightarrow> Inr e | _ \<Rightarrow> Inl EmbeddingProviderError)
      | _ \<Rightarrow> Inl EmbeddingProviderError)"

definition embedding_response :: "json \<Rightarrow> memory_error + json list list" where
  "embedding_response data =
     (case data of
        JObj d \<Rightarrow> (case dget d ''data'' of JArr items \<Rightarrow> map_r embedding_item items | _ \<Rightarrow> Inl EmbeddingProviderError)
      | _ \<Rightarrow> Inl EmbeddingProviderError)"

definition embed :: "'w server \<Rightarrow> string \<Rightarrow> string list \<Rightarrow> 'w \<Rightarrow> (memory_error + json list list) \<times> 'w" where
  "embed server model texts w =
     (case server w (Http_post ''/embeddings''
              (JObj [(''input'', JArr (map JStr texts)), (''model'', JStr model)])) of
        (Reply status (Some data), w1) \<Rightarrow>
          (if is_success status then embedding_response data else Inl EmbeddingProviderError, w1)
      | (_, w1) \<Rightarrow> (Inl EmbeddingProviderError, w1))"

section \<open>Lemmas\<close>

text \<open>Every failure of the provider is the domain error.\<close>

lemma map_r_embedding_error: "map_r embedding_item items = Inl e \<Longrightarrow> e = EmbeddingProviderError"
  by (induction items) (auto simp: result_simps embedding_item_def split: json.splits)

lemma embed_error: "embed server model texts w = (Inl e, w') \<Longrightarrow> e = EmbeddingProviderError"
  by (auto simp: embed_def embedding_response_def map_r_embedding_error
      split: prod.splits http_reply.splits option.splits if_splits json.splits)

lemma search_error: "search server collection vector limit cid v = (Inl e, v') \<Longrightarrow> e = VectorStoreError"
  by (auto simp: search_def search_result_def
      split: prod.splits http_reply.splits option.splits if_splits json.splits)

text \<open>A server that cannot be reached: \<open>upsert\<close> lets the transport error through.\<close>

lemma upsert_unreachable:
  assumes "\<And>w req. fst (server w req) = Transport_failed" "points \<noteq> []"
  shows "fst (upsert server collection points n v) = Inl HTTPError"
proof -
  have r: "fst (vs_send server req u) = Transport_failed" for req and u
    using assms(1) by (auto simp: vs_send_def split: prod.split) (metis fst_conv)
  have e: "fst (ensure_collection server collection n u) = Inl HTTPError \<or>
           ensure_collection server collection n u = (Inr (), u)" for u
  proof -
    obtain reply u' where s: "vs_send server (Http_put (collection_path collection)
        (JObj [(''vectors'', JObj [(''size'', JInt (int n)), (''distance'', JStr ''Cosine'')])])) u = (reply, u')"
      by fastforce
    have "reply = Transport_failed" using r [of "Http_put (collection_path collection)
        (JObj [(''vectors'', JObj [(''size'', JInt (int n)), (''distance'', JStr ''Cosine'')])])" u] s by simp
    then show ?thesis using s by (simp add: ensure_collection_def)
  qed
  obtain reply u' where p: "vs_send server (put_points collection points) v = (reply, u')" by fastforce
  have "reply = Transport_failed" using r [of "put_points collection points" v] p by simp
  then show ?thesis using e [of v] p assms(2) by (auto simp: upsert_def split: prod.splits sum.splits)
qed

end
