(* ===== verification/Identity.thy ===== *)
theory Identity
  imports JsonParse Sha256
begin

text \<open>
  Which conversation a request belongs to, \<open>conversation/identity.py\<close>, with the parts of Python's
  \<open>uuid\<close> module it uses: \<open>uuid.UUID(text)\<close> with its lenient spellings, \<open>str(uuid)\<close>, the SHA-1
  based \<open>uuid5\<close>, and \<open>uuid4\<close> of 128 random bits, which are an argument.

  The headers of a request are pairs of a name in lower case and a value, as ASGI has them.
\<close>

section \<open>Model\<close>

subsection \<open>SHA-1\<close>

definition sha1_h0 :: "32 word list" where
  "sha1_h0 = [1732584193, 4023233417, 2562383102, 271733878, 3285377520]"

primrec sha1_schedule :: "nat \<Rightarrow> 32 word list \<Rightarrow> 32 word list" where
  "sha1_schedule 0 ws = ws"
| "sha1_schedule (Suc n) ws =
     sha1_schedule n (word_rotl 1 (ws ! 2 XOR ws ! 7 XOR ws ! 13 XOR ws ! 15) # ws)"

definition sha1_f :: "nat \<Rightarrow> 32 word \<Rightarrow> 32 word \<Rightarrow> 32 word \<Rightarrow> 32 word" where
  "sha1_f t b c d =
     (if t < 20 then (b AND c) XOR ((NOT b) AND d)
      else if t < 40 then b XOR c XOR d
      else if t < 60 then (b AND c) XOR (b AND d) XOR (c AND d)
      else b XOR c XOR d)"

definition sha1_k :: "nat \<Rightarrow> 32 word" where
  "sha1_k t =
     (if t < 20 then 1518500249 else if t < 40 then 1859775393 else if t < 60 then 2400959708 else 3395469782)"

fun sha1_round :: "32 word list \<Rightarrow> nat \<times> 32 word \<Rightarrow> 32 word list" where
  "sha1_round [a, b, c, d, e] (t, w) =
     [word_rotl 5 a + sha1_f t b c d + e + sha1_k t + w, a, word_rotl 30 b, c, d]"
| "sha1_round s _ = s"

definition sha1_block :: "32 word list \<Rightarrow> 32 word list \<Rightarrow> 32 word list" where
  "sha1_block hs block =
     map2 (+) hs (foldl sha1_round hs (zip [0..<80] (rev (sha1_schedule 64 (rev block)))))"

function sha1_blocks :: "32 word list \<Rightarrow> 32 word list \<Rightarrow> 32 word list" where
  "sha1_blocks hs ws = (if length ws < 16 then hs else sha1_blocks (sha1_block hs (take 16 ws)) (drop 16 ws))"
  by pat_completeness auto
termination
  by (relation "measure (\<lambda>(hs, ws). length ws)") auto

declare sha1_blocks.simps [simp del]

definition sha1_digest :: "nat list \<Rightarrow> nat list" where
  "sha1_digest bs =
     concat (map (\<lambda>w. big_endian 4 (unat w)) (sha1_blocks sha1_h0 (words_of_bytes (sha_pad bs))))"

subsection \<open>UUIDs\<close>

type_synonym uuid = "128 word"

text \<open>\<open>str(uuid)\<close>: \<^verbatim>\<open>'%032x'\<close> with hyphens after 8, 12, 16 and 20 digits.\<close>

primrec hex_digits :: "nat \<Rightarrow> nat \<Rightarrow> string" where
  "hex_digits 0 n = []"
| "hex_digits (Suc k) n = hex_digits k (n div 16) @ [hex_digit (n mod 16)]"

definition hyphenate :: "string \<Rightarrow> string" where
  "hyphenate h =
     take 8 h @ ''-'' @ take 4 (drop 8 h) @ ''-'' @ take 4 (drop 12 h) @ ''-'' @ take 4 (drop 16 h)
     @ ''-'' @ drop 20 h"

definition uuid_str :: "uuid \<Rightarrow> string" where
  "uuid_str u = hyphenate (hex_digits 32 (unat u))"

text \<open>\<open>s.replace(p, "")\<close> for a non-empty \<open>p\<close>, and \<open>s.strip(chars)\<close>.\<close>

function remove_all :: "string \<Rightarrow> string \<Rightarrow> string" where
  "remove_all p [] = []"
| "remove_all p (c # s) =
     (if p \<noteq> [] \<and> starts_with p (c # s) then remove_all p (drop (length p) (c # s))
      else c # remove_all p s)"
  by pat_completeness auto
termination
  by (relation "measure (\<lambda>(p, s). length s)") auto

definition strip_chars :: "string \<Rightarrow> string \<Rightarrow> string" where
  "strip_chars cs s = rev (dropWhile (\<lambda>c. c \<in> set cs) (rev (dropWhile (\<lambda>c. c \<in> set cs) s)))"

text \<open>
  \<open>int(text, 16)\<close>: white space around it, a sign, a prefix \<open>0x\<close>, and single underscores between
  digits.  The text has no hyphen here, so the sign can only be a plus.
\<close>

definition int_space :: "char \<Rightarrow> bool" where
  "int_space c = (let n = (of_char c :: nat) in (9 \<le> n \<and> n \<le> 13) \<or> n = 32 \<or> n = 133 \<or> n = 160)"

fun hex_run :: "nat \<Rightarrow> string \<Rightarrow> nat option" where
  "hex_run acc [] = Some acc"
| "hex_run acc (c # s) =
     (if c = CHR ''_'' then
        (case s of
           [] \<Rightarrow> None
         | d # s' \<Rightarrow> (case hex_val d of None \<Rightarrow> None | Some v \<Rightarrow> hex_run (acc * 16 + v) s'))
      else (case hex_val c of None \<Rightarrow> None | Some v \<Rightarrow> hex_run (acc * 16 + v) s))"

definition int_base16 :: "string \<Rightarrow> nat option" where
  "int_base16 s =
     (let trimmed = rev (dropWhile int_space (rev (dropWhile int_space s)));
          unsigned = (if take 1 trimmed = ''+'' then drop 1 trimmed else trimmed);
          body = (if take 2 unsigned = ''0x'' \<or> take 2 unsigned = ''0X''
                  then (if take 1 (drop 2 unsigned) = ''_'' then drop 3 unsigned else drop 2 unsigned)
                  else unsigned)
      in if body = [] \<or> hd body = CHR ''_'' then None else hex_run 0 body)"

text \<open>\<open>uuid.UUID(text)\<close>, \<open>None\<close> for the \<open>ValueError\<close>.\<close>

definition UUID :: "string \<Rightarrow> uuid option" where
  "UUID s =
     (let hex = remove_all ''-'' (strip_chars ''{}'' (remove_all ''uuid:'' (remove_all ''urn:'' s)))
      in if length hex \<noteq> 32 then None else map_option word_of_nat (int_base16 hex))"

text \<open>The variant and version bits of \<open>UUID(int=..., version=v)\<close>.\<close>

definition set_version :: "nat \<Rightarrow> uuid \<Rightarrow> uuid" where
  "set_version v u =
     (let u1 = (u AND NOT (push_bit 48 0xC000)) OR push_bit 48 0x8000
      in (u1 AND NOT (push_bit 64 0xF000)) OR push_bit 76 (word_of_nat v))"

definition uuid_bytes :: "uuid \<Rightarrow> nat list" where
  "uuid_bytes u = big_endian 16 (unat u)"

definition uuid5 :: "uuid \<Rightarrow> string \<Rightarrow> uuid" where
  "uuid5 namespace name =
     set_version 5
       (word_of_nat (foldl (\<lambda>n b. n * 256 + b) 0 (take 16 (sha1_digest (uuid_bytes namespace @ utf8_encode name)))))"

definition uuid4 :: "uuid \<Rightarrow> uuid" where
  "uuid4 random = set_version 4 random"

text \<open>\<open>uuid.NAMESPACE_URL\<close> is 6ba7b811-9dad-11d1-80b4-00c04fd430c8.\<close>

definition NAMESPACE_URL :: uuid where
  "NAMESPACE_URL = 0x6ba7b8119dad11d180b400c04fd430c8"

subsection \<open>The conversation of a request\<close>

record conversation_settings =
  client_id_header :: string
  max_session_identity_chars :: int

type_synonym request_headers = "(string \<times> string) list"

definition CONVERSATION_HEADER :: string where
  "CONVERSATION_HEADER = ''x-conversation-id''"

definition SESSION_NAMESPACE :: uuid where
  "SESSION_NAMESPACE = uuid5 NAMESPACE_URL ''https://context-proxy.local/sessions''"

datatype identity_error = InvalidConversationId string

definition validated_explicit_id :: "json \<Rightarrow> int \<Rightarrow> identity_error + string" where
  "validated_explicit_id raw max_chars =
     (case raw of
        JStr s \<Rightarrow>
          if s = [] \<or> int (length s) > max_chars
          then Inl (InvalidConversationId
                 (''conversation_id must be a short non-empty string (max '' @ int_str max_chars @ '' characters)''))
          else
            (case UUID s of
               Some u \<Rightarrow> Inr (uuid_str u)
             | None \<Rightarrow> Inl (InvalidConversationId (''invalid conversation_id: '' @ str_repr s)))
      | _ \<Rightarrow>
          Inl (InvalidConversationId
            (''conversation_id must be a short non-empty string (max '' @ int_str max_chars @ '' characters)'')))"

definition session_conversation_id :: "string \<Rightarrow> int \<Rightarrow> identity_error + string" where
  "session_conversation_id token max_chars =
     (let token' = strip token in
      if token' = [] \<or> int (length token') > max_chars
      then Inl (InvalidConversationId
             (''session identity header must be a short non-empty string (max '' @ int_str max_chars @ '' characters)''))
      else Inr (uuid_str (uuid5 SESSION_NAMESPACE token')))"

definition resolve_conversation_id ::
  "request_headers \<Rightarrow> pydict \<Rightarrow> conversation_settings option \<Rightarrow> uuid \<Rightarrow> identity_error + (string \<times> pydict)"
where
  "resolve_conversation_id headers payload settings random =
     (let max_chars = (case settings of Some s \<Rightarrow> max_session_identity_chars s | None \<Rightarrow> 128);
          payload' = dpop ''conversation_id'' payload;
          raw = or_else (dget payload ''conversation_id'')
                  (case map_of headers CONVERSATION_HEADER of None \<Rightarrow> JNull | Some v \<Rightarrow> JStr v)
      in if raw \<noteq> JNull then bind_r (validated_explicit_id raw max_chars) (\<lambda>cid. Inr (cid, payload'))
         else
           let client_header = (case settings of Some s \<Rightarrow> client_id_header s | None \<Rightarrow> []);
               session_token = (if client_header = [] then None else map_of headers (lower client_header))
           in case session_token of
                Some token \<Rightarrow>
                  if token \<noteq> [] then bind_r (session_conversation_id token max_chars) (\<lambda>cid. Inr (cid, payload'))
                  else Inr (uuid_str (uuid4 random), payload')
              | None \<Rightarrow> Inr (uuid_str (uuid4 random), payload'))"

section \<open>Canonical texts\<close>

definition lower_hex :: "char \<Rightarrow> bool" where
  "lower_hex c \<longleftrightarrow> (\<exists>n < 16. c = hex_digit n)"

definition canonical_uuid :: "string \<Rightarrow> bool" where
  "canonical_uuid s \<longleftrightarrow>
     length s = 36 \<and>
     (\<forall>i < 36. if i \<in> {8, 13, 18, 23} then s ! i = CHR ''-'' else lower_hex (s ! i))"

lemma hex_digits_props: "length (hex_digits k n) = k \<and> (\<forall>c \<in> set (hex_digits k n). lower_hex c)"
proof (induction k arbitrary: n)
  case (Suc k)
  have "lower_hex (hex_digit (n mod 16))" unfolding lower_hex_def by (metis mod_less_divisor zero_less_numeral)
  with Suc show ?case by simp
qed simp

lemma hyphenate_canonical:
  assumes "length h = 32" "\<forall>c \<in> set h. lower_hex c"
  shows "canonical_uuid (hyphenate h)"
  unfolding canonical_uuid_def
proof (intro conjI allI impI)
  show "length (hyphenate h) = 36" using assms(1) by (simp add: hyphenate_def)
  have h: "lower_hex (h ! i)" if "i < 32" for i using assms that by simp
  fix i :: nat assume i: "i < 36"
  consider "i < 8" | "i = 8" | "8 < i" "i < 13" | "i = 13" | "13 < i" "i < 18" | "i = 18" | "18 < i" "i < 23"
    | "i = 23" | "23 < i" by linarith
  then show "if i \<in> {8, 13, 18, 23} then hyphenate h ! i = CHR ''-'' else lower_hex (hyphenate h ! i)"
    using i assms(1) by cases (auto simp: hyphenate_def nth_append nth_Cons' intro!: h)
qed

lemma uuid_str_canonical: "canonical_uuid (uuid_str u)"
  unfolding uuid_str_def using hex_digits_props by (intro hyphenate_canonical) auto

lemma lower_hex_chars:
  assumes "lower_hex c"
  shows "c \<notin> set ''urn:i-{}_+xX''" "\<not> int_space c" "\<exists>v. hex_val c = Some v"
proof -
  obtain n where n: "n < 16" "c = hex_digit n" using assms unfolding lower_hex_def by auto
  then have c: "(of_char c :: nat) = (if n < 10 then 48 + n else 87 + n)" by (auto simp: hex_digit_def of_char_of)
  then show "c \<notin> set ''urn:i-{}_+xX''" "\<not> int_space c" using n(1) by (auto simp: int_space_def split: if_splits)
  show "\<exists>v. hex_val c = Some v" using n hex_val_hex_digit by blast
qed

lemma remove_all_none: "hd p \<notin> set s \<Longrightarrow> p \<noteq> [] \<Longrightarrow> remove_all p s = s"
proof (induction s)
  case (Cons c s)
  then have "\<not> starts_with p (c # s)" by (cases p) (auto simp: starts_with_def)
  with Cons show ?case by simp
qed simp

lemma remove_hyphen: "remove_all ''-'' s = filter (\<lambda>c. c \<noteq> CHR ''-'') s"
  by (induction s) (auto simp: starts_with_def)

lemma strip_chars_none: "set s \<inter> set cs = {} \<Longrightarrow> strip_chars cs s = s"
proof -
  assume a: "set s \<inter> set cs = {}"
  have "dropWhile (\<lambda>c. c \<in> set cs) t = t" if "set t \<inter> set cs = {}" for t
    using that by (cases t) auto
  with a show ?thesis by (simp add: strip_chars_def)
qed

lemma hex_run_digits: "hex_run acc (hex_digits k n) = Some (acc * 16 ^ k + n mod 16 ^ k)"
proof -
  have app: "hex_run a (hex_digits k n @ s) = hex_run (a * 16 ^ k + n mod 16 ^ k) s" for a s
  proof (induction k arbitrary: a n s)
    case (Suc k)
    have v: "hex_val (hex_digit (n mod 16)) = Some (n mod 16)" by (rule hex_val_hex_digit) simp
    have "lower_hex (hex_digit (n mod 16))" unfolding lower_hex_def by (metis mod_less_divisor zero_less_numeral)
    then have "hex_digit (n mod 16) \<noteq> CHR ''_''" using lower_hex_chars(1) by fastforce
    moreover have "n mod (16 * 16 ^ k) = 16 * (n div 16 mod 16 ^ k) + n mod 16" by (rule mod_mult2_eq)
    ultimately show ?case using Suc v by (simp add: algebra_simps)
  qed simp
  show ?thesis using app [of acc "[]"] by simp
qed

lemma int_base16_digits:
  assumes "0 < k"
  shows "int_base16 (hex_digits k n) = Some (n mod 16 ^ k)"
proof -
  let ?h = "hex_digits k n"
  have h: "\<forall>c \<in> set ?h. lower_hex c" "?h \<noteq> []" using hex_digits_props [of k n] assms by auto
  then have trim: "dropWhile int_space ?h = ?h" "dropWhile int_space (rev ?h) = rev ?h"
    using lower_hex_chars(2) by (auto simp: dropWhile_eq_self_iff hd_rev)
  obtain a t where at: "?h = a # t" using h(2) by (cases ?h) auto
  have "take 1 ?h \<noteq> ''+''" "hd ?h \<noteq> CHR ''_''" using h(1) lower_hex_chars(1) [of a] by (auto simp: at)
  moreover have "take 2 ?h \<noteq> ''0x''" "take 2 ?h \<noteq> ''0X''"
    using h(1) lower_hex_chars(1) [of "hd t"] by (cases t; auto simp: at)+
  ultimately show ?thesis using trim h(2) hex_run_digits [of 0 k n]
    by (simp add: int_base16_def Let_def del: take_Suc_conv_app_nth)
qed

lemma UUID_uuid_str: "UUID (uuid_str u) = Some u"
proof -
  let ?h = "hex_digits 32 (unat u)" and ?s = "uuid_str u"
  have h: "length ?h = 32" "\<forall>c \<in> set ?h. lower_hex c" using hex_digits_props by auto
  have "set ?s \<subseteq> insert (CHR ''-'') (set ?h)"
    by (auto simp: uuid_str_def hyphenate_def dest: in_set_takeD in_set_dropD)
  then have s: "c = CHR ''-'' \<or> lower_hex c" if "c \<in> set ?s" for c using that h(2) by auto
  have u: "x \<notin> set ?s" if "x \<in> {CHR ''u'', CHR 0x7B, CHR 0x7D}" for x
    using s [of x] lower_hex_chars(1) [of x] that by auto
  have "c \<noteq> CHR ''-''" if "c \<in> set ?h" for c using that h(2) lower_hex_chars(1) [of c] by auto
  then have no: "filter (\<lambda>c. c \<noteq> CHR ''-'') t = t" if "set t \<subseteq> set ?h" for t
    using that by (auto simp: filter_id_conv)
  have parts: "set (take k (drop j ?h)) \<subseteq> set ?h" "set (drop j ?h) \<subseteq> set ?h" "set (take j ?h) \<subseteq> set ?h" for k j
    by (auto dest: in_set_takeD in_set_dropD)
  have "filter (\<lambda>c. c \<noteq> CHR ''-'') ?s = take 8 ?h @ take 4 (drop 8 ?h) @ take 4 (drop 12 ?h) @ take 4 (drop 16 ?h) @ drop 20 ?h"
    unfolding uuid_str_def hyphenate_def by (simp add: no [OF parts(1)] no [OF parts(2)] no [OF parts(3)] del: hex_digits.simps)
  also have "\<dots> = ?h"
    using append_take_drop_id [of 8 ?h] append_take_drop_id [of 4 "drop 8 ?h"] append_take_drop_id [of 4 "drop 12 ?h"]
      append_take_drop_id [of 4 "drop 16 ?h"] by (simp del: append_take_drop_id hex_digits.simps)
  finally have "remove_all ''-'' (strip_chars ''{}'' (remove_all ''uuid:'' (remove_all ''urn:'' ?s))) = ?h"
    using u by (simp add: remove_all_none strip_chars_none remove_hyphen del: remove_all.simps)
  moreover have "unat u < 16 ^ 32" using unsigned_less [of u, where 'a = nat] by simp
  ultimately show ?thesis using h(1) int_base16_digits [of 32 "unat u"] by (simp add: UUID_def)
qed

lemma UUID_idem: "UUID s = Some u \<Longrightarrow> UUID (uuid_str u) = UUID s"
  by (simp add: UUID_uuid_str)

lemma validated_explicit_id_str:
  "36 \<le> max_chars \<Longrightarrow> validated_explicit_id (JStr (uuid_str u)) max_chars = Inr (uuid_str u)"
proof -
  have "length (uuid_str u) = 36" using uuid_str_canonical [of u] by (simp add: canonical_uuid_def)
  moreover from this have "uuid_str u \<noteq> []" by auto
  ultimately show "36 \<le> max_chars \<Longrightarrow> ?thesis"
    by (simp add: validated_explicit_id_def UUID_uuid_str)
qed

lemma resolved_uuid:
  "resolve_conversation_id headers payload settings random = Inr (cid, payload') \<Longrightarrow>
     (\<exists>u. cid = uuid_str u) \<and> payload' = dpop ''conversation_id'' payload"
  by (auto simp: resolve_conversation_id_def Let_def validated_explicit_id_def session_conversation_id_def result_simps
      split: json.splits option.splits if_splits)

text \<open>
  C35. Identity (\<open>resolve_conversation_id\<close>): the id of a request is always the canonical text of a
  UUID, in lower case and hyphenated 8-4-4-4-12, whichever spelling or session token it came from, and
  the field is removed from the payload and nothing else.  A client that sends the id back, in the body
  or in the header, stays in the same conversation, provided the configured limit admits 36 characters.
\<close>

theorem resolved_id_canonical_and_stable:
  assumes "resolve_conversation_id headers payload settings random = Inr (cid, payload')"
  shows "canonical_uuid cid \<and> payload' = dpop ''conversation_id'' payload
    \<and> ((case settings of None \<Rightarrow> True | Some s \<Rightarrow> 36 \<le> max_session_identity_chars s) \<longrightarrow>
         resolve_conversation_id headers2 (dset ''conversation_id'' (JStr cid) payload2) settings random2
           = Inr (cid, dpop ''conversation_id'' (dset ''conversation_id'' (JStr cid) payload2))
       \<and> (\<not> truthy (dget payload2 ''conversation_id'') \<longrightarrow>
            resolve_conversation_id ((CONVERSATION_HEADER, cid) # headers2) payload2 settings random2
              = Inr (cid, dpop ''conversation_id'' payload2)))"
proof -
  obtain u where u: "cid = uuid_str u" "payload' = dpop ''conversation_id'' payload" using resolved_uuid [OF assms] by blast
  have ne: "uuid_str u \<noteq> []" using uuid_str_canonical [of u] by (auto simp: canonical_uuid_def)
  define m where "m = (case settings of Some s \<Rightarrow> max_session_identity_chars s | None \<Rightarrow> 128)"
  have "validated_explicit_id (JStr (uuid_str u)) m = Inr (uuid_str u)"
    if "case settings of None \<Rightarrow> True | Some s \<Rightarrow> 36 \<le> max_session_identity_chars s"
    using that by (intro validated_explicit_id_str) (auto simp: m_def split: option.splits)
  then show ?thesis
    using u ne uuid_str_canonical [of u]
    by (auto simp: resolve_conversation_id_def m_def [symmetric] or_else_def)
qed

definition demo_conversation_settings :: conversation_settings where
  "demo_conversation_settings = \<lparr>client_id_header = ''X-Session-ID'', max_session_identity_chars = 128\<rparr>"

theorem resolved_id_canonical_and_stable_witness:
  "resolve_conversation_id [] [(''conversation_id'', JStr ''{00000000-0000-0000-0000-00000000001F}''), (''model'', JStr ''m'')]
     (Some demo_conversation_settings) 0
   = Inr (''00000000-0000-0000-0000-00000000001f'', [(''model'', JStr ''m'')])
   \<and> resolve_conversation_id [(CONVERSATION_HEADER, ''00000000-0000-0000-0000-00000000001f'')] [(''model'', JStr ''n'')]
     (Some demo_conversation_settings) 1
   = Inr (''00000000-0000-0000-0000-00000000001f'', [(''model'', JStr ''n'')])"
proof -
  have r: "resolve_conversation_id [] [(''conversation_id'', JStr ''{00000000-0000-0000-0000-00000000001F}''), (''model'', JStr ''m'')]
     (Some demo_conversation_settings) 0
   = Inr (''00000000-0000-0000-0000-00000000001f'', [(''model'', JStr ''m'')])" by code_simp
  show ?thesis
    using r resolved_id_canonical_and_stable [OF r, of "[]" "[(''model'', JStr ''n'')]" 1]
    by (simp add: demo_conversation_settings_def dpop_def)
qed

text \<open>\<open>uuid.UUID\<close> is more lenient than the texts of UUIDs.\<close>

lemma lenient_ids:
  "validated_explicit_id (JStr (replicate 31 (CHR '' '') @ ''1'')) 128 = Inr ''00000000-0000-0000-0000-000000000001''"
  "validated_explicit_id (JStr (''0x_'' @ replicate 28 (CHR ''0'') @ ''a'')) 128 = Inr ''00000000-0000-0000-0000-00000000000a''"
  by code_simp+

end
