(* ===== verification/Memory.thy ===== *)
theory Memory
  imports Store Ranking VectorStore Identity
begin

text \<open>
  The memory service, \<open>memory/service.py\<close> with \<open>memory/models.py\<close>: turns of the stored transcript
  become chunks, chunks and memories are embedded and put into the vector store, and retrieval fuses
  the semantic and the lexical hits.

  The state holds the database of \<open>Store\<close>, the tables of chunks and memories, the watermark column
  of the conversations, and the vector store.  A transaction is one step; an effect outside a
  transaction stays done when a later one raises.  Parameters, as fields of \<open>service\<close>: the two HTTP
  servers, PostgreSQL's full-text rank (\<open>None\<close> for no match), what a query raises in a given
  state of the world, and the text to which it casts a UUID (\<open>None\<close> when the driver refuses it).
  A drawn id that a table already holds violates its primary key.
  Rows of a query without an order come in the order of insertion.  Numbers are real numbers.
\<close>

section \<open>Model\<close>

subsection \<open>Records\<close>

datatype memory_kind =
    Decision | Constraint | Fact | Task | Bug | Implementation | Tool_result | Episode_summary
  | Conversation_summary

fun kind_value :: "memory_kind \<Rightarrow> string" where
  "kind_value Decision = ''decision''"
| "kind_value Constraint = ''constraint''"
| "kind_value Fact = ''fact''"
| "kind_value Task = ''task''"
| "kind_value Bug = ''bug''"
| "kind_value Implementation = ''implementation''"
| "kind_value Tool_result = ''tool_result''"
| "kind_value Episode_summary = ''episode_summary''"
| "kind_value Conversation_summary = ''conversation_summary''"

datatype memory_status = Active | Superseded | Resolved | Obsolete

definition TYPE_PRIORITY :: "(string \<times> real) list" where
  "TYPE_PRIORITY =
     [(''decision'', 9 / 10), (''constraint'', 85 / 100), (''task'', 7 / 10), (''bug'', 7 / 10),
      (''episode_summary'', 6 / 10), (''conversation_summary'', 6 / 10), (''fact'', 5 / 10),
      (''implementation'', 5 / 10), (''chunk'', 4 / 10), (''tool_result'', 3 / 10)]"

record memory_create =
  spec_kind :: memory_kind
  spec_content :: string
  spec_conversation_id :: string
  spec_source_message_ids :: "string list"
  spec_importance :: real
  spec_supersedes :: "string option"
  spec_metadata :: json

record chunk_row =
  ck_id :: string
  ck_conv :: string
  ck_start :: int
  ck_end :: int
  ck_message_ids :: "string list"
  ck_raw :: string
  ck_tokens :: int
  ck_created :: real
  ck_indexed :: bool

record memory_row =
  mr_id :: string
  mr_conv :: string
  mr_kind :: memory_kind
  mr_content :: string
  mr_sources :: "string list"
  mr_importance :: real
  mr_status :: memory_status
  mr_supersedes :: "string option"
  mr_superseded_by :: "string option"
  mr_metadata :: json
  mr_created :: real

record 'w service =
  sv_pg :: pg
  sv_qdrant :: "'w server"
  sv_embed :: "'w server"
  sv_collection :: string
  sv_model :: string
  sv_retrieval :: retrieval_settings
  sv_max_embed_chars :: nat
  sv_batch_size :: nat
  sv_ts_rank :: "string \<Rightarrow> string \<Rightarrow> real option"
  sv_pg_fault :: "'w \<Rightarrow> db_fault option"
  sv_cast_uuid :: "string \<Rightarrow> string option"

record 'w memory =
  m_db :: db
  m_watermark :: "(string \<times> int) list"
  m_chunks :: "chunk_row list"
  m_memories :: "memory_row list"
  m_vs :: "'w vector_store"

text \<open>\<open>max(1, embed_batch_size)\<close>\<close>

definition embed_batch_size :: "'w service \<Rightarrow> nat" where
  "embed_batch_size sv = max 1 (sv_batch_size sv)"

definition on_vs ::
  "('w vector_store \<Rightarrow> 'a \<times> 'w vector_store) \<Rightarrow> 'w memory \<Rightarrow> 'a \<times> 'w memory"
where
  "on_vs f s = (case f (m_vs s) of (r, v) \<Rightarrow> (r, s\<lparr>m_vs := v\<rparr>))"

definition on_world :: "('w \<Rightarrow> 'a \<times> 'w) \<Rightarrow> 'w memory \<Rightarrow> 'a \<times> 'w memory" where
  "on_world f = on_vs (\<lambda>v. case f (vs_world v) of (r, w) \<Rightarrow> (r, v\<lparr>vs_world := w\<rparr>))"

subsection \<open>Embedding\<close>

definition safe_embed_batch ::
  "'w service \<Rightarrow> string list \<Rightarrow> 'w memory \<Rightarrow> (memory_error + json list list option) \<times> 'w memory"
where
  "safe_embed_batch sv texts s =
     (if texts = [] then (Inr (Some []), s)
      else
        (case on_world (embed (sv_embed sv) (sv_model sv) (map (take (sv_max_embed_chars sv)) texts)) s of
           (Inl EmbeddingProviderError, s1) \<Rightarrow> (Inr None, s1)
         | (Inl e, s1) \<Rightarrow> (Inl e, s1)
         | (Inr vectors, s1) \<Rightarrow>
             (Inr (if length vectors \<noteq> length texts then None else Some vectors), s1)))"

definition safe_embed ::
  "'w service \<Rightarrow> string \<Rightarrow> 'w memory \<Rightarrow> (memory_error + json list option) \<times> 'w memory"
where
  "safe_embed sv t s =
     (case on_world (embed (sv_embed sv) (sv_model sv) [take (sv_max_embed_chars sv) t]) s of
        (Inl EmbeddingProviderError, s1) \<Rightarrow> (Inr None, s1)
      | (Inl e, s1) \<Rightarrow> (Inl e, s1)
      | (Inr [], s1) \<Rightarrow> (Inl (MemoryRaised IndexError), s1)
      | (Inr (vector # _), s1) \<Rightarrow> (Inr (Some vector), s1))"

fun embed_slices ::
  "'w service \<Rightarrow> json list list \<Rightarrow> string list list \<Rightarrow> 'w memory
   \<Rightarrow> (memory_error + json list list option) \<times> 'w memory"
where
  "embed_slices sv acc [] s = (Inr (Some acc), s)"
| "embed_slices sv acc (sl # sls) s =
     bind_s (safe_embed_batch sv sl)
       (\<lambda>vectors. case vectors of None \<Rightarrow> Pair (Inr None) | Some vs \<Rightarrow> embed_slices sv (acc @ vs) sls) s"

definition embed_texts_in_batches ::
  "'w service \<Rightarrow> string list \<Rightarrow> 'w memory \<Rightarrow> (memory_error + json list list option) \<times> 'w memory"
where
  "embed_texts_in_batches sv texts = embed_slices sv [] (slices (embed_batch_size sv) texts)"

text \<open>The upsert of one point: \<open>False\<close> when the store reported its own error.\<close>

definition try_upsert ::
  "'w service \<Rightarrow> point \<Rightarrow> 'w memory \<Rightarrow> (memory_error + bool) \<times> 'w memory"
where
  "try_upsert sv p s =
     (case on_vs (upsert (sv_qdrant sv) (sv_collection sv) [p] (length (pt_vector p))) s of
        (Inl VectorStoreError, s1) \<Rightarrow> (Inr False, s1)
      | (Inl e, s1) \<Rightarrow> (Inl e, s1)
      | (Inr _, s1) \<Rightarrow> (Inr True, s1))"

definition embed_and_upsert ::
  "'w service \<Rightarrow> string \<Rightarrow> string \<Rightarrow> pydict \<Rightarrow> 'w memory \<Rightarrow> (memory_error + unit) \<times> 'w memory"
where
  "embed_and_upsert sv point_id t payload =
     bind_s (safe_embed sv t) (\<lambda>vector.
       case vector of
         None \<Rightarrow> Pair (Inr ())
       | Some v \<Rightarrow>
           bind_s (try_upsert sv \<lparr>pt_id = point_id, pt_vector = v, pt_payload = payload\<rparr>) (\<lambda>_. Pair (Inr ())))"

subsection \<open>Chunks\<close>

definition turn_rows :: "string \<Rightarrow> int \<Rightarrow> db \<Rightarrow> msg_row list" where
  "turn_rows conversation_id boundary d =
     sort_key row_seq (filter (\<lambda>r. row_role r \<noteq> ''system'' \<and> boundary \<le> row_seq r) (conv_rows conversation_id d))"

definition turn_boundary :: "string \<Rightarrow> int option \<Rightarrow> db \<Rightarrow> int" where
  "turn_boundary conversation_id watermark d =
     (let seqs = map row_seq (filter (\<lambda>r. row_role r = ''user''
            \<and> row_seq r \<le> (case watermark of None \<Rightarrow> - 1 | Some w \<Rightarrow> w)) (conv_rows conversation_id d))
      in if seqs = [] then 0 else Max (set seqs))"

text \<open>The loop that starts a new unit at every user message.\<close>

definition add_row :: "msg_row list list \<times> msg_row list \<Rightarrow> msg_row \<Rightarrow> msg_row list list \<times> msg_row list" where
  "add_row uc r =
     (case uc of (units, current) \<Rightarrow>
        if row_role r = ''user'' \<and> current \<noteq> [] then (units @ [current], [r]) else (units, current @ [r]))"

definition turn_units :: "msg_row list \<Rightarrow> msg_row list list" where
  "turn_units rows =
     (case foldl add_row ([], []) rows of (units, current) \<Rightarrow> if current \<noteq> [] then units @ [current] else units)"

definition chunk_at :: "string \<Rightarrow> int \<Rightarrow> 'w memory \<Rightarrow> bool" where
  "chunk_at conversation_id start s = list_ex (\<lambda>c. ck_conv c = conversation_id \<and> ck_start c = start) (m_chunks s)"

definition insert_chunk ::
  "'w service \<Rightarrow> real \<Rightarrow> string \<Rightarrow> msg_row list \<Rightarrow> 'w memory \<Rightarrow> memory_error + (bool \<times> 'w memory)"
where
  "insert_chunk sv now conversation_id unit_rows s =
     (let messages = map row_content unit_rows; start_seq = row_seq (hd unit_rows) in
      case messages_tokens messages of
        Inl e \<Rightarrow> Inl (MemoryRaised e)
      | Inr token_count \<Rightarrow>
          if chunk_at conversation_id start_seq s then Inr (False, s)
          else
            let (new_id, d) = draw_uuid (sv_pg sv) (m_db s) in
            if new_id \<in> ck_id ` set (m_chunks s) then Inl PostgresError
            else Inr (True, s\<lparr>m_db := d, m_chunks := m_chunks s @
              [\<lparr>ck_id = new_id, ck_conv = conversation_id, ck_start = start_seq,
                ck_end = row_seq (last unit_rows), ck_message_ids = map row_id unit_rows,
                ck_raw = chunk_text messages, ck_tokens = token_count, ck_created = now, ck_indexed = False\<rparr>]\<rparr>))"

text \<open>One round of the loop over the settled units: its state is the tables, \<open>created\<close> and \<open>settled_end\<close>.\<close>

definition settle_unit ::
  "'w service \<Rightarrow> real \<Rightarrow> string \<Rightarrow> 'w memory \<times> nat \<times> int option \<Rightarrow> msg_row list
   \<Rightarrow> memory_error + ('w memory \<times> nat \<times> int option)"
where
  "settle_unit sv now conversation_id st unit_rows =
     (case st of (s, created, _) \<Rightarrow>
        bind_r (insert_chunk sv now conversation_id unit_rows s) (\<lambda>(inserted, s1).
        Inr (s1, if inserted then Suc created else created, Some (row_seq (last unit_rows)))))"

definition chunk_new_turns ::
  "'w service \<Rightarrow> real \<Rightarrow> string \<Rightarrow> 'w memory \<Rightarrow> (memory_error + nat \<times> int option) \<times> 'w memory"
where
  "chunk_new_turns sv now conversation_id s =
     (let watermark = map_of (m_watermark s) conversation_id;
          boundary = turn_boundary conversation_id watermark (m_db s);
          rows = turn_rows conversation_id boundary (m_db s) in
      if rows = [] then (Inr (0, watermark), s)
      else
        (case fold_r (settle_unit sv now conversation_id) (s, 0, None) (butlast (turn_units rows)) of
           Inl e \<Rightarrow> (Inl e, s)
         | Inr (s1, created, settled_end) \<Rightarrow>
             (Inr (created, settled_end),
              (case settled_end of
                 None \<Rightarrow> s1
               | Some e \<Rightarrow>
                   if watermark = None \<or> the watermark < e
                   then s1\<lparr>m_watermark := AList.update conversation_id e (m_watermark s1)\<rparr> else s1))))"

definition mark_indexed :: "string \<Rightarrow> 'w memory \<Rightarrow> 'w memory" where
  "mark_indexed chunk_id s =
     s\<lparr>m_chunks := map (\<lambda>c. if ck_id c = chunk_id then c\<lparr>ck_indexed := True\<rparr> else c) (m_chunks s)\<rparr>"

definition chunk_payload :: "string \<Rightarrow> string \<Rightarrow> int \<Rightarrow> pydict" where
  "chunk_payload conversation_id chunk_id start_seq =
     [(''conversation_id'', JStr conversation_id), (''kind'', JStr ''chunk''), (''chunk_id'', JStr chunk_id),
      (''start_seq'', JInt start_seq)]"

text \<open>\<open>_index_chunk\<close> and \<open>_rebuild_chunk\<close>, which differ in the log record only.\<close>

definition index_chunk ::
  "'w service \<Rightarrow> string \<Rightarrow> chunk_row \<Rightarrow> json list option \<Rightarrow> 'w memory \<Rightarrow> (memory_error + bool) \<times> 'w memory"
where
  "index_chunk sv conversation_id c vector =
     bind_s (case vector of None \<Rightarrow> safe_embed sv (ck_raw c) | Some v \<Rightarrow> Pair (Inr (Some v))) (\<lambda>vec.
       case vec of
         None \<Rightarrow> Pair (Inr False)
       | Some v \<Rightarrow>
           bind_s (try_upsert sv
               \<lparr>pt_id = ck_id c, pt_vector = v, pt_payload = chunk_payload conversation_id (ck_id c) (ck_start c)\<rparr>)
             (\<lambda>ok s. (Inr ok, if ok then mark_indexed (ck_id c) s else s)))"

definition pending_rows :: "string \<Rightarrow> 'w memory \<Rightarrow> chunk_row list" where
  "pending_rows conversation_id s =
     take 100 (sort_key ck_start (filter (\<lambda>c. ck_conv c = conversation_id \<and> \<not> ck_indexed c) (m_chunks s)))"

definition index_row ::
  "'w service \<Rightarrow> string \<Rightarrow> nat \<Rightarrow> chunk_row \<times> json list \<Rightarrow> 'w memory \<Rightarrow> (memory_error + nat) \<times> 'w memory"
where
  "index_row sv conversation_id n cv =
     bind_s (index_chunk sv conversation_id (fst cv) (Some (snd cv))) (\<lambda>ok. Pair (Inr (if ok then Suc n else n)))"

definition index_batch ::
  "'w service \<Rightarrow> string \<Rightarrow> nat \<Rightarrow> chunk_row list \<Rightarrow> 'w memory \<Rightarrow> (memory_error + nat) \<times> 'w memory"
where
  "index_batch sv conversation_id n batch =
     bind_s (safe_embed_batch sv (map ck_raw batch)) (\<lambda>vectors.
       case vectors of
         None \<Rightarrow> Pair (Inr n)
       | Some vs \<Rightarrow> fold_s (index_row sv conversation_id) n (zip batch vs))"

definition index_pending_chunks ::
  "'w service \<Rightarrow> string \<Rightarrow> 'w memory \<Rightarrow> (memory_error + nat) \<times> 'w memory"
where
  "index_pending_chunks sv conversation_id s =
     fold_s (index_batch sv conversation_id) 0 (slices (embed_batch_size sv) (pending_rows conversation_id s)) s"

definition index_completed_turns ::
  "'w service \<Rightarrow> real \<Rightarrow> string \<Rightarrow> 'w memory \<Rightarrow> (memory_error + nat) \<times> 'w memory"
where
  "index_completed_turns sv now conversation_id =
     bind_s (chunk_new_turns sv now conversation_id) (\<lambda>(created, settled_end).
     bind_s (index_pending_chunks sv conversation_id) (\<lambda>indexed. Pair (Inr created)))"

subsection \<open>Memories\<close>

definition find_memory :: "string \<Rightarrow> 'w memory \<Rightarrow> memory_row option" where
  "find_memory i s = find (\<lambda>r. mr_id r = i) (m_memories s)"

definition set_superseded :: "string \<Rightarrow> string \<Rightarrow> memory_row \<Rightarrow> memory_row" where
  "set_superseded target by_id r =
     (if mr_id r = target \<and> mr_status r \<noteq> Superseded
      then r\<lparr>mr_status := Superseded, mr_superseded_by := Some by_id\<rparr> else r)"

text \<open>The target of a supersession: \<open>None\<close> when the specification names none.\<close>

definition supersede_target ::
  "memory_create \<Rightarrow> 'w memory \<Rightarrow> memory_error + string option"
where
  "supersede_target spec s =
     (case spec_supersedes spec of
        None \<Rightarrow> Inr None
      | Some [] \<Rightarrow> Inr None
      | Some t \<Rightarrow>
          (case UUID t of
             None \<Rightarrow> Inl (MemoryValueError ''badly formed hexadecimal UUID string'')
           | Some u \<Rightarrow>
               (case find_memory (uuid_str u) s of
                  None \<Rightarrow> Inl (MemoryValueError (''supersedes target '' @ t @ '' not found''))
                | Some target \<Rightarrow>
                    if mr_conv target \<noteq> spec_conversation_id spec
                    then Inl (MemoryValueError ''supersedes target belongs to a different conversation'')
                    else Inr (Some (uuid_str u)))))"

definition new_memory :: "string \<Rightarrow> string \<Rightarrow> string option \<Rightarrow> json \<Rightarrow> real \<Rightarrow> memory_create \<Rightarrow> memory_row" where
  "new_memory memory_id conv target meta now spec =
     \<lparr>mr_id = memory_id, mr_conv = conv, mr_kind = spec_kind spec, mr_content = spec_content spec,
      mr_sources = spec_source_message_ids spec, mr_importance = spec_importance spec, mr_status = Active,
      mr_supersedes = target, mr_superseded_by = None, mr_metadata = meta, mr_created = now\<rparr>"

text \<open>\<open>INSERT INTO conversations ... ON CONFLICT DO NOTHING\<close>\<close>

definition bootstrap_conversation :: "string \<Rightarrow> db \<Rightarrow> db" where
  "bootstrap_conversation conv d =
     (if conv \<in> fst ` set (db_conversations d) then d else ensure_conversation conv d)"

text \<open>The transaction of \<open>create_memory\<close>; \<open>None\<close> for the cast is the driver's \<open>DataError\<close>, a \<open>ValueError\<close>.\<close>

definition insert_memory ::
  "'w service \<Rightarrow> real \<Rightarrow> memory_create \<Rightarrow> 'w memory \<Rightarrow> memory_error + (string \<times> 'w memory)"
where
  "insert_memory sv now spec s =
     (case sv_cast_uuid sv (spec_conversation_id spec) of
        None \<Rightarrow> Inl (MemoryValueError ''invalid input for query argument'')
      | Some conv \<Rightarrow>
          bind_r (supersede_target spec s) (\<lambda>target.
          if CHR 0x00 \<in> set (spec_content spec) then Inl PostgresError
          else
            (case jsonb (sv_pg sv) (spec_metadata spec) of
               None \<Rightarrow> Inl PostgresError
             | Some meta \<Rightarrow>
                 let (memory_id, d) = draw_uuid (sv_pg sv) (bootstrap_conversation conv (m_db s));
                     rows = m_memories s @ [new_memory memory_id conv target meta now spec]
                 in if memory_id \<in> mr_id ` set (m_memories s) then Inl PostgresError
                    else Inr (memory_id, s\<lparr>m_db := d,
                      m_memories := (case target of None \<Rightarrow> rows | Some t \<Rightarrow> map (set_superseded t memory_id) rows)\<rparr>))))"

definition create_memory ::
  "'w service \<Rightarrow> real \<Rightarrow> memory_create \<Rightarrow> 'w memory \<Rightarrow> (memory_error + string) \<times> 'w memory"
where
  "create_memory sv now spec s =
     (case insert_memory sv now spec s of
        Inl e \<Rightarrow> (Inl e, s)
      | Inr (memory_id, s1) \<Rightarrow>
          bind_s (embed_and_upsert sv memory_id (spec_content spec)
              [(''conversation_id'', JStr (spec_conversation_id spec)), (''kind'', JStr (kind_value (spec_kind spec))),
               (''memory_id'', JStr memory_id)])
            (\<lambda>_. Pair (Inr memory_id)) s1)"

definition supersede_memory :: "string \<Rightarrow> memory_status \<Rightarrow> 'w memory \<Rightarrow> bool \<times> 'w memory" where
  "supersede_memory memory_id status s =
     (list_ex (\<lambda>r. mr_id r = memory_id \<and> mr_status r = Active) (m_memories s),
      s\<lparr>m_memories := map (\<lambda>r. if mr_id r = memory_id \<and> mr_status r = Active then r\<lparr>mr_status := status\<rparr> else r)
          (m_memories s)\<rparr>)"

subsection \<open>Retrieval\<close>

record hit =
  h_id :: string
  h_type :: item_type
  h_kind :: string
  h_content :: string
  h_importance :: real
  h_created :: real
  h_sources :: "string list"
  h_rank :: real
  h_start :: "int option"
  h_end :: "int option"

definition memory_hit :: "real \<Rightarrow> memory_row \<Rightarrow> hit" where
  "memory_hit rank r =
     \<lparr>h_id = mr_id r, h_type = Item_memory, h_kind = kind_value (mr_kind r), h_content = mr_content r,
      h_importance = mr_importance r, h_created = mr_created r, h_sources = mr_sources r, h_rank = rank,
      h_start = None, h_end = None\<rparr>"

definition chunk_hit :: "real \<Rightarrow> chunk_row \<Rightarrow> hit" where
  "chunk_hit rank c =
     \<lparr>h_id = ck_id c, h_type = Item_chunk, h_kind = ''chunk'', h_content = ck_raw c, h_importance = 0,
      h_created = ck_created c, h_sources = ck_message_ids c, h_rank = rank,
      h_start = Some (ck_start c), h_end = Some (ck_end c)\<rparr>"

definition active_in :: "string \<Rightarrow> memory_row \<Rightarrow> bool" where
  "active_in conversation_id r = (mr_conv r = conversation_id \<and> mr_status r = Active)"

definition ranked :: "(string \<Rightarrow> real option) \<Rightarrow> ('r \<Rightarrow> string) \<Rightarrow> (real \<Rightarrow> 'r \<Rightarrow> hit) \<Rightarrow> 'r list \<Rightarrow> hit list" where
  "ranked rank txt mk rows =
     concat (map (\<lambda>r. case rank (txt r) of None \<Rightarrow> [] | Some x \<Rightarrow> [mk x r]) rows)"

definition lexical_search :: "'w service \<Rightarrow> string \<Rightarrow> string \<Rightarrow> nat \<Rightarrow> 'w memory \<Rightarrow> hit list" where
  "lexical_search sv query conversation_id limit s =
     take limit (sort_key (\<lambda>h. - h_rank h)
       (ranked (sv_ts_rank sv query) mr_content memory_hit (filter (active_in conversation_id) (m_memories s))
        @ ranked (sv_ts_rank sv query) ck_raw chunk_hit (filter (\<lambda>c. ck_conv c = conversation_id) (m_chunks s))))"

definition hit_dict :: "(string \<times> hit) list \<Rightarrow> hit list \<Rightarrow> (string \<times> hit) list" where
  "hit_dict d hs = foldl (\<lambda>d h. AList.update (h_id h) h d) d hs"

definition fetch_by_ids :: "string \<Rightarrow> string list \<Rightarrow> 'w memory \<Rightarrow> hit list" where
  "fetch_by_ids conversation_id ids s =
     (if \<exists>i \<in> set ids. UUID i = None then []
      else
        let uuids = map (\<lambda>i. uuid_str (the (UUID i))) ids in
        map (memory_hit 0) (filter (\<lambda>r. active_in conversation_id r \<and> mr_id r \<in> set uuids) (m_memories s))
        @ map (chunk_hit 0) (filter (\<lambda>c. ck_conv c = conversation_id \<and> ck_id c \<in> set uuids) (m_chunks s)))"

text \<open>\<open>float(hit["score"])\<close>: a string would be parsed, which is not modelled.\<close>

definition hit_score :: "pydict \<Rightarrow> real result" where
  "hit_score hit =
     (case map_of hit ''score'' of
        None \<Rightarrow> Inl KeyError
      | Some v \<Rightarrow>
          (case v of
             JStr _ \<Rightarrow> Inl Unmodelled
           | _ \<Rightarrow> (case num_value v of Some x \<Rightarrow> Inr (real_of_rat x) | None \<Rightarrow> Inl TypeError)))"

definition semantic_hit :: "(string \<times> real) list \<Rightarrow> json \<Rightarrow> (string \<times> real) list result" where
  "semantic_hit scores v =
     (case v of
        JObj hit \<Rightarrow>
          (case or_else (dget hit ''payload'') (JObj []) of
             JObj payload \<Rightarrow>
               let key = py_str (or_else (or_else (dget payload ''chunk_id'') (dget payload ''memory_id'')) (JStr [])) in
               if key = [] then Inr scores
               else bind_r (hit_score hit) (\<lambda>x. Inr (AList.update key (min 1 (max 0 x)) scores))
           | _ \<Rightarrow> Inl AttributeError)
      | _ \<Rightarrow> Inl AttributeError)"

definition semantic_scores ::
  "'w service \<Rightarrow> string \<Rightarrow> string \<Rightarrow> 'w memory \<Rightarrow> (memory_error + (string \<times> real) list) \<times> 'w memory"
where
  "semantic_scores sv query conversation_id =
     bind_s (safe_embed sv query) (\<lambda>query_vec.
       case query_vec of
         None \<Rightarrow> Pair (Inr [])
       | Some v \<Rightarrow>
           (\<lambda>s. case on_vs (search (sv_qdrant sv) (sv_collection sv) v
                     (nat (candidate_pool (sv_retrieval sv))) (Some conversation_id)) s of
              (Inl VectorStoreError, s1) \<Rightarrow> (Inr [], s1)
            | (Inl e, s1) \<Rightarrow> (Inl e, s1)
            | (Inr hits, s1) \<Rightarrow>
                ((case fold_r semantic_hit [] hits of Inl e \<Rightarrow> Inl (MemoryRaised e) | Inr sc \<Rightarrow> Inr sc), s1)))"

definition hit_components :: "real \<Rightarrow> real \<Rightarrow> real \<Rightarrow> hit \<Rightarrow> (string \<times> real) list" where
  "hit_components now sem lexi h =
     (let age_days = max 0 ((now - h_created h) / 86400) in
      [(''semantic'', round6 sem), (''lexical'', round6 lexi), (''recency'', round6 (1 / (1 + age_days))),
       (''importance'', round6 (h_importance h)),
       (''type_priority'', case map_of TYPE_PRIORITY (h_kind h) of None \<Rightarrow> 4 / 10 | Some p \<Rightarrow> p)])"

definition retrieved_of ::
  "'w service \<Rightarrow> real \<Rightarrow> string \<Rightarrow> (string \<times> real) list \<Rightarrow> real \<Rightarrow> string \<times> hit \<Rightarrow> retrieved_item list"
where
  "retrieved_of sv now conversation_id scores max_rank kh =
     (let (key, h) = kh;
          sem = (case map_of scores key of None \<Rightarrow> 0 | Some x \<Rightarrow> x);
          lexi = (if max_rank > 0 then h_rank h / max_rank else 0) in
      if sem \<le> 0 \<and> lexi \<le> 0 then []
      else
        let components = hit_components now sem lexi h in
        [\<lparr>ri_item_type = h_type h, ri_id = key, ri_conversation_id = conversation_id, ri_kind = h_kind h,
          ri_content = h_content h, ri_score = round6 (weighted_sum (sv_retrieval sv) components),
          ri_components = components, ri_source_message_ids = h_sources h,
          ri_start_seq = h_start h, ri_end_seq = h_end h\<rparr>])"

definition candidate_hits ::
  "'w service \<Rightarrow> string \<Rightarrow> string \<Rightarrow> (string \<times> real) list \<Rightarrow> 'w memory \<Rightarrow> real \<times> (string \<times> hit) list"
where
  "candidate_hits sv query conversation_id scores s =
     (let lexical = lexical_search sv query conversation_id (nat (candidate_pool (sv_retrieval sv))) s;
          max_rank = (if lexical = [] then 0 else Max (set (map h_rank lexical)));
          candidates = hit_dict [] lexical;
          missing = filter (\<lambda>k. k \<notin> fst ` set candidates) (map fst scores)
      in (max_rank,
          if missing = [] then candidates else hit_dict candidates (fetch_by_ids conversation_id missing s)))"

text \<open>What the two queries raise: \<open>except (asyncpg.PostgresError, asyncpg.InterfaceError)\<close>.\<close>

definition retrieval_error :: "db_fault \<Rightarrow> memory_error" where
  "retrieval_error f = (if f = Postgres_error \<or> f = Interface_error then RetrievalError else Database_fault f)"

definition retrieve ::
  "'w service \<Rightarrow> real \<Rightarrow> string \<Rightarrow> string \<Rightarrow> nat option \<Rightarrow> 'w memory
   \<Rightarrow> (memory_error + retrieved_item list) \<times> 'w memory"
where
  "retrieve sv now query conversation_id limit =
     bind_s (semantic_scores sv query conversation_id) (\<lambda>scores s.
       case sv_pg_fault sv (vs_world (m_vs s)) of
         Some f \<Rightarrow> (Inl (retrieval_error f), s)
       | None \<Rightarrow>
         let lim = (case limit of Some (Suc n) \<Rightarrow> Suc n | _ \<Rightarrow> nat (limit_default (sv_retrieval sv)));
             (max_rank, candidates) = candidate_hits sv query conversation_id scores s;
             items = concat (map (retrieved_of sv now conversation_id scores max_rank) candidates)
         in (Inr (take lim (sort_key (\<lambda>i. (- ri_score i, ri_id i)) items)), s))"

subsection \<open>Rebuilding the index\<close>

record rebuild_summary =
  rs_chunks :: nat
  rs_chunks_failed :: nat
  rs_memories :: nat
  rs_memories_failed :: nat

definition in_scope :: "string option \<Rightarrow> string \<Rightarrow> bool" where
  "in_scope scope conv = (case scope of None \<Rightarrow> True | Some cid \<Rightarrow> conv = cid)"

definition reset_markers :: "string option \<Rightarrow> 'w memory \<Rightarrow> 'w memory" where
  "reset_markers scope s =
     s\<lparr>m_chunks := map (\<lambda>c. if in_scope scope (ck_conv c) then c\<lparr>ck_indexed := False\<rparr> else c) (m_chunks s)\<rparr>"

definition rebuild_row ::
  "'w service \<Rightarrow> rebuild_summary \<Rightarrow> chunk_row \<times> json list \<Rightarrow> 'w memory \<Rightarrow> (memory_error + rebuild_summary) \<times> 'w memory"
where
  "rebuild_row sv summary cv =
     bind_s (index_chunk sv (ck_conv (fst cv)) (fst cv) (Some (snd cv))) (\<lambda>ok.
       Pair (Inr (if ok then summary\<lparr>rs_chunks := Suc (rs_chunks summary)\<rparr>
                  else summary\<lparr>rs_chunks_failed := Suc (rs_chunks_failed summary)\<rparr>)))"

definition rebuild_batch ::
  "'w service \<Rightarrow> rebuild_summary \<Rightarrow> chunk_row list \<Rightarrow> 'w memory \<Rightarrow> (memory_error + rebuild_summary) \<times> 'w memory"
where
  "rebuild_batch sv summary batch =
     bind_s (safe_embed_batch sv (map ck_raw batch)) (\<lambda>vectors.
       case vectors of
         None \<Rightarrow> Pair (Inr (summary\<lparr>rs_chunks_failed := rs_chunks_failed summary + length batch\<rparr>))
       | Some vs \<Rightarrow> fold_s (rebuild_row sv) summary (zip batch vs))"

definition rebuild_memory ::
  "'w service \<Rightarrow> rebuild_summary \<Rightarrow> memory_row \<times> json list \<Rightarrow> 'w memory \<Rightarrow> (memory_error + rebuild_summary) \<times> 'w memory"
where
  "rebuild_memory sv summary rv =
     (let r = fst rv in
      bind_s (try_upsert sv \<lparr>pt_id = mr_id r, pt_vector = snd rv,
          pt_payload = [(''conversation_id'', JStr (mr_conv r)), (''kind'', JStr (kind_value (mr_kind r))),
                        (''memory_id'', JStr (mr_id r))]\<rparr>) (\<lambda>ok.
        Pair (Inr (summary\<lparr>rs_memories := Suc (rs_memories summary),
                           rs_memories_failed := rs_memories_failed summary + (if ok then 0 else 1)\<rparr>))))"

definition rebuild_vector_index ::
  "'w service \<Rightarrow> string option \<Rightarrow> bool \<Rightarrow> 'w memory \<Rightarrow> (memory_error + rebuild_summary) \<times> 'w memory"
where
  "rebuild_vector_index sv scope force s =
     (let s1 = (if force then reset_markers scope s else s);
          chunk_rows = sort_key (\<lambda>c. (ck_conv c, ck_start c)) (filter (\<lambda>c. in_scope scope (ck_conv c)) (m_chunks s1));
          memory_rows = filter (\<lambda>r. mr_status r = Active \<and> in_scope scope (mr_conv r)) (m_memories s1)
      in bind_s
           (fold_s (rebuild_batch sv) \<lparr>rs_chunks = 0, rs_chunks_failed = 0, rs_memories = 0, rs_memories_failed = 0\<rparr>
              (slices (embed_batch_size sv) chunk_rows)) (\<lambda>summary.
         bind_s (safe_embed_batch sv (map (\<lambda>r. take (sv_max_embed_chars sv) (mr_content r)) memory_rows)) (\<lambda>vectors.
           case vectors of
             None \<Rightarrow>
               Pair (Inr (summary\<lparr>rs_memories := length memory_rows, rs_memories_failed := length memory_rows\<rparr>))
           | Some vs \<Rightarrow> fold_s (rebuild_memory sv) summary (zip memory_rows vs))) s1)"

end
