(* ===== verification/MemoryChunks.thy ===== *)
theory MemoryChunks
  imports Memory
begin

text \<open>
  Chunking of the memory service.  The lemmas show that the incremental window of \<open>_chunk_new_turns\<close>,
  which starts at the last user message at or before the watermark, sees exactly the turns that are not
  yet chunked and the last one that is: cutting the window into turns gives the turns of the whole
  transcript from there on, so a pass inserts the missing chunks and no other.
\<close>

section \<open>Units\<close>

definition settled :: "msg_row list \<Rightarrow> msg_row list list" where
  "settled rows = fst (foldl add_row ([], []) rows)"

lemma add_row_units: "add_row (us @ vs, cur) r = (us @ fst (add_row (vs, cur) r), snd (add_row (vs, cur) r))"
  by (simp add: add_row_def)

lemma fold_add_row_units:
  "foldl add_row (us @ vs, cur) rows
     = (us @ fst (foldl add_row (vs, cur) rows), snd (foldl add_row (vs, cur) rows))"
proof (induction rows arbitrary: vs cur)
  case (Cons r rows)
  have "foldl add_row (us @ vs, cur) (r # rows)
      = foldl add_row (us @ fst (add_row (vs, cur) r), snd (add_row (vs, cur) r)) rows"
    by (simp add: add_row_units)
  then show ?case using Cons.IH [of "fst (add_row (vs, cur) r)" "snd (add_row (vs, cur) r)"] by simp
qed simp

lemma fold_add_row_concat:
  "foldl add_row (us, cur) rows = (us', cur') \<Longrightarrow> concat us' @ cur' = concat us @ cur @ rows"
proof (induction rows arbitrary: us cur)
  case (Cons r rows)
  then show ?case by (cases "row_role r = ''user'' \<and> cur \<noteq> []") (auto simp: add_row_def)
qed simp

lemma fold_add_row_current: "cur \<noteq> [] \<or> rows \<noteq> [] \<Longrightarrow> snd (foldl add_row (us, cur) rows) \<noteq> []"
proof (induction rows arbitrary: us cur)
  case (Cons r rows)
  have "snd (add_row (us, cur) r) \<noteq> []" by (simp add: add_row_def)
  then show ?case using Cons.IH [of "snd (add_row (us, cur) r)" "fst (add_row (us, cur) r)"] by simp
qed simp

lemma turn_units_settled: "butlast (turn_units rows) = settled rows"
proof (cases "rows = []")
  case False
  then have "snd (foldl add_row ([], []) rows) \<noteq> []" by (intro fold_add_row_current) simp
  then show ?thesis by (auto simp: turn_units_def settled_def split: prod.split)
qed (simp add: turn_units_def settled_def)

lemma length_turn_units: "rows \<noteq> [] \<Longrightarrow> length (turn_units rows) = Suc (length (settled rows))"
  using fold_add_row_current [of "[]" rows "[]"] by (auto simp: turn_units_def settled_def split: prod.split)

lemma settled_prefix: "prefix (settled rows) (settled (rows @ rest))"
proof -
  obtain us cur where *: "foldl add_row ([], []) rows = (us, cur)" by fastforce
  show ?thesis using fold_add_row_units [of us "[]" cur rest] by (simp add: settled_def *)
qed

lemma concat_turn_units: "concat (turn_units rows) = rows"
proof -
  obtain us cur where *: "foldl add_row ([], []) rows = (us, cur)" by fastforce
  from fold_add_row_concat [OF this] show ?thesis by (auto simp: turn_units_def *)
qed

text \<open>A user message splits the units.\<close>

lemma turn_units_split:
  assumes "row_role u = ''user''"
  shows "turn_units (rows @ u # rest) = turn_units rows @ turn_units (u # rest)"
proof -
  obtain us cur where *: "foldl add_row ([], []) rows = (us, cur)" by fastforce
  have u: "add_row ([], []) u = ([], [u])" by (simp add: add_row_def)
  define ts where "ts = turn_units rows"
  have ts: "add_row (us, cur) u = (ts, [u])"
    using assms by (auto simp: ts_def turn_units_def * add_row_def)
  have "foldl add_row (ts, [u]) rest = (ts @ fst (foldl add_row ([], [u]) rest), snd (foldl add_row ([], [u]) rest))"
    using fold_add_row_units [of ts "[]" "[u]" rest] by simp
  then show ?thesis unfolding ts_def [symmetric]
    by (simp add: turn_units_def * ts u split: prod.split)
qed

definition unit_ok :: "msg_row list \<Rightarrow> bool" where
  "unit_ok u \<longleftrightarrow> u \<noteq> [] \<and> (\<forall>r \<in> set (tl u). row_role r \<noteq> ''user'')"

definition shape :: "msg_row list list \<times> msg_row list \<Rightarrow> bool" where
  "shape uc \<longleftrightarrow> (case uc of (us, cur) \<Rightarrow>
     (\<forall>u \<in> set us. unit_ok u) \<and> (\<forall>u \<in> set (tl us). row_role (hd u) = ''user'') \<and>
     (cur = [] \<longrightarrow> us = []) \<and> (cur \<noteq> [] \<longrightarrow> unit_ok cur) \<and>
     (us \<noteq> [] \<longrightarrow> row_role (hd cur) = ''user''))"

lemma shape_add_row: "shape uc \<Longrightarrow> shape (add_row uc r)"
proof (cases uc)
  case (Pair us cur)
  assume s: "shape uc"
  show ?thesis
  proof (cases "cur = []")
    case True
    then show ?thesis using s Pair by (simp add: shape_def add_row_def unit_ok_def)
  next
    case False
    then show ?thesis using s Pair
      by (cases "row_role r = ''user''"; cases us) (auto simp: shape_def add_row_def unit_ok_def)
  qed
qed

lemma shape_fold: "shape uc \<Longrightarrow> shape (foldl add_row uc rows)"
  by (induction rows arbitrary: uc) (simp_all add: shape_add_row del: split_paired_All)

lemma turn_units_shape:
  "(\<forall>u \<in> set (turn_units rows). unit_ok u) \<and> (\<forall>u \<in> set (tl (turn_units rows)). row_role (hd u) = ''user'')"
proof -
  obtain us cur where *: "foldl add_row ([], []) rows = (us, cur)" by fastforce
  have "shape (us, cur)" using shape_fold [of "([], [])" rows] by (simp add: * shape_def)
  then show ?thesis by (cases us) (auto simp: turn_units_def * shape_def)
qed

lemma turn_units_one: "unit_ok u \<Longrightarrow> turn_units u = [u]"
proof -
  assume u: "unit_ok u"
  have "foldl add_row ([], cur) rs = ([], cur @ rs)" if "\<forall>r \<in> set rs. row_role r \<noteq> ''user''" for cur rs
    using that by (induction rs arbitrary: cur) (auto simp: add_row_def)
  from this [of "tl u" "[hd u]"] u show ?thesis
    by (cases u) (auto simp: turn_units_def unit_ok_def add_row_def)
qed

lemma turn_units_concat:
  "\<forall>u \<in> set us. unit_ok u \<Longrightarrow> \<forall>u \<in> set (tl us). row_role (hd u) = ''user'' \<Longrightarrow> turn_units (concat us) = us"
proof (induction us)
  case (Cons u us)
  show ?case
  proof (cases us)
    case Nil
    then show ?thesis using Cons.prems turn_units_one by simp
  next
    case (Cons v vs)
    then obtain r rs where v: "v = r # rs" "row_role r = ''user''" using Cons.prems by (cases v) (auto simp: unit_ok_def)
    have "\<forall>u \<in> set (tl us). row_role (hd u) = ''user''" using Cons.prems(2) Cons by simp
    then have "turn_units (concat us) = us" using Cons.IH Cons.prems(1) by simp
    moreover have "turn_units (u @ r # (rs @ concat vs)) = turn_units u @ turn_units (r # (rs @ concat vs))"
      by (rule turn_units_split [OF v(2)])
    ultimately show ?thesis using Cons v Cons.prems(1) turn_units_one by simp
  qed
qed (simp add: turn_units_def)

lemma turn_units_drop: "turn_units (concat (drop k (turn_units rows))) = drop k (turn_units rows)"
proof (rule turn_units_concat)
  have "set (tl (drop k us)) \<subseteq> set (tl us)" for us :: "msg_row list list"
    by (metis drop_Suc set_drop_subset tl_drop)
  then show "\<forall>u \<in> set (tl (drop k (turn_units rows))). row_role (hd u) = ''user''"
    using turn_units_shape [of rows] by blast
qed (use turn_units_shape [of rows] in \<open>auto dest: in_set_dropD\<close>)

section \<open>Rows in the order of their sequence numbers\<close>

definition turn_messages :: "string \<Rightarrow> db \<Rightarrow> msg_row list" where
  "turn_messages c d = filter (\<lambda>r. row_role r \<noteq> ''system'') (conv_rows c d)"

definition ascending :: "msg_row list \<Rightarrow> bool" where
  "ascending rows \<longleftrightarrow> sorted_wrt (<) (map row_seq rows) \<and> (\<forall>r \<in> set rows. 0 \<le> row_seq r)"

lemma ascending_append:
  "ascending (xs @ ys) \<longleftrightarrow> ascending xs \<and> ascending ys \<and> (\<forall>x \<in> set xs. \<forall>y \<in> set ys. row_seq x < row_seq y)"
  by (auto simp: ascending_def sorted_wrt_append)

lemma ascending_filter: "ascending rows \<Longrightarrow> ascending (filter P rows)"
  by (induction rows) (auto simp: ascending_def)

lemma conv_rows_ascending: "seq_ok d \<Longrightarrow> ascending (conv_rows c d)"
proof -
  assume "seq_ok d"
  then have m: "map row_seq (conv_rows c d) = map int [0 ..< length (conv_rows c d)]" by (simp add: seq_ok_def)
  have "\<forall>x \<in> set (map row_seq (conv_rows c d)). 0 \<le> x" unfolding m by auto
  moreover have "sorted_wrt (<) (map row_seq (conv_rows c d))" unfolding m by (simp add: sorted_wrt_map)
  ultimately show ?thesis by (simp add: ascending_def)
qed

lemma turn_messages_ascending: "seq_ok d \<Longrightarrow> ascending (turn_messages c d)"
  unfolding turn_messages_def by (intro ascending_filter conv_rows_ascending)

lemma turn_rows_filter:
  assumes "seq_ok d"
  shows "turn_rows c b d = filter (\<lambda>r. b \<le> row_seq r) (turn_messages c d)"
proof -
  have "ascending (filter (\<lambda>r. row_role r \<noteq> ''system'' \<and> b \<le> row_seq r) (conv_rows c d))"
    using assms by (intro ascending_filter conv_rows_ascending)
  then have "sorted (map row_seq (filter (\<lambda>r. row_role r \<noteq> ''system'' \<and> b \<le> row_seq r) (conv_rows c d)))"
    by (auto simp: ascending_def intro: sorted_wrt_mono_rel [of _ "(<)"])
  then show ?thesis
    by (simp add: turn_rows_def turn_messages_def sort_key_id_if_sorted conj_commute)
qed

definition user_seqs :: "int \<Rightarrow> msg_row list \<Rightarrow> int list" where
  "user_seqs w rows = map row_seq (filter (\<lambda>r. row_role r = ''user'' \<and> row_seq r \<le> w) rows)"

lemma turn_boundary_seqs:
  "turn_boundary c wm d =
     (let seqs = user_seqs (case wm of None \<Rightarrow> - 1 | Some w \<Rightarrow> w) (turn_messages c d)
      in if seqs = [] then 0 else Max (set seqs))"
proof -
  have "filter (\<lambda>r. row_role r = ''user'' \<and> row_seq r \<le> w) (turn_messages c d)
      = filter (\<lambda>r. row_role r = ''user'' \<and> row_seq r \<le> w) (conv_rows c d)" for w
    unfolding turn_messages_def filter_filter by (rule filter_cong) auto
  then show ?thesis by (simp add: turn_boundary_def user_seqs_def)
qed

lemma boundary_rows:
  assumes asc: "ascending (pre @ (h # t) @ post)" and t: "\<forall>r \<in> set t. row_role r \<noteq> ''user''"
    and h: "row_role h = ''user'' \<or> pre = []"
    and b: "b = (let seqs = user_seqs (row_seq (last (h # t))) (pre @ (h # t) @ post)
                 in if seqs = [] then 0 else Max (set seqs))"
  shows "filter (\<lambda>r. b \<le> row_seq r) (pre @ (h # t) @ post) = (h # t) @ post"
proof -
  let ?w = "row_seq (last (h # t))"
  have lt: "row_seq x < row_seq y" if "x \<in> set pre" "y \<in> set ((h # t) @ post)" for x y
    using asc that unfolding ascending_append by blast
  have post: "\<not> row_seq y \<le> ?w" if "y \<in> set post" for y
    using asc that last_in_set [of "h # t"] unfolding ascending_append by fastforce
  have ht: "row_seq h \<le> row_seq y" if "y \<in> set ((h # t) @ post)" for y
    using asc that by (cases "y = h") (auto simp: ascending_def sorted_wrt_append intro!: less_imp_le)
  have w: "row_seq h \<le> ?w" using ht [of "last (h # t)"] by (metis Un_iff last_in_set list.distinct(1) set_append)
  have seqs: "user_seqs ?w (pre @ (h # t) @ post)
      = map row_seq (filter (\<lambda>r. row_role r = ''user'') pre) @ (if row_role h = ''user'' then [row_seq h] else [])"
  proof -
    have "filter (\<lambda>r. row_role r = ''user'' \<and> row_seq r \<le> ?w) post = []" using post by (simp add: filter_empty_conv)
    moreover have "filter (\<lambda>r. row_role r = ''user'' \<and> row_seq r \<le> ?w) t = []" using t by (simp add: filter_empty_conv)
    moreover have "filter (\<lambda>r. row_role r = ''user'' \<and> row_seq r \<le> ?w) pre = filter (\<lambda>r. row_role r = ''user'') pre"
      using lt [of _ h] w by (intro filter_cong) fastforce+
    ultimately show ?thesis using w by (simp add: user_seqs_def)
  qed
  show ?thesis
  proof (cases "row_role h = ''user''")
    case True
    have "Max (insert (row_seq h) (row_seq ` {x \<in> set pre. row_role x = ''user''})) = row_seq h"
      using lt [of _ h] by (intro Max_eqI) (auto intro: less_imp_le)
    then have "b = row_seq h" using True seqs b by simp
    moreover have "filter (\<lambda>r. row_seq h \<le> row_seq r) pre = []" using lt [of _ h] by (auto simp: filter_empty_conv not_le)
    moreover have "filter (\<lambda>r. row_seq h \<le> row_seq r) ((h # t) @ post) = (h # t) @ post" using ht by (simp add: filter_id_conv)
    ultimately show ?thesis by simp
  next
    case False
    then have "pre = []" "b = 0" using h seqs b by auto
    then show ?thesis using asc by (auto simp: ascending_def filter_id_conv)
  qed
qed

section \<open>Chunking\<close>

text \<open>What a chunk records of its turn, and what it should.\<close>

definition chunk_key :: "chunk_row \<Rightarrow> int \<times> int \<times> string list \<times> string" where
  "chunk_key c = (ck_start c, ck_end c, ck_message_ids c, ck_raw c)"

definition unit_key :: "msg_row list \<Rightarrow> int \<times> int \<times> string list \<times> string" where
  "unit_key u = (row_seq (hd u), row_seq (last u), map row_id u, chunk_text (map row_content u))"

definition conv_chunks :: "string \<Rightarrow> 'w memory \<Rightarrow> chunk_row list" where
  "conv_chunks c s = filter (\<lambda>k. ck_conv k = c) (m_chunks s)"

definition chunked :: "string \<Rightarrow> 'w memory \<Rightarrow> nat \<Rightarrow> bool" where
  "chunked c s k \<longleftrightarrow>
     (let us = settled (turn_messages c (m_db s)) in
      k \<le> length us \<and> map chunk_key (conv_chunks c s) = map unit_key (take k us) \<and>
      map_of (m_watermark s) c = (if k = 0 then None else Some (row_seq (last (us ! (k - 1))))))"

lemma chunk_at_keys: "chunk_at c x s \<longleftrightarrow> x \<in> fst ` set (map chunk_key (conv_chunks c s))"
  by (auto simp: chunk_at_def conv_chunks_def chunk_key_def list_ex_iff image_iff)

lemma insert_chunk_cases:
  assumes "insert_chunk sv now c u s = Inr (ins, s')"
  shows "if chunk_at c (row_seq (hd u)) s then \<not> ins \<and> s' = s
         else ins \<and> (\<exists>x ck. s' = s\<lparr>m_db := (m_db s)\<lparr>db_draws := x\<rparr>, m_chunks := m_chunks s @ [ck]\<rparr>
           \<and> chunk_key ck = unit_key u \<and> ck_conv ck = c \<and> \<not> ck_indexed ck)"
  using assms
  by (auto simp: insert_chunk_def Let_def draw_uuid_def chunk_key_def unit_key_def split: sum.splits if_splits)
    (intro exI conjI, rule refl, simp_all)

lemma settle_units:
  assumes "fold_r (settle_unit sv now c) (s, n, e) us = Inr (s', n', e')" "distinct (map (row_seq \<circ> hd) us)"
  shows "\<exists>x new. s' = s\<lparr>m_db := (m_db s)\<lparr>db_draws := x\<rparr>, m_chunks := m_chunks s @ new\<rparr>
    \<and> map chunk_key new = map unit_key (filter (\<lambda>u. \<not> chunk_at c (row_seq (hd u)) s) us)
    \<and> (\<forall>k \<in> set new. ck_conv k = c \<and> \<not> ck_indexed k) \<and> n' = n + length new
    \<and> e' = (if us = [] then e else Some (row_seq (last (last us))))"
  using assms
proof (induction us arbitrary: s n e)
  case Nil
  have "s = s\<lparr>m_db := (m_db s)\<lparr>db_draws := db_draws (m_db s)\<rparr>, m_chunks := m_chunks s @ []\<rparr>" by simp
  with Nil show ?case by (intro exI [of _ "db_draws (m_db s)"] exI [of _ "[]"]) simp
next
  case (Cons u us)
  obtain ins s1 where ins: "insert_chunk sv now c u s = Inr (ins, s1)"
    and rest: "fold_r (settle_unit sv now c) (s1, if ins then Suc n else n, Some (row_seq (last u))) us = Inr (s', n', e')"
    using Cons.prems(1) by (auto simp: settle_unit_def [of sv now c "(s, n, e)" u] result_simps)
  obtain x new where IH: "s' = s1\<lparr>m_db := (m_db s1)\<lparr>db_draws := x\<rparr>, m_chunks := m_chunks s1 @ new\<rparr>"
    "map chunk_key new = map unit_key (filter (\<lambda>u. \<not> chunk_at c (row_seq (hd u)) s1) us)"
    "\<forall>k \<in> set new. ck_conv k = c \<and> \<not> ck_indexed k" "n' = (if ins then Suc n else n) + length new"
    "e' = (if us = [] then Some (row_seq (last u)) else Some (row_seq (last (last us))))"
    using Cons.IH [OF rest] Cons.prems(2) by auto
  show ?case
  proof (cases "chunk_at c (row_seq (hd u)) s")
    case True
    then have "\<not> ins" "s1 = s" using insert_chunk_cases [OF ins] by auto
    then show ?thesis using IH True by (intro exI [of _ x] exI [of _ new]) simp
  next
    case False
    then obtain y ck where ck: "ins" "s1 = s\<lparr>m_db := (m_db s)\<lparr>db_draws := y\<rparr>, m_chunks := m_chunks s @ [ck]\<rparr>"
      "chunk_key ck = unit_key u" "ck_conv ck = c" "\<not> ck_indexed ck"
      using insert_chunk_cases [OF ins] by auto
    have start: "ck_start ck = row_seq (hd u)" using ck(3) by (simp add: chunk_key_def unit_key_def)
    have "chunk_at c (row_seq (hd v)) s1 = chunk_at c (row_seq (hd v)) s" if "v \<in> set us" for v
      using Cons.prems(2) that by (auto simp: chunk_at_def ck(2) start)
    then have "filter (\<lambda>u. \<not> chunk_at c (row_seq (hd u)) s1) us = filter (\<lambda>u. \<not> chunk_at c (row_seq (hd u)) s) us"
      by (intro filter_cong) auto
    then show ?thesis using IH ck False by (intro exI [of _ x] exI [of _ "ck # new"]) simp
  qed
qed

lemma ascending_concat_starts:
  "ascending (concat us) \<Longrightarrow> \<forall>u \<in> set us. u \<noteq> [] \<Longrightarrow> distinct (map (row_seq \<circ> hd) us)"
proof (induction us)
  case (Cons u us)
  have "row_seq (hd u) < row_seq (hd v)" if "v \<in> set us" for v
    using Cons.prems that by (auto simp: ascending_append)
  then have "row_seq (hd u) \<notin> (row_seq \<circ> hd) ` set us" by fastforce
  with Cons show ?case by (simp add: ascending_append)
qed simp

lemma filter_new:
  assumes "distinct (map f xs)" "k \<le> length xs"
  shows "filter (\<lambda>x. f x \<notin> f ` set (take k xs)) (drop (k - 1) xs) = drop k xs"
proof -
  have out: "filter (\<lambda>x. f x \<notin> f ` set (take k xs)) (drop k xs) = drop k xs"
  proof (rule filter_True, intro ballI notI)
    fix x assume "x \<in> set (drop k xs)" "f x \<in> f ` set (take k xs)"
    moreover have "distinct (map f (take k xs) @ map f (drop k xs))" using assms(1) by (simp flip: map_append)
    ultimately show False by (auto simp del: map_append)
  qed
  show ?thesis
  proof (cases k)
    case (Suc j)
    then have "drop (k - 1) xs = xs ! j # drop k xs" "xs ! j \<in> set (take k xs)"
      using assms(2) by (auto simp: Cons_nth_drop_Suc in_set_conv_nth intro!: exI [of _ j])
    with out show ?thesis by simp
  qed (use out in simp)
qed

lemma settled_nth: "k < length (settled rows) \<Longrightarrow> settled rows ! k = turn_units rows ! k"
  by (simp add: nth_butlast flip: turn_units_settled)

lemma window_rows:
  assumes "chunked c s k" "seq_ok (m_db s)"
  shows "turn_rows c (turn_boundary c (map_of (m_watermark s) c) (m_db s)) (m_db s)
    = concat (drop (k - 1) (turn_units (turn_messages c (m_db s))))"
proof -
  let ?d = "m_db s"
  define rows where "rows = turn_messages c ?d"
  define us where "us = turn_units rows"
  have asc: "ascending rows" using turn_messages_ascending [OF assms(2)] by (simp add: rows_def)
  have k: "k \<le> length (settled rows)"
    "map_of (m_watermark s) c = (if k = 0 then None else Some (row_seq (last (settled rows ! (k - 1)))))"
    using assms(1) by (simp_all add: chunked_def rows_def Let_def)
  show ?thesis
  proof (cases "k = 0")
    case True
    have "user_seqs (- 1) rows = []" using asc by (auto simp: user_seqs_def ascending_def filter_empty_conv)
    then have "turn_boundary c None ?d = 0" by (simp add: turn_boundary_seqs flip: rows_def)
    then show ?thesis using True k(2) asc
      by (simp add: turn_rows_filter [OF assms(2)] concat_turn_units ascending_def flip: rows_def)
  next
    case False
    have "rows \<noteq> []" using False k(1) by (auto simp: settled_def)
    then have len: "k - 1 < length us" using False k(1) length_turn_units [of rows] by (simp add: us_def)
    have u: "settled rows ! (k - 1) = us ! (k - 1)" using False k(1) by (simp add: settled_nth us_def)
    obtain h t where ht: "us ! (k - 1) = h # t" "\<forall>r \<in> set t. row_role r \<noteq> ''user''"
    proof -
      have "unit_ok (us ! (k - 1))" using turn_units_shape [of rows] nth_mem [OF len] by (simp add: us_def)
      then show thesis using that by (cases "us ! (k - 1)") (auto simp: unit_ok_def)
    qed
    define pre post where "pre = concat (take (k - 1) us)" and "post = concat (drop k us)"
    have split: "drop (k - 1) us = (h # t) # drop k us"
      using Cons_nth_drop_Suc [OF len] False ht(1) by simp
    have "rows = concat (take (k - 1) us @ drop (k - 1) us)" by (simp add: concat_turn_units us_def)
    then have rows: "rows = pre @ (h # t) @ post" unfolding concat_append split by (simp add: pre_def post_def)
    have "row_role h = ''user'' \<or> pre = []"
    proof (cases "k = 1")
      case False
      then have "k - 2 < length (tl us)" "us ! (k - 1) = tl us ! (k - 2)"
        using len \<open>k \<noteq> 0\<close> by (auto simp: nth_tl Suc_diff_Suc numeral_2_eq_2)
      then have "us ! (k - 1) \<in> set (tl us)" by simp
      then show ?thesis using turn_units_shape [of rows] ht(1) by (auto simp: us_def)
    qed (simp add: pre_def)
    moreover have "turn_boundary c (Some (row_seq (last (h # t)))) ?d
        = (let seqs = user_seqs (row_seq (last (h # t))) (pre @ (h # t) @ post) in if seqs = [] then 0 else Max (set seqs))"
      by (simp only: turn_boundary_seqs rows_def [symmetric] rows option.case)
    moreover have "ascending (pre @ (h # t) @ post)" using asc rows by simp
    ultimately have "filter (\<lambda>r. turn_boundary c (Some (row_seq (last (h # t)))) ?d \<le> row_seq r) rows = (h # t) @ post"
      unfolding rows by (intro boundary_rows ht(2))
    then show ?thesis using False k(2) u ht(1) split
      by (simp add: turn_rows_filter [OF assms(2)] post_def flip: rows_def us_def)
  qed
qed


lemma chunk_new_turns_error: "chunk_new_turns sv now c s = (Inl e, s') \<Longrightarrow> s' = s"
  by (auto simp: chunk_new_turns_def Let_def split: if_splits sum.splits)

lemma chunk_new_turns_loop:
  assumes "chunk_new_turns sv now c s = (Inr (created, se), s')"
    and "turn_rows c (turn_boundary c (map_of (m_watermark s) c) (m_db s)) (m_db s) = rows" "rows \<noteq> []"
  shows "\<exists>s1. fold_r (settle_unit sv now c) (s, 0, None) (butlast (turn_units rows)) = Inr (s1, created, se)
    \<and> s' = (case se of None \<Rightarrow> s1 | Some e \<Rightarrow>
           if map_of (m_watermark s) c = None \<or> the (map_of (m_watermark s) c) < e
           then s1\<lparr>m_watermark := AList.update c e (m_watermark s1)\<rparr> else s1)"
  using assms by (auto simp: chunk_new_turns_def Let_def split: sum.splits)

lemma last_seq_less:
  assumes "ascending (concat us)" "\<forall>u \<in> set us. u \<noteq> []" "i < length us - 1"
  shows "row_seq (last (us ! i)) < row_seq (last (last us))"
proof -
  have i: "i < length us" "us \<noteq> []" using assms(3) by auto
  have "us = butlast us @ [last us]" using i(2) by simp
  then have "concat us = concat (butlast us) @ last us" by (metis concat.simps concat_append append_Nil2)
  moreover have "us ! i \<in> set (butlast us)" using assms(3) by (metis length_butlast nth_butlast nth_mem)
  moreover have "us ! i \<noteq> []" "last us \<noteq> []" using assms(2) i by auto
  ultimately show ?thesis using assms(1) by (force simp: ascending_append)
qed

lemma settled_ascending:
  assumes "seq_ok d"
  shows "ascending (concat (settled (turn_messages c d)))" "\<forall>u \<in> set (settled (turn_messages c d)). u \<noteq> []"
proof -
  define rows where "rows = turn_messages c d"
  have asc: "ascending rows" using turn_messages_ascending [OF assms] by (simp add: rows_def)
  show "\<forall>u \<in> set (settled (turn_messages c d)). u \<noteq> []"
    using turn_units_shape [of "turn_messages c d"]
    by (auto simp: unit_ok_def simp flip: turn_units_settled dest: in_set_butlastD)
  show "ascending (concat (settled (turn_messages c d)))"
  proof (cases "rows = []")
    case False
    then have "turn_units rows = settled rows @ [last (turn_units rows)]"
      using length_turn_units [of rows] by (metis turn_units_settled append_butlast_last_id length_0_conv nat.distinct(1))
    then have "rows = concat (settled rows) @ last (turn_units rows)"
      by (metis concat_turn_units concat_append concat.simps append_Nil2)
    then show ?thesis using asc unfolding rows_def [symmetric] by (metis ascending_append)
  qed (simp add: rows_def [symmetric] settled_def ascending_def)
qed

lemma watermark_after:
  assumes us: "ascending (concat us)" "\<forall>u \<in> set us. u \<noteq> []" and k: "k \<le> length us"
    and wm: "wm = (if k = 0 then None else Some (row_seq (last (us ! (k - 1)))))"
    and se: "se = (if drop (k - 1) us = [] then None else Some (row_seq (last (last us))))"
  shows "(case se of None \<Rightarrow> wm | Some e \<Rightarrow> if wm = None \<or> the wm < e then Some e else wm)
    = (if us = [] then None else Some (row_seq (last (last us))))"
proof (cases "us = []")
  case False
  have "drop (k - 1) us \<noteq> []" using False k by (cases k) auto
  then have se': "se = Some (row_seq (last (last us)))" using se by simp
  show ?thesis
  proof (cases "k = 0 \<or> k = length us")
    case True
    then show ?thesis using False se' wm by (auto simp: last_conv_nth)
  next
    case f: False
    then have "row_seq (last (us ! (k - 1))) < row_seq (last (last us))"
      using k by (intro last_seq_less us) auto
    then show ?thesis using f False se' wm by simp
  qed
qed (use k wm se in simp)

lemma chunk_new_turns_complete:
  assumes "chunk_new_turns sv now c s = (Inr (created, se), s')" "chunked c s k" "seq_ok (m_db s)"
  shows "chunked c s' (length (settled (turn_messages c (m_db s))))
    \<and> created = length (settled (turn_messages c (m_db s))) - k
    \<and> (\<exists>x new wm. s' = s\<lparr>m_db := (m_db s)\<lparr>db_draws := x\<rparr>, m_watermark := wm, m_chunks := m_chunks s @ new\<rparr>
         \<and> (\<forall>k \<in> set new. ck_conv k = c) \<and> (\<forall>b. b \<noteq> c \<longrightarrow> map_of wm b = map_of (m_watermark s) b))"
proof -
  define rows where "rows = turn_messages c (m_db s)"
  define us where "us = settled rows"
  have inv: "k \<le> length us" "map chunk_key (conv_chunks c s) = map unit_key (take k us)"
    "map_of (m_watermark s) c = (if k = 0 then None else Some (row_seq (last (us ! (k - 1)))))"
    using assms(2) by (simp_all add: chunked_def rows_def us_def Let_def)
  have us: "ascending (concat us)" "\<forall>u \<in> set us. u \<noteq> []"
    using settled_ascending [OF assms(3)] by (simp_all add: us_def rows_def)
  have window: "turn_rows c (turn_boundary c (map_of (m_watermark s) c) (m_db s)) (m_db s)
      = concat (drop (k - 1) (turn_units rows))"
    using window_rows [OF assms(2,3)] by (simp add: rows_def)
  show ?thesis
  proof (cases "rows = []")
    case True
    then have "s' = s" "created = 0" "us = []" using assms(1) window
      by (simp_all add: chunk_new_turns_def Let_def turn_units_def us_def settled_def)
    moreover have "s = s\<lparr>m_db := (m_db s)\<lparr>db_draws := db_draws (m_db s)\<rparr>, m_watermark := m_watermark s, m_chunks := m_chunks s @ []\<rparr>"
      by simp
    ultimately show ?thesis using inv assms(2) by (fastforce simp flip: rows_def us_def)
  next
    case False
    have k: "k - 1 < length (turn_units rows)" using inv(1) length_turn_units [OF False] by (simp add: us_def)
    then have full: "concat (drop (k - 1) (turn_units rows)) \<noteq> []"
      using turn_units_shape [of rows] by (simp add: unit_ok_def) (metis Cons_nth_drop_Suc list.set_intros(1) nth_mem)
    have units: "butlast (turn_units (concat (drop (k - 1) (turn_units rows)))) = drop (k - 1) us"
      by (simp add: turn_units_drop us_def drop_butlast flip: turn_units_settled)
    obtain s1 where
      fold: "fold_r (settle_unit sv now c) (s, 0, None) (drop (k - 1) us) = Inr (s1, created, se)"
      and s': "s' = (case se of None \<Rightarrow> s1 | Some e \<Rightarrow>
                 if map_of (m_watermark s) c = None \<or> the (map_of (m_watermark s) c) < e
                 then s1\<lparr>m_watermark := AList.update c e (m_watermark s1)\<rparr> else s1)"
      using chunk_new_turns_loop [OF assms(1) window full] unfolding units by blast
    have dist: "distinct (map (row_seq \<circ> hd) us)" by (rule ascending_concat_starts [OF us])
    have "fst ` set (map chunk_key (conv_chunks c s)) = (row_seq \<circ> hd) ` set (take k us)"
      unfolding inv(2) by (auto simp: unit_key_def image_iff)
    then have at: "chunk_at c (row_seq (hd u)) s \<longleftrightarrow> (row_seq \<circ> hd) u \<in> (row_seq \<circ> hd) ` set (take k us)" for u
      unfolding chunk_at_keys by simp
    have "distinct (map (row_seq \<circ> hd) (drop (k - 1) us))" using dist by (metis distinct_drop drop_map)
    from settle_units [OF fold this] obtain x new where new:
      "s1 = s\<lparr>m_db := (m_db s)\<lparr>db_draws := x\<rparr>, m_chunks := m_chunks s @ new\<rparr>"
      "map chunk_key new = map unit_key (drop k us)" "\<forall>k \<in> set new. ck_conv k = c"
      "created = length new" "se = (if drop (k - 1) us = [] then None else Some (row_seq (last (last us))))"
      unfolding at filter_new [OF dist inv(1)] by (auto split: if_splits)
    define wm where "wm = m_watermark s'"
    have wm: "s' = s\<lparr>m_db := (m_db s)\<lparr>db_draws := x\<rparr>, m_watermark := wm, m_chunks := m_chunks s @ new\<rparr>"
      "\<forall>b. b \<noteq> c \<longrightarrow> map_of wm b = map_of (m_watermark s) b"
      using s' new(1) by (auto simp: wm_def update_conv' split: option.splits)
    have "map_of wm c = (if us = [] then None else Some (row_seq (last (last us))))"
      unfolding watermark_after [OF us inv(1,3) new(5), symmetric]
      using s' new(1) by (auto simp: wm_def update_conv' split: option.split)
    moreover have "map chunk_key (conv_chunks c s') = map unit_key us"
    proof -
      have "conv_chunks c s' = conv_chunks c s @ new" using wm(1) new(3) by (simp add: conv_chunks_def filter_id_conv)
      then show ?thesis using inv(2) new(2) by (metis append_take_drop_id map_append)
    qed
    moreover have "turn_messages c (m_db s') = rows" using wm(1) by (simp add: turn_messages_def conv_rows_def rows_def)
    ultimately have "chunked c s' (length us)"
      using wm(1) by (auto simp: chunked_def us_def last_conv_nth Let_def)
    moreover have "length new = length us - k" using new(2) by (metis length_drop length_map)
    ultimately show ?thesis using wm new(3,4) unfolding rows_def [symmetric] us_def [symmetric] by blast
  qed
qed

end
