(* ===== verification/MemoryCorrect.thy ===== *)
theory MemoryCorrect
  imports MemoryChunks
begin

text \<open>
  Correctness of the memory service over runs: what its operations leave alone, the chunks of every
  reachable state, how indexing catches up after outages, what retrieval may return, and what can happen
  to a memory record.
\<close>

section \<open>What the operations leave alone\<close>

definition unmarked :: "chunk_row \<Rightarrow> chunk_row" where
  "unmarked k = k\<lparr>ck_indexed := False\<rparr>"

definition same_tables :: "'w memory \<Rightarrow> 'w memory \<Rightarrow> bool" where
  "same_tables s s' \<longleftrightarrow> m_db s' = m_db s \<and> m_watermark s' = m_watermark s \<and> m_memories s' = m_memories s
     \<and> map unmarked (m_chunks s') = map unmarked (m_chunks s)"

lemma same_tables_refl [simp]: "same_tables s s"
  by (simp add: same_tables_def)

lemma same_tables_vs [simp]: "same_tables s0 (s\<lparr>m_vs := v\<rparr>) = same_tables s0 s"
  by (simp add: same_tables_def)

lemma same_tables_mark [simp]: "same_tables s0 (mark_indexed i s) = same_tables s0 s"
proof -
  have "unmarked \<circ> (\<lambda>c. if ck_id c = i then c\<lparr>ck_indexed := True\<rparr> else c) = unmarked"
    by (intro ext) (simp add: unmarked_def)
  then show ?thesis by (simp add: same_tables_def mark_indexed_def)
qed

lemma same_tables_reset [simp]: "same_tables s0 (reset_markers sc s) = same_tables s0 s"
proof -
  have "unmarked \<circ> (\<lambda>c. if in_scope sc (ck_conv c) then c\<lparr>ck_indexed := False\<rparr> else c) = unmarked"
    by (intro ext) (simp add: unmarked_def)
  then show ?thesis by (simp add: same_tables_def reset_markers_def)
qed

lemma on_vs_tables: "on_vs f s = (r, s') \<Longrightarrow> same_tables s0 s' = same_tables s0 s"
  by (auto simp: on_vs_def split: prod.splits)

lemma on_world_tables: "on_world f s = (r, s') \<Longrightarrow> same_tables s0 s' = same_tables s0 s"
  unfolding on_world_def by (rule on_vs_tables)

lemma same_tables_embed_batch: "same_tables s0 s \<Longrightarrow> same_tables s0 (snd (safe_embed_batch sv ts s))"
  by (auto simp: safe_embed_batch_def dest!: on_world_tables [where ?s0.0 = s0]
      split: prod.splits sum.splits memory_error.splits)

lemma same_tables_embed: "same_tables s0 s \<Longrightarrow> same_tables s0 (snd (safe_embed sv t s))"
  by (auto simp: safe_embed_def dest!: on_world_tables [where ?s0.0 = s0]
      split: prod.splits sum.splits memory_error.splits list.splits)

lemma same_tables_try_upsert: "same_tables s0 s \<Longrightarrow> same_tables s0 (snd (try_upsert sv p s))"
proof (cases "on_vs (upsert (sv_qdrant sv) (sv_collection sv) [p] (length (pt_vector p))) s")
  case (Pair r s1)
  then have "snd (try_upsert sv p s) = s1" by (simp add: try_upsert_def split: sum.split memory_error.split)
  then show "same_tables s0 s \<Longrightarrow> same_tables s0 (snd (try_upsert sv p s))" using on_vs_tables [OF Pair] by simp
qed

lemma same_tables_embed_and_upsert: "same_tables s0 s \<Longrightarrow> same_tables s0 (snd (embed_and_upsert sv i t p s))"
  unfolding embed_and_upsert_def
  by (intro bind_s_invariant [where P = "same_tables s0"] same_tables_embed)
    (auto intro!: bind_s_invariant [where P = "same_tables s0"] same_tables_try_upsert split: option.split)

lemma same_tables_index_chunk: "same_tables s0 s \<Longrightarrow> same_tables s0 (snd (index_chunk sv c k v s))"
  unfolding index_chunk_def
  by (intro bind_s_invariant [where P = "same_tables s0"])
    (auto intro!: bind_s_invariant [where P = "same_tables s0"] same_tables_try_upsert same_tables_embed split: option.split)

lemma same_tables_index_batch: "same_tables s0 s \<Longrightarrow> same_tables s0 (snd (index_batch sv c n b s))"
  unfolding index_batch_def index_row_def
  by (intro bind_s_invariant [where P = "same_tables s0"] same_tables_embed_batch)
    (auto intro!: fold_s_invariant [where P = "same_tables s0"] bind_s_invariant [where P = "same_tables s0"] same_tables_index_chunk split: option.split)

lemma same_tables_index_pending: "same_tables s0 s \<Longrightarrow> same_tables s0 (snd (index_pending_chunks sv c s))"
  unfolding index_pending_chunks_def by (intro fold_s_invariant [where P = "same_tables s0"] same_tables_index_batch)

lemma same_tables_rebuild: "same_tables s0 s \<Longrightarrow> same_tables s0 (snd (rebuild_vector_index sv sc force s))"
  unfolding rebuild_vector_index_def rebuild_batch_def rebuild_row_def rebuild_memory_def Let_def
  by (intro bind_s_invariant [where P = "same_tables s0"] fold_s_invariant [where P = "same_tables s0"] same_tables_embed_batch)
    (auto intro!: bind_s_invariant [where P = "same_tables s0"] fold_s_invariant [where P = "same_tables s0"] same_tables_index_chunk same_tables_embed_batch
      same_tables_try_upsert split: option.split)

lemma same_tables_semantic: "same_tables s0 s \<Longrightarrow> same_tables s0 (snd (semantic_scores sv q c s))"
  unfolding semantic_scores_def
  by (intro bind_s_invariant [where P = "same_tables s0"] same_tables_embed)
    (auto dest!: on_vs_tables [where ?s0.0 = s0] split: option.split prod.splits sum.splits memory_error.splits)

lemma same_tables_retrieve: "same_tables s0 s \<Longrightarrow> same_tables s0 (snd (retrieve sv now q c lm s))"
  unfolding retrieve_def
  by (intro bind_s_invariant [where P = "same_tables s0"] same_tables_semantic) (auto simp: Let_def split: prod.split option.split)

lemma chunked_same_tables:
  assumes "same_tables s s'"
  shows "chunked c s' k = chunked c s k"
proof -
  have keys: "map chunk_key (conv_chunks c t) = map chunk_key (filter (\<lambda>k. ck_conv k = c) (map unmarked (m_chunks t)))" for t :: "'a memory"
    by (simp add: conv_chunks_def filter_map comp_def unmarked_def chunk_key_def)
  show ?thesis using assms keys [of s] keys [of s'] by (simp add: chunked_def same_tables_def)
qed

section \<open>Runs\<close>

text \<open>
  Everything that happens to the memory service over time: the writes of the conversation store, its own
  operations, a restart of the process, and changes of the world outside.
\<close>

datatype 'w memory_op =
    Write store_op
  | Index real string
  | Remember real memory_create
  | Retire string memory_status
  | Ask real string string "nat option"
  | Rebuild "string option" bool
  | Restart
  | Outside 'w

definition memory_step :: "'w service \<Rightarrow> 'w memory \<Rightarrow> 'w memory_op \<Rightarrow> 'w memory" where
  "memory_step sv s op =
     (case op of
        Write w \<Rightarrow> s\<lparr>m_db := store_step (sv_pg sv) (m_db s) w\<rparr>
      | Index now c \<Rightarrow> snd (index_completed_turns sv now c s)
      | Remember now spec \<Rightarrow> snd (create_memory sv now spec s)
      | Retire i st \<Rightarrow> snd (supersede_memory i st s)
      | Ask now q c lm \<Rightarrow> snd (retrieve sv now q c lm s)
      | Rebuild sc force \<Rightarrow> snd (rebuild_vector_index sv sc force s)
      | Restart \<Rightarrow> s\<lparr>m_vs := (m_vs s)\<lparr>collection_ready := False\<rparr>\<rparr>
      | Outside w \<Rightarrow> s\<lparr>m_vs := (m_vs s)\<lparr>vs_world := w\<rparr>\<rparr>)"

definition memory_run :: "'w service \<Rightarrow> 'w memory \<Rightarrow> 'w memory_op list \<Rightarrow> 'w memory" where
  "memory_run sv s ops = foldl (memory_step sv) s ops"

definition empty_memory :: "'w \<Rightarrow> 'w memory" where
  "empty_memory w = \<lparr>m_db = empty_db, m_watermark = [], m_chunks = [], m_memories = [],
     m_vs = \<lparr>collection_ready = False, vs_world = w\<rparr>\<rparr>"

lemma memory_run_invariant:
  assumes "P s" "\<And>s op. P s \<Longrightarrow> P (memory_step sv s op)"
  shows "P (memory_run sv s ops)"
  using assms(1) unfolding memory_run_def by (induction ops arbitrary: s) (auto intro: assms(2))

definition memory_inv :: "'w memory \<Rightarrow> bool" where
  "memory_inv s \<longleftrightarrow> db_inv (m_db s) \<and> (\<forall>c. \<exists>k. chunked c s k)"

lemma db_inv_draws [simp]: "db_inv (d\<lparr>db_draws := x\<rparr>) = db_inv d"
  by (simp add: db_inv_def seq_ok_def refs_ok_def conv_rows_def has_message_def result_ok_def)

lemma memory_inv_tables: "same_tables s s' \<Longrightarrow> memory_inv s \<Longrightarrow> memory_inv s'"
  using chunked_same_tables [of s s'] by (simp add: memory_inv_def same_tables_def)

lemma chunked_rows:
  assumes "chunked c s k" "prefix (turn_messages c (m_db s)) (turn_messages c (m_db s'))"
    "m_chunks s' = m_chunks s" "m_watermark s' = m_watermark s"
  shows "chunked c s' k"
proof -
  obtain rest where "turn_messages c (m_db s') = turn_messages c (m_db s) @ rest" using assms(2) by (auto simp: prefix_def)
  then obtain vs where "settled (turn_messages c (m_db s')) = settled (turn_messages c (m_db s)) @ vs"
    using settled_prefix [of "turn_messages c (m_db s)" rest] by (auto simp: prefix_def)
  then show ?thesis using assms(1,3,4) by (auto simp: chunked_def conv_chunks_def nth_append Let_def)
qed

lemma memory_inv_db:
  assumes "memory_inv s" "db_inv d" "prefix (db_messages (m_db s)) (db_messages d)"
  shows "memory_inv (s\<lparr>m_db := d, m_memories := ms\<rparr>)"
proof -
  have "prefix (turn_messages c (m_db s)) (turn_messages c d)" for c
    using assms(3) by (auto simp: prefix_def turn_messages_def conv_rows_def)
  then have "chunked c (s\<lparr>m_db := d, m_memories := ms\<rparr>) k" if "chunked c s k" for c k
    using that by (intro chunked_rows [OF that]) auto
  then show ?thesis using assms(1,2) by (fastforce simp: memory_inv_def)
qed

lemma memory_inv_chunk_new_turns:
  assumes "memory_inv s" "chunk_new_turns sv now c s = (r, s')"
  shows "memory_inv s'"
proof (cases r)
  case (Inr cs)
  obtain k where k: "chunked c s k" "seq_ok (m_db s)" using assms(1) by (auto simp: memory_inv_def db_inv_def)
  obtain created se where "cs = (created, se)" by fastforce
  from chunk_new_turns_complete [OF assms(2) [unfolded Inr this] k]
  obtain x new wm where c: "chunked c s' (length (settled (turn_messages c (m_db s))))"
    "s' = s\<lparr>m_db := (m_db s)\<lparr>db_draws := x\<rparr>, m_watermark := wm, m_chunks := m_chunks s @ new\<rparr>"
    "\<forall>k \<in> set new. ck_conv k = c" "\<forall>b. b \<noteq> c \<longrightarrow> map_of wm b = map_of (m_watermark s) b" by blast
  have "\<exists>k. chunked b s' k" for b
  proof (cases "b = c")
    case False
    then have "conv_chunks b s' = conv_chunks b s" using c(2,3) by (auto simp: conv_chunks_def filter_empty_conv)
    then have "chunked b s' k = chunked b s k" for k
      using False c(2,4) by (simp add: chunked_def turn_messages_def conv_rows_def)
    then show ?thesis using assms(1) by (simp add: memory_inv_def)
  qed (use c(1) in blast)
  then show ?thesis using assms(1) c(2) by (simp add: memory_inv_def)
qed (use assms chunk_new_turns_error in blast)

lemma db_inv_ensure [simp]: "db_inv (ensure_conversation c d) = db_inv d"
  by (simp add: ensure_conversation_def db_inv_def seq_ok_def refs_ok_def conv_rows_def has_message_def result_ok_def)

lemma store_step_inv: "db_inv d \<Longrightarrow> db_inv (store_step pg d op) \<and> prefix (db_messages d) (db_messages (store_step pg d op))"
  using store_run_inv [of d pg "[op]"] by (auto simp: store_run_def extends_def)

lemma insert_memory_Inr:
  assumes "insert_memory sv now spec s = Inr (i, s1)"
  shows "\<exists>conv target meta x. sv_cast_uuid sv (spec_conversation_id spec) = Some conv \<and> supersede_target spec s = Inr target
    \<and> i \<notin> mr_id ` set (m_memories s)
    \<and> s1 = s\<lparr>m_db := (bootstrap_conversation conv (m_db s))\<lparr>db_draws := x\<rparr>,
             m_memories := (let rows = m_memories s @ [new_memory i conv target meta now spec] in
               case target of None \<Rightarrow> rows | Some t \<Rightarrow> map (set_superseded t i) rows)\<rparr>"
proof -
  obtain conv where conv: "sv_cast_uuid sv (spec_conversation_id spec) = Some conv"
    using assms by (cases "sv_cast_uuid sv (spec_conversation_id spec)") (auto simp: insert_memory_def)
  obtain target where target: "supersede_target spec s = Inr target"
    using assms conv by (cases "supersede_target spec s") (auto simp: insert_memory_def)
  obtain meta where meta: "jsonb (sv_pg sv) (spec_metadata spec) = Some meta" "CHR 0x00 \<notin> set (spec_content spec)"
    using assms conv target by (auto simp: insert_memory_def split: option.splits if_splits)
  show ?thesis using assms conv target meta by (auto simp: insert_memory_def draw_uuid_def Let_def split: if_splits)
qed

lemma bootstrap_inv [simp]:
  "db_inv (bootstrap_conversation c d) = db_inv d" "db_messages (bootstrap_conversation c d) = db_messages d"
  by (simp_all add: bootstrap_conversation_def) (simp add: ensure_conversation_def)

lemma insert_memory_db:
  assumes "insert_memory sv now spec s = Inr (i, s1)"
  shows "\<exists>d ms. s1 = s\<lparr>m_db := d, m_memories := ms\<rparr> \<and> db_messages d = db_messages (m_db s) \<and> (db_inv d = db_inv (m_db s))"
proof -
  obtain conv x ms where "s1 = s\<lparr>m_db := (bootstrap_conversation conv (m_db s))\<lparr>db_draws := x\<rparr>, m_memories := ms\<rparr>"
    using insert_memory_Inr [OF assms] by blast
  then show ?thesis by (intro exI conjI) (assumption, simp_all)
qed

lemma create_memory_tables:
  assumes "insert_memory sv now spec s = Inr (i, s1)"
  shows "same_tables s1 (snd (create_memory sv now spec s))"
proof -
  have "same_tables s1 (snd (bind_s (embed_and_upsert sv i t pl) (\<lambda>_. Pair (Inr i)) s1))" for t pl
    by (rule bind_s_invariant [where P = "same_tables s1"]) (simp_all add: same_tables_embed_and_upsert)
  then show ?thesis by (simp add: create_memory_def assms)
qed

lemma memory_step_inv:
  assumes "memory_inv s"
  shows "memory_inv (memory_step sv s op)"
proof (cases op)
  case (Write w)
  have "memory_inv (s\<lparr>m_db := store_step (sv_pg sv) (m_db s) w, m_memories := m_memories s\<rparr>)"
    using assms store_step_inv by (intro memory_inv_db) (auto simp: memory_inv_def)
  then show ?thesis by (simp add: memory_step_def Write)
next
  case (Index now c)
  obtain r s1 where r: "chunk_new_turns sv now c s = (r, s1)" by fastforce
  have s1: "memory_inv s1" by (rule memory_inv_chunk_new_turns [OF assms r])
  have "memory_inv (snd (index_pending_chunks sv c s1))"
    using memory_inv_tables [OF same_tables_index_pending s1] by simp
  then show ?thesis using s1
    by (auto simp: memory_step_def Index index_completed_turns_def bind_s_def r split: sum.split prod.split)
next
  case (Remember now spec)
  show ?thesis
  proof (cases "insert_memory sv now spec s")
    case (Inr p)
    obtain i s1 where p: "p = (i, s1)" by fastforce
    obtain d ms where d: "s1 = s\<lparr>m_db := d, m_memories := ms\<rparr>" "db_messages d = db_messages (m_db s)" "db_inv d = db_inv (m_db s)"
      using insert_memory_db [OF Inr [unfolded p]] by blast
    have "db_inv (m_db s)" using assms by (simp add: memory_inv_def)
    then have s1: "memory_inv s1" unfolding d(1) using d(2,3) by (intro memory_inv_db assms) simp_all
    then show ?thesis unfolding memory_step_def Remember memory_op.case
      using memory_inv_tables [OF create_memory_tables [OF Inr [unfolded p]]] by blast
  qed (use assms in \<open>simp add: memory_step_def Remember create_memory_def\<close>)
next
  case (Retire i st)
  have "memory_inv (s\<lparr>m_db := m_db s, m_memories := ms\<rparr>)" for ms
    using assms by (intro memory_inv_db) (auto simp: memory_inv_def)
  then show ?thesis by (simp add: memory_step_def Retire supersede_memory_def)
next
  case (Ask now q c lm)
  show ?thesis unfolding memory_step_def Ask
    by (simp, rule memory_inv_tables [OF same_tables_retrieve assms]) simp
next
  case (Rebuild sc force)
  show ?thesis unfolding memory_step_def Rebuild
    by (simp, rule memory_inv_tables [OF same_tables_rebuild assms]) simp
next
  case Restart
  show ?thesis unfolding memory_step_def Restart by (simp, rule memory_inv_tables [OF _ assms]) simp
next
  case (Outside w)
  show ?thesis unfolding memory_step_def Outside by (simp, rule memory_inv_tables [OF _ assms]) simp
qed

lemma empty_memory_inv: "memory_inv (empty_memory w)"
  by (simp add: memory_inv_def empty_memory_def chunked_def conv_chunks_def turn_messages_def conv_rows_def
      empty_db_def settled_def db_inv_def seq_ok_def refs_ok_def)

lemma memory_run_inv: "memory_inv (memory_run sv (empty_memory w) ops)"
  by (rule memory_run_invariant [where P = memory_inv, OF empty_memory_inv memory_step_inv])

text \<open>
  C4. Chunking (\<open>_chunk_new_turns\<close>): after any interleaving of store writes, indexing passes,
  memory operations, rebuilds and restarts, the chunks of a conversation are those of its first turns, in
  order, one each, with the sequence range, message ids and text of the turn.  A pass that returns
  completes them to all turns but the last, live one, and reports how many it added: the incremental
  scan agrees with cutting the whole transcript anew.
\<close>

theorem chunks_match_settled_turns:
  assumes s_def: "s = memory_run sv (empty_memory w) ops"
    and turns_def: "turns = butlast (turn_units (turn_messages c (m_db s)))"
  shows "(\<exists>k \<le> length turns. map chunk_key (conv_chunks c s) = map unit_key (take k turns))
    \<and> (\<forall>created e s'. chunk_new_turns sv now c s = (Inr (created, e), s') \<longrightarrow>
         map chunk_key (conv_chunks c s') = map unit_key turns
         \<and> created = length turns - length (conv_chunks c s))"
proof -
  have inv: "memory_inv s" unfolding s_def by (rule memory_run_inv)
  then obtain k where k: "chunked c s k" "seq_ok (m_db s)" by (auto simp: memory_inv_def db_inv_def)
  then have t: "k \<le> length turns" "map chunk_key (conv_chunks c s) = map unit_key (take k turns)"
    by (simp_all add: chunked_def turns_def turn_units_settled Let_def)
  from t(2) have "length (map chunk_key (conv_chunks c s)) = length (map unit_key (take k turns))" by (rule arg_cong)
  with t(1) have len: "length (conv_chunks c s) = k" by simp
  have "map chunk_key (conv_chunks c s') = map unit_key turns \<and> created = length turns - k"
    if "chunk_new_turns sv now c s = (Inr (created, e), s')" for created e s'
    using chunk_new_turns_complete [OF that k]
    by (auto simp: chunked_def turns_def turn_units_settled Let_def turn_messages_def conv_rows_def)
  with t len show ?thesis by blast
qed

text \<open>A service whose servers accept everything.\<close>

definition accepting_server :: "'w server" where
  "accepting_server w req = (Reply 200 (Some (JObj [(''result'', JArr [])])), w)"

definition embedding_server :: "'w server" where
  "embedding_server w req =
     (case req of
        Http_post p (JObj d) \<Rightarrow>
          (case dget d ''input'' of
             JArr ts \<Rightarrow>
               (Reply 200 (Some (JObj [(''data'', JArr (map (\<lambda>_. JObj [(''embedding'', JArr [JInt 1])]) ts))])), w)
           | _ \<Rightarrow> (Reply 400 None, w))
      | _ \<Rightarrow> (Reply 404 None, w))"

definition demo_service :: "unit service" where
  "demo_service =
     \<lparr>sv_pg = demo_pg, sv_qdrant = accepting_server, sv_embed = embedding_server, sv_collection = ''p'', sv_model = ''m'',
      sv_retrieval = \<lparr>semantic_weight = 40 / 100, lexical_weight = 25 / 100, recency_weight = 15 / 100,
        importance_weight = 15 / 100, type_weight = 5 / 100, limit_default = 8, candidate_pool = 50\<rparr>,
      sv_max_embed_chars = 80, sv_batch_size = 64, sv_ts_rank = (\<lambda>q t. if q = [] then None else Some 1),
      sv_pg_fault = (\<lambda>_. None), sv_cast_uuid = (\<lambda>t. map_option uuid_str (UUID t))\<rparr>"

definition demo_ops :: "unit memory_op list" where
  "demo_ops = [Write (Reconcile ''c'' [said ''user'' ''a'', said ''assistant'' ''b'', said ''user'' ''d''] JNull)]"

theorem chunks_match_settled_turns_witness:
  "fst (chunk_new_turns demo_service 0 ''c'' (memory_run demo_service (empty_memory ()) demo_ops)) = Inr (1, Some 1)
   \<and> map ck_end (conv_chunks ''c'' (snd (chunk_new_turns demo_service 0 ''c'' (memory_run demo_service (empty_memory ()) demo_ops)))) = [1]"
proof -
  define s where "s = memory_run demo_service (empty_memory ()) demo_ops"
  have r: "fst (chunk_new_turns demo_service 0 ''c'' s) = Inr (1, Some 1)" unfolding s_def by code_simp
  have t: "map (fst \<circ> snd \<circ> unit_key) (butlast (turn_units (turn_messages ''c'' (m_db s)))) = [1]"
    unfolding s_def by code_simp
  obtain s' where s': "chunk_new_turns demo_service 0 ''c'' s = (Inr (1, Some 1), s')" using r by (metis prod.collapse)
  have "map chunk_key (conv_chunks ''c'' s') = map unit_key (butlast (turn_units (turn_messages ''c'' (m_db s))))"
    using chunks_match_settled_turns [OF s_def refl, where c = "''c''" and now = 0] s' by blast
  from arg_cong [OF this, of "map (fst \<circ> snd)"] have "map ck_end (conv_chunks ''c'' s') = [1]"
    using t by (simp add: chunk_key_def comp_def)
  then show ?thesis using s' unfolding s_def [symmetric] by simp
qed

section \<open>Indexing catches up\<close>

definition pending :: "string \<Rightarrow> 'w memory \<Rightarrow> chunk_row list" where
  "pending c s = filter (\<lambda>k. ck_conv k = c \<and> \<not> ck_indexed k) (m_chunks s)"

text \<open>
  The servers answer: the provider returns one vector per text, and the store accepts every point.
\<close>

definition healthy :: "'w service \<Rightarrow> bool" where
  "healthy sv \<longleftrightarrow>
     (\<forall>texts w. texts \<noteq> [] \<longrightarrow>
        (\<exists>vs w'. embed (sv_embed sv) (sv_model sv) texts w = (Inr vs, w') \<and> length vs = length texts)) \<and>
     (\<forall>p n v. \<exists>v'. upsert (sv_qdrant sv) (sv_collection sv) [p] n v = (Inr (), v'))"

definition mark_all :: "string set \<Rightarrow> 'w memory \<Rightarrow> 'w memory" where
  "mark_all ids s = s\<lparr>m_chunks := map (\<lambda>k. if ck_id k \<in> ids then k\<lparr>ck_indexed := True\<rparr> else k) (m_chunks s)\<rparr>"

lemma mark_all_simps [simp]:
  "mark_all {} s = s" "mark_indexed i s = mark_all {i} s"
  "mark_all A (mark_all B s) = mark_all (A \<union> B) s" "mark_all A (s\<lparr>m_vs := v\<rparr>) = (mark_all A s)\<lparr>m_vs := v\<rparr>"
  by (auto simp: mark_all_def mark_indexed_def)

lemma healthy_embed_batch:
  assumes "healthy sv"
  shows "\<exists>vs v. safe_embed_batch sv ts s = (Inr (Some vs), s\<lparr>m_vs := v\<rparr>) \<and> length vs = length ts"
proof (cases "ts = []")
  case True
  then show ?thesis by (intro exI [of _ "[]"] exI [of _ "m_vs s"]) (simp add: safe_embed_batch_def)
next
  case False
  then obtain vs w' where "embed (sv_embed sv) (sv_model sv) (map (take (sv_max_embed_chars sv)) ts) (vs_world (m_vs s)) = (Inr vs, w')"
    "length vs = length ts" using assms unfolding healthy_def by (metis length_map Nil_is_map_conv)
  then show ?thesis using False
    by (intro exI [of _ vs] exI [of _ "(m_vs s)\<lparr>vs_world := w'\<rparr>"]) (simp add: safe_embed_batch_def on_world_def on_vs_def)
qed

lemma healthy_index_row:
  assumes "healthy sv"
  shows "\<exists>v. index_row sv c n kv s = (Inr (Suc n), (mark_all {ck_id (fst kv)} s)\<lparr>m_vs := v\<rparr>)"
proof -
  let ?p = "\<lparr>pt_id = ck_id (fst kv), pt_vector = snd kv, pt_payload = chunk_payload c (ck_id (fst kv)) (ck_start (fst kv))\<rparr>"
  obtain v where "upsert (sv_qdrant sv) (sv_collection sv) [?p] (length (snd kv)) (m_vs s) = (Inr (), v)"
    using assms unfolding healthy_def by blast
  then have "try_upsert sv ?p s = (Inr True, s\<lparr>m_vs := v\<rparr>)" by (simp add: try_upsert_def on_vs_def)
  then show ?thesis
    by (intro exI [of _ v]) (simp add: index_row_def index_chunk_def bind_s_def)
qed

lemma healthy_index_rows:
  assumes "healthy sv"
  shows "\<exists>v. fold_s (index_row sv c) n kvs s = (Inr (n + length kvs), (mark_all (ck_id ` fst ` set kvs) s)\<lparr>m_vs := v\<rparr>)"
proof (induction kvs arbitrary: n s)
  case Nil
  show ?case by (intro exI [of _ "m_vs s"]) simp
next
  case (Cons kv kvs)
  obtain v where v: "index_row sv c n kv s = (Inr (Suc n), (mark_all {ck_id (fst kv)} s)\<lparr>m_vs := v\<rparr>)"
    using healthy_index_row [OF assms] by blast
  obtain v' where "fold_s (index_row sv c) (Suc n) kvs ((mark_all {ck_id (fst kv)} s)\<lparr>m_vs := v\<rparr>)
      = (Inr (Suc n + length kvs), (mark_all (ck_id ` fst ` set kvs) ((mark_all {ck_id (fst kv)} s)\<lparr>m_vs := v\<rparr>))\<lparr>m_vs := v'\<rparr>)"
    using Cons.IH by blast
  then show ?case using v by (intro exI [of _ v']) (simp add: bind_s_def)
qed

lemma healthy_index_batch:
  assumes "healthy sv"
  shows "\<exists>v. index_batch sv c n batch s = (Inr (n + length batch), (mark_all (ck_id ` set batch) s)\<lparr>m_vs := v\<rparr>)"
proof -
  obtain vs v where e: "safe_embed_batch sv (map ck_raw batch) s = (Inr (Some vs), s\<lparr>m_vs := v\<rparr>)" "length vs = length batch"
    using healthy_embed_batch [OF assms, of "map ck_raw batch" s] by auto
  obtain v' where "fold_s (index_row sv c) n (zip batch vs) (s\<lparr>m_vs := v\<rparr>)
      = (Inr (n + length (zip batch vs)), (mark_all (ck_id ` fst ` set (zip batch vs)) (s\<lparr>m_vs := v\<rparr>))\<lparr>m_vs := v'\<rparr>)"
    using healthy_index_rows [OF assms] by blast
  moreover have "fst ` set (zip batch vs) = set batch" using e(2) by (metis list.set_map map_fst_zip)
  ultimately show ?thesis using e by (intro exI [of _ v']) (simp add: index_batch_def bind_s_def)
qed

lemma healthy_index_batches:
  assumes "healthy sv"
  shows "\<exists>v. fold_s (index_batch sv c) n bs s
    = (Inr (n + length (concat bs)), (mark_all (ck_id ` set (concat bs)) s)\<lparr>m_vs := v\<rparr>)"
proof (induction bs arbitrary: n s)
  case Nil
  show ?case by (intro exI [of _ "m_vs s"]) simp
next
  case (Cons b bs)
  obtain v where v: "index_batch sv c n b s = (Inr (n + length b), (mark_all (ck_id ` set b) s)\<lparr>m_vs := v\<rparr>)"
    using healthy_index_batch [OF assms] by blast
  obtain v' where "fold_s (index_batch sv c) (n + length b) bs ((mark_all (ck_id ` set b) s)\<lparr>m_vs := v\<rparr>)
      = (Inr (n + length b + length (concat bs)),
         (mark_all (ck_id ` set (concat bs)) ((mark_all (ck_id ` set b) s)\<lparr>m_vs := v\<rparr>))\<lparr>m_vs := v'\<rparr>)"
    using Cons.IH by blast
  then show ?case using v by (intro exI [of _ v']) (simp add: bind_s_def image_Un Un_commute)
qed

lemma healthy_index_pending:
  assumes "healthy sv"
  shows "\<exists>v. index_pending_chunks sv c s
    = (Inr (length (pending_rows c s)), (mark_all (ck_id ` set (pending_rows c s)) s)\<lparr>m_vs := v\<rparr>)"
proof -
  have "concat (slices (embed_batch_size sv) (pending_rows c s)) = pending_rows c s"
    by (rule concat_slices) (simp add: embed_batch_size_def)
  then show ?thesis using healthy_index_batches [OF assms, of c 0 "slices (embed_batch_size sv) (pending_rows c s)" s]
    by (simp add: index_pending_chunks_def)
qed

lemma pending_mark_all: "pending c (mark_all ids s) = filter (\<lambda>k. ck_id k \<notin> ids) (pending c s)"
proof -
  have "filter (\<lambda>k. ck_conv k = c \<and> \<not> ck_indexed k) (map (\<lambda>k. if ck_id k \<in> ids then k\<lparr>ck_indexed := True\<rparr> else k) ks)
      = filter (\<lambda>k. ck_id k \<notin> ids) (filter (\<lambda>k. ck_conv k = c \<and> \<not> ck_indexed k) ks)" for ks
    by (induction ks) auto
  then show ?thesis by (simp add: pending_def mark_all_def)
qed

lemma pending_rows_length: "length (pending_rows c s) = min 100 (length (pending c s))"
  by (simp add: pending_rows_def pending_def min.commute)

lemma pending_after:
  "length (pending c (mark_all (ck_id ` set (pending_rows c s)) s)) \<le> length (pending c s) - 100"
proof -
  let ?P = "\<lambda>k. ck_id k \<in> ck_id ` set (pending_rows c s)" and ?sorted = "sort_key ck_start (pending c s)"
  have "length (filter ?P (pending_rows c s)) = length (pending_rows c s)" by (simp add: filter_id_conv)
  moreover have rows: "pending_rows c s = take 100 ?sorted" by (simp add: pending_rows_def pending_def)
  moreover have "length (filter ?P ?sorted) = length (filter ?P (take 100 ?sorted)) + length (filter ?P (drop 100 ?sorted))"
    by (metis append_take_drop_id filter_append length_append)
  moreover have "length (filter ?P ?sorted) = length (filter ?P (pending c s))"
    by (metis mset_filter mset_sort size_mset)
  moreover have "length (filter ?P (pending c s)) + length (filter (\<lambda>k. \<not> ?P k) (pending c s)) = length (pending c s)"
    by (rule sum_length_filter_compl)
  ultimately show ?thesis using pending_rows_length [of c s] by (simp add: pending_mark_all)
qed

text \<open>
  C36. Indexing (\<open>_index_pending_chunks\<close>): from whatever state earlier passes left, failed or not, as
  soon as the servers answer, a pass indexes up to 100 pending chunks of the conversation and \<open>n\<close> passes
  leave none of up to \<open>100 * n\<close>.  Nothing but the markers changes.  The bound is the \<open>LIMIT 100\<close> of the query; the
  docstring of the method promises every pending chunk in one pass.
\<close>

theorem indexing_catches_up:
  assumes "healthy sv" "length (pending c s) \<le> 100 * n"
  shows "fst (index_pending_chunks sv c s) = Inr (min 100 (length (pending c s)))
    \<and> pending c (((\<lambda>s. snd (index_pending_chunks sv c s)) ^^ n) s) = []
    \<and> same_tables s (((\<lambda>s. snd (index_pending_chunks sv c s)) ^^ n) s)"
proof (intro conjI)
  show "fst (index_pending_chunks sv c s) = Inr (min 100 (length (pending c s)))"
    using healthy_index_pending [OF assms(1), of c s] by (auto simp: pending_rows_length)
  show "pending c (((\<lambda>s. snd (index_pending_chunks sv c s)) ^^ n) s) = []"
    using assms(2)
  proof (induction n arbitrary: s)
    case (Suc n)
    obtain v where v: "snd (index_pending_chunks sv c s) = (mark_all (ck_id ` set (pending_rows c s)) s)\<lparr>m_vs := v\<rparr>"
      using healthy_index_pending [OF assms(1), of c s] by auto
    have "length (pending c (snd (index_pending_chunks sv c s))) \<le> 100 * n"
      using pending_after [of c s] Suc.prems unfolding v by (simp add: pending_def)
    from Suc.IH [OF this] show ?case by (simp add: funpow_Suc_right del: funpow.simps)
  qed simp
  show "same_tables s (((\<lambda>s. snd (index_pending_chunks sv c s)) ^^ n) s)"
    by (induction n) (auto intro: same_tables_index_pending)
qed

lemma demo_service_healthy: "healthy demo_service"
proof -
  have "map_r embedding_item (map (\<lambda>_. JObj [(''embedding'', JArr [JInt 1])]) ts) = Inr (map (\<lambda>_. [JInt 1]) ts)" for ts :: "string list"
    by (induction ts) (auto simp: embedding_item_def)
  then show ?thesis
    by (auto simp: healthy_def demo_service_def embed_def embedding_server_def is_success_def embedding_response_def
        upsert_def ensure_collection_def vs_send_def accepting_server_def raise_for_status_def comp_def)
qed

theorem indexing_catches_up_witness:
  "pending ''c'' (snd (index_pending_chunks demo_service ''c''
     (snd (chunk_new_turns demo_service 0 ''c'' (memory_run demo_service (empty_memory ()) demo_ops))))) = []
   \<and> pending ''c'' (snd (chunk_new_turns demo_service 0 ''c'' (memory_run demo_service (empty_memory ()) demo_ops))) \<noteq> []"
proof -
  define s where "s = snd (chunk_new_turns demo_service 0 ''c'' (memory_run demo_service (empty_memory ()) demo_ops))"
  have len: "length (pending ''c'' s) = 1" unfolding s_def by code_simp
  then show ?thesis unfolding s_def [symmetric]
    using indexing_catches_up [OF demo_service_healthy, of "''c''" s 1] by auto
qed

section \<open>Retrieval\<close>

definition genuine :: "string \<Rightarrow> 'w memory \<Rightarrow> hit \<Rightarrow> bool" where
  "genuine c s h \<longleftrightarrow>
     (\<exists>x. \<exists>r \<in> set (m_memories s). active_in c r \<and> h = memory_hit x r) \<or>
     (\<exists>x. \<exists>k \<in> set (m_chunks s). ck_conv k = c \<and> h = chunk_hit x k)"

lemma genuine_memory: "r \<in> set (m_memories s) \<Longrightarrow> active_in c r \<Longrightarrow> genuine c s (memory_hit x r)"
  and genuine_chunk: "k \<in> set (m_chunks s) \<Longrightarrow> ck_conv k = c \<Longrightarrow> genuine c s (chunk_hit x k)"
  unfolding genuine_def by blast+

lemma genuine_lexical: "h \<in> set (lexical_search sv q c n s) \<Longrightarrow> genuine c s h"
  by (auto simp: lexical_search_def ranked_def dest!: in_set_takeD intro: genuine_memory genuine_chunk split: option.splits)

lemma genuine_fetched: "h \<in> set (fetch_by_ids c ids s) \<Longrightarrow> genuine c s h"
  by (auto simp: fetch_by_ids_def Let_def intro: genuine_memory genuine_chunk split: if_splits)

lemma hit_dict_entries:
  assumes "\<forall>kh \<in> set d. fst kh = h_id (snd kh) \<and> P (snd kh)" "\<forall>h \<in> set hs. P h" "distinct (map fst d)"
  shows "(\<forall>kh \<in> set (hit_dict d hs). fst kh = h_id (snd kh) \<and> P (snd kh)) \<and> distinct (map fst (hit_dict d hs))"
  using assms
proof (induction hs arbitrary: d)
  case (Cons h hs)
  have "set (AList.update (h_id h) h d) \<subseteq> insert (h_id h, h) (set d)" by (induction d) auto
  then have "\<forall>kh \<in> set (AList.update (h_id h) h d). fst kh = h_id (snd kh) \<and> P (snd kh)"
    using Cons.prems(1,2) by auto
  moreover have "distinct (map fst (AList.update (h_id h) h d))" using Cons.prems(3) by (rule distinct_update)
  ultimately have "(\<forall>kh \<in> set (hit_dict (AList.update (h_id h) h d) hs). fst kh = h_id (snd kh) \<and> P (snd kh))
      \<and> distinct (map fst (hit_dict (AList.update (h_id h) h d) hs))"
    using Cons.prems(2) by (intro Cons.IH) auto
  then show ?case by (simp add: hit_dict_def)
qed (simp add: hit_dict_def)

lemma candidate_hits_entries:
  assumes "candidate_hits sv q c scores s = (mx, cs)"
  shows "(\<forall>kh \<in> set cs. fst kh = h_id (snd kh) \<and> genuine c s (snd kh)) \<and> distinct (map fst cs)"
proof -
  define lexis where "lexis = lexical_search sv q c (nat (candidate_pool (sv_retrieval sv))) s"
  have a: "(\<forall>kh \<in> set (hit_dict [] lexis). fst kh = h_id (snd kh) \<and> genuine c s (snd kh)) \<and> distinct (map fst (hit_dict [] lexis))"
    using genuine_lexical unfolding lexis_def by (intro hit_dict_entries) auto
  have "(\<forall>kh \<in> set (hit_dict (hit_dict [] lexis) (fetch_by_ids c ids s)). fst kh = h_id (snd kh) \<and> genuine c s (snd kh))
      \<and> distinct (map fst (hit_dict (hit_dict [] lexis) (fetch_by_ids c ids s)))" for ids
    using a genuine_fetched by (intro hit_dict_entries) auto
  with a show ?thesis using assms unfolding candidate_hits_def Let_def lexis_def [symmetric] by (auto split: if_splits)
qed

lemma retrieved_of_ids: "concat (map (map ri_id \<circ> retrieved_of sv now c scores mx) cs) = filter (\<lambda>i. \<exists>kh \<in> set cs. fst kh = i \<and> retrieved_of sv now c scores mx kh \<noteq> []) (map fst cs)"
  if "distinct (map fst cs)"
  using that
proof (induction cs)
  case (Cons kh cs)
  have one: "map ri_id (retrieved_of sv now c scores mx kh) = (if retrieved_of sv now c scores mx kh = [] then [] else [fst kh])"
    by (cases kh) (auto simp: retrieved_of_def Let_def)
  have "filter (\<lambda>i. \<exists>k \<in> set (kh # cs). fst k = i \<and> retrieved_of sv now c scores mx k \<noteq> []) (map fst cs)
      = filter (\<lambda>i. \<exists>k \<in> set cs. fst k = i \<and> retrieved_of sv now c scores mx k \<noteq> []) (map fst cs)"
    using Cons.prems by (intro filter_cong) auto
  moreover have "\<not> (\<exists>k \<in> set cs. fst k = fst kh)" using Cons.prems by (auto simp: image_iff)
  ultimately show ?case using Cons one by auto
qed simp

lemma same_tables_genuine: "same_tables s s' \<Longrightarrow> genuine c s' h \<Longrightarrow> genuine c s h"
proof -
  assume t: "same_tables s s'" and g: "genuine c s' h"
  have "\<exists>k' \<in> set (m_chunks s). ck_conv k' = ck_conv k \<and> chunk_hit x k' = chunk_hit x k" if "k \<in> set (m_chunks s')" for k x
  proof -
    have "unmarked k \<in> set (map unmarked (m_chunks s))" using t that by (metis same_tables_def image_eqI list.set_map)
    then obtain k' where k': "k' \<in> set (m_chunks s)" "unmarked k = unmarked k'" by auto
    have "ck_conv (unmarked k) = ck_conv (unmarked k')" "chunk_hit x (unmarked k) = chunk_hit x (unmarked k')" using k'(2) by simp_all
    then show ?thesis using k'(1) by (auto simp: unmarked_def chunk_hit_def)
  qed
  moreover have "m_memories s' = m_memories s" using t by (simp add: same_tables_def)
  ultimately show ?thesis using g unfolding genuine_def by metis
qed

text \<open>
  C9. Retrieval (\<open>retrieve\<close>): whatever points the vector store returns, every item is an active memory
  or a chunk of the asked conversation with its stored text, no two have the same id, they are ordered by
  descending score and no more than the limit, and the tables are only read.
\<close>

theorem retrieve_isolated_and_ranked:
  assumes "retrieve sv now query c lm s = (Inr items, s')"
  shows "(\<forall>i \<in> set items. ri_conversation_id i = c \<and>
       (case ri_item_type i of
          Item_memory \<Rightarrow> \<exists>r \<in> set (m_memories s). mr_conv r = c \<and> mr_status r = Active
            \<and> mr_id r = ri_id i \<and> mr_content r = ri_content i
        | Item_chunk \<Rightarrow> \<exists>k \<in> set (m_chunks s). ck_conv k = c \<and> ck_id k = ri_id i \<and> ck_raw k = ri_content i
            \<and> ri_start_seq i = Some (ck_start k) \<and> ri_end_seq i = Some (ck_end k)))
    \<and> distinct (map ri_id items) \<and> sorted_wrt (\<lambda>i j. ri_score j \<le> ri_score i) items
    \<and> length items \<le> (case lm of Some (Suc n) \<Rightarrow> Suc n | _ \<Rightarrow> nat (limit_default (sv_retrieval sv)))
    \<and> same_tables s s'"
proof -
  obtain scores s1 where sem: "semantic_scores sv query c s = (Inr scores, s1)"
    using assms by (auto simp: retrieve_def result_simps)
  have up: "sv_pg_fault sv (vs_world (m_vs s1)) = None"
    using assms sem by (cases "sv_pg_fault sv (vs_world (m_vs s1))") (auto simp: retrieve_def bind_s_def)
  obtain mx cs where cs: "candidate_hits sv query c scores s1 = (mx, cs)" by fastforce
  define all where "all = concat (map (retrieved_of sv now c scores mx) cs)"
  define srt where "srt = sort_key (\<lambda>i. (- ri_score i, ri_id i)) all"
  have items: "items = take (case lm of Some (Suc n) \<Rightarrow> Suc n | _ \<Rightarrow> nat (limit_default (sv_retrieval sv))) srt" "s' = s1"
    using assms sem cs up by (auto simp: retrieve_def bind_s_def Let_def srt_def all_def)
  have t: "same_tables s s1" using same_tables_semantic [of s s sv query c] sem by simp
  have e: "(\<forall>kh \<in> set cs. fst kh = h_id (snd kh) \<and> genuine c s1 (snd kh)) \<and> distinct (map fst cs)"
    by (rule candidate_hits_entries [OF cs])
  have origin: "ri_conversation_id i = c \<and>
       (case ri_item_type i of
          Item_memory \<Rightarrow> \<exists>r \<in> set (m_memories s). mr_conv r = c \<and> mr_status r = Active
            \<and> mr_id r = ri_id i \<and> mr_content r = ri_content i
        | Item_chunk \<Rightarrow> \<exists>k \<in> set (m_chunks s). ck_conv k = c \<and> ck_id k = ri_id i \<and> ck_raw k = ri_content i
            \<and> ri_start_seq i = Some (ck_start k) \<and> ri_end_seq i = Some (ck_end k))" if i: "i \<in> set all" for i
  proof -
    obtain key h where h: "(key, h) \<in> set cs" "i \<in> set (retrieved_of sv now c scores mx (key, h))"
      using i by (auto simp: all_def)
    then have "genuine c s h" "key = h_id h" using e same_tables_genuine [OF t] by auto
    then show ?thesis using h(2)
      by (auto simp: genuine_def retrieved_of_def Let_def memory_hit_def chunk_hit_def active_in_def split: if_splits)
  qed
  have sub: "set items \<subseteq> set all" by (auto simp: items srt_def dest: in_set_takeD)
  have "distinct (map ri_id all)"
    using retrieved_of_ids [of cs sv now c scores mx] e by (simp add: all_def map_concat)
  moreover have "mset (map ri_id srt) = mset (map ri_id all)" by (simp add: srt_def)
  ultimately have "distinct (map ri_id srt)" using mset_eq_imp_distinct_iff by blast
  then have dist: "distinct (map ri_id items)" unfolding items by (simp add: take_map [symmetric])
  have "sorted_wrt (\<lambda>i j. ri_score j \<le> ri_score i) srt"
    using sorted_sort_key [of "\<lambda>i. (- ri_score i, ri_id i)" all] unfolding srt_def [symmetric] sorted_map
    by (rule sorted_wrt_mono_rel [rotated]) (auto simp: less_eq_prod_def)
  then have ord: "sorted_wrt (\<lambda>i j. ri_score j \<le> ri_score i) items" unfolding items by (rule sorted_wrt_take)
  have len: "length items \<le> (case lm of Some (Suc n) \<Rightarrow> Suc n | _ \<Rightarrow> nat (limit_default (sv_retrieval sv)))"
    by (simp add: items)
  show ?thesis using origin sub dist ord len t items(2) by (intro conjI ballI) (blast, blast, assumption+, simp)
qed

definition indexed_demo :: "unit memory" where
  "indexed_demo = memory_run demo_service (empty_memory ()) (demo_ops @ [Index 0 ''c''])"

theorem retrieve_isolated_and_ranked_witness:
  "\<exists>item s'. retrieve demo_service 0 ''a'' ''c'' (Some 1) indexed_demo = (Inr [item], s')
     \<and> ri_conversation_id item = ''c'' \<and> ri_item_type item = Item_chunk
     \<and> (\<exists>k \<in> set (m_chunks indexed_demo). ck_conv k = ''c'' \<and> ck_raw k = ri_content item)"
proof -
  have "map ri_item_type (projr (fst (retrieve demo_service 0 ''a'' ''c'' (Some 1) indexed_demo))) = [Item_chunk]
      \<and> isl (fst (retrieve demo_service 0 ''a'' ''c'' (Some 1) indexed_demo)) = False" by code_simp
  then obtain item s' where r: "retrieve demo_service 0 ''a'' ''c'' (Some 1) indexed_demo = (Inr [item], s')" "ri_item_type item = Item_chunk"
    by (cases "retrieve demo_service 0 ''a'' ''c'' (Some 1) indexed_demo"; cases "fst (retrieve demo_service 0 ''a'' ''c'' (Some 1) indexed_demo)") auto
  then show ?thesis using retrieve_isolated_and_ranked [OF r(1)] by auto
qed

section \<open>Outages\<close>

lemma create_memory_unreachable:
  assumes down: "\<forall>w req. fst (sv_qdrant sv w req) = Transport_failed"
    and emb: "\<forall>w texts. \<exists>v vs w'. embed (sv_embed sv) (sv_model sv) texts w = (Inr (v # vs), w')"
    and ins: "insert_memory sv now spec s = Inr (i, s1)"
  shows "fst (create_memory sv now spec s) = Inl HTTPError \<and> m_memories (snd (create_memory sv now spec s)) = m_memories s1"
proof -
  obtain v vs w' where e: "embed (sv_embed sv) (sv_model sv) [take (sv_max_embed_chars sv) (spec_content spec)] (vs_world (m_vs s1)) = (Inr (v # vs), w')"
    using emb by blast
  define s2 where "s2 = s1\<lparr>m_vs := (m_vs s1)\<lparr>vs_world := w'\<rparr>\<rparr>"
  have s2: "safe_embed sv (spec_content spec) s1 = (Inr (Some v), s2)"
    using e by (simp add: safe_embed_def on_world_def on_vs_def s2_def)
  have up: "\<exists>s3. try_upsert sv p s2 = (Inl HTTPError, s3) \<and> m_memories s3 = m_memories s1" for p
  proof -
    obtain r u where u: "upsert (sv_qdrant sv) (sv_collection sv) [p] (length (pt_vector p)) (m_vs s2) = (r, u)" by fastforce
    then have "r = Inl HTTPError"
      using upsert_unreachable [of "sv_qdrant sv" "[p]" "sv_collection sv" "length (pt_vector p)" "m_vs s2"] down by simp
    then show ?thesis using u by (simp add: try_upsert_def on_vs_def s2_def)
  qed
  define p where "p = \<lparr>pt_id = i, pt_vector = v, pt_payload = [(''conversation_id'', JStr (spec_conversation_id spec)),
      (''kind'', JStr (kind_value (spec_kind spec))), (''memory_id'', JStr i)]\<rparr>"
  obtain s3 where "try_upsert sv p s2 = (Inl HTTPError, s3)" "m_memories s3 = m_memories s1" using up [of p] by blast
  then show ?thesis using s2 ins by (simp add: create_memory_def embed_and_upsert_def bind_s_def p_def)
qed

lemma retrieve_empty_embedding:
  assumes "\<forall>w req. fst (sv_embed sv w req) = Reply 200 (Some (JObj [(''data'', JArr [])]))"
  shows "fst (retrieve sv now q c lm s) = Inl (MemoryRaised IndexError)"
proof -
  have "\<exists>w'. embed (sv_embed sv) (sv_model sv) ts w = (Inr [], w')" for ts w
  proof (cases "sv_embed sv w (Http_post ''/embeddings'' (JObj [(''input'', JArr (map JStr ts)), (''model'', JStr (sv_model sv))]))")
    case (Pair reply w1)
    then have "reply = Reply 200 (Some (JObj [(''data'', JArr [])]))" using assms by (metis fst_conv)
    then show ?thesis using Pair by (simp add: embed_def is_success_def embedding_response_def)
  qed
  then obtain w' where "embed (sv_embed sv) (sv_model sv) [take (sv_max_embed_chars sv) q] (vs_world (m_vs s)) = (Inr [], w')"
    by blast
  then show ?thesis
    by (simp add: retrieve_def semantic_scores_def safe_embed_def on_world_def on_vs_def bind_s_def)
qed

text \<open>
  C38. Two outages that the service is meant to absorb escape it.  With an unreachable vector store,
  \<open>create_memory\<close> raises the \<open>httpx\<close> error after the record is committed.  With an embedding endpoint that
  answers an empty list, \<open>retrieve\<close> raises \<open>IndexError\<close> instead of falling back to the lexical search.
\<close>

theorem outages_escape_memory_service:
  assumes "\<forall>w req. fst (sv_qdrant sv w req) = Transport_failed"
    and "\<forall>w texts. \<exists>v vs w'. embed (sv_embed sv) (sv_model sv) texts w = (Inr (v # vs), w')"
    and "insert_memory sv now spec s = Inr (i, s1)"
    and "\<forall>w req. fst (sv_embed sv2 w req) = Reply 200 (Some (JObj [(''data'', JArr [])]))"
  shows "fst (create_memory sv now spec s) = Inl HTTPError
    \<and> m_memories (snd (create_memory sv now spec s)) = m_memories s1
    \<and> fst (retrieve sv2 now q c lm s) = Inl (MemoryRaised IndexError)"
  using create_memory_unreachable [OF assms(1-3)] retrieve_empty_embedding [OF assms(4)] by simp

definition demo_spec :: memory_create where
  "demo_spec = \<lparr>spec_kind = Fact, spec_content = ''x'', spec_conversation_id = ''00000000-0000-0000-0000-00000000000a'',
     spec_source_message_ids = [], spec_importance = 0, spec_supersedes = None, spec_metadata = JObj []\<rparr>"

definition one_vector_server :: "'w server" where
  "one_vector_server w req = (Reply 200 (Some (JObj [(''data'', JArr [JObj [(''embedding'', JArr [JInt 1])]])])), w)"

theorem outages_escape_memory_service_witness:
  "fst (create_memory (demo_service\<lparr>sv_qdrant := \<lambda>w req. (Transport_failed, w), sv_embed := one_vector_server\<rparr>) 0 demo_spec
      (empty_memory ())) = Inl HTTPError
   \<and> fst (retrieve (demo_service\<lparr>sv_embed := \<lambda>w req. (Reply 200 (Some (JObj [(''data'', JArr [])])), w)\<rparr>) 0 ''q'' ''c'' None
      (empty_memory ())) = Inl (MemoryRaised IndexError)"
proof -
  let ?sv = "demo_service\<lparr>sv_qdrant := \<lambda>w req. (Transport_failed, w), sv_embed := one_vector_server\<rparr>"
  have "isl (insert_memory ?sv 0 demo_spec (empty_memory ())) = False" by code_simp
  then obtain i s1 where i: "insert_memory ?sv 0 demo_spec (empty_memory ()) = Inr (i, s1)"
    by (cases "insert_memory ?sv 0 demo_spec (empty_memory ())") auto
  have "\<forall>w texts. \<exists>v vs w'. embed (sv_embed ?sv) (sv_model ?sv) texts w = (Inr (v # vs), w')"
    by (simp add: embed_def one_vector_server_def is_success_def embedding_response_def embedding_item_def)
  then show ?thesis
    using outages_escape_memory_service [OF _ _ i, of "demo_service\<lparr>sv_embed := \<lambda>w req. (Reply 200 (Some (JObj [(''data'', JArr [])])), w)\<rparr>"
        "''q''" "''c''" None] by simp
qed

section \<open>The life of a record\<close>

definition fixed_part :: "memory_row \<Rightarrow> memory_row" where
  "fixed_part r = r\<lparr>mr_status := Active, mr_superseded_by := None\<rparr>"

definition later_row :: "memory_row \<Rightarrow> memory_row \<Rightarrow> bool" where
  "later_row r r' \<longleftrightarrow> fixed_part r' = fixed_part r \<and> (mr_status r \<noteq> Active \<longrightarrow> mr_status r' \<noteq> Active)"

definition records_kept :: "'w memory \<Rightarrow> 'w memory \<Rightarrow> bool" where
  "records_kept s s' \<longleftrightarrow> length (m_memories s) \<le> length (m_memories s')
     \<and> (\<forall>i < length (m_memories s). later_row (m_memories s ! i) (m_memories s' ! i))"

text \<open>A superseded record names one of the same conversation that supersedes it.\<close>

definition chain_ok :: "'w service \<Rightarrow> 'w memory \<Rightarrow> bool" where
  "chain_ok sv s \<longleftrightarrow> distinct (map mr_id (m_memories s)) \<and>
     (\<forall>r \<in> set (m_memories s). sv_cast_uuid sv (mr_conv r) = Some (mr_conv r) \<and>
        (\<forall>b. mr_superseded_by r = Some b \<longrightarrow>
           (\<exists>r' \<in> set (m_memories s). mr_id r' = b \<and> mr_conv r' = mr_conv r \<and> mr_supersedes r' = Some (mr_id r))))"

text \<open>PostgreSQL reads the text of a UUID it printed as the same UUID.\<close>

definition cast_stable :: "'w service \<Rightarrow> bool" where
  "cast_stable sv \<longleftrightarrow> (\<forall>t u. sv_cast_uuid sv t = Some u \<longrightarrow> sv_cast_uuid sv u = Some u)"

lemma later_row_refl [simp]: "later_row r r"
  by (simp add: later_row_def)

lemma records_kept_refl [simp]: "records_kept s s"
  by (simp add: records_kept_def)

lemma records_kept_trans: "records_kept s t \<Longrightarrow> records_kept t u \<Longrightarrow> records_kept s u"
  by (auto simp: records_kept_def later_row_def)

lemma fixed_part_sel:
  "fixed_part r' = fixed_part r \<Longrightarrow> mr_id r' = mr_id r \<and> mr_conv r' = mr_conv r \<and> mr_supersedes r' = mr_supersedes r"
  by (auto simp: fixed_part_def dest: arg_cong [where f = mr_id] arg_cong [where f = mr_conv] arg_cong [where f = mr_supersedes])

lemma set_superseded_fixed [simp]: "fixed_part (set_superseded t b r) = fixed_part r"
  by (simp add: set_superseded_def fixed_part_def)

lemma set_superseded_later: "later_row r (set_superseded t b r)"
  by (simp add: later_row_def set_superseded_def fixed_part_def)

lemma records_kept_map:
  assumes "m_memories s' = map f (m_memories s) @ rest" "\<And>r. later_row r (f r)"
  shows "records_kept s s'"
  using assms by (simp add: records_kept_def nth_append)

lemma chain_ok_map:
  assumes "chain_ok sv s" "m_memories s' = map f (m_memories s)"
    and "\<And>r. fixed_part (f r) = fixed_part r \<and> mr_superseded_by (f r) = mr_superseded_by r"
  shows "chain_ok sv s'"
proof -
  have f: "mr_id (f r) = mr_id r \<and> mr_conv (f r) = mr_conv r \<and> mr_supersedes (f r) = mr_supersedes r" for r
    using assms(3) [of r] fixed_part_sel by blast
  then have "mr_id \<circ> f = mr_id" by (intro ext) simp
  then show ?thesis using assms(1) f assms(3) unfolding chain_ok_def assms(2) by (auto simp: comp_def)
qed

lemma supersede_target_row:
  assumes "supersede_target spec s = Inr (Some t)"
  shows "\<exists>r \<in> set (m_memories s). mr_id r = t \<and> mr_conv r = spec_conversation_id spec"
proof -
  obtain r where "find_memory t s = Some r" "mr_conv r = spec_conversation_id spec"
    using assms by (auto simp: supersede_target_def split: option.splits list.splits if_splits)
  then show ?thesis by (auto simp: find_memory_def find_Some_iff)
qed

lemma insert_memory_chain:
  assumes "insert_memory sv now spec s = Inr (i, s1)" "chain_ok sv s" "cast_stable sv"
  shows "chain_ok sv s1 \<and> records_kept s s1"
proof -
  obtain conv target meta where ins: "sv_cast_uuid sv (spec_conversation_id spec) = Some conv"
    "supersede_target spec s = Inr target" "i \<notin> mr_id ` set (m_memories s)"
    and s1: "m_memories s1 = (let rows = m_memories s @ [new_memory i conv target meta now spec] in
               case target of None \<Rightarrow> rows | Some t \<Rightarrow> map (set_superseded t i) rows)"
    using insert_memory_Inr [OF assms(1)] by fastforce
  have conv: "sv_cast_uuid sv conv = Some conv" using ins(1) assms(3) by (auto simp: cast_stable_def)
  define f where "f = (case target of None \<Rightarrow> (\<lambda>r. r) | Some t \<Rightarrow> set_superseded t i)"
  define new where "new = f (new_memory i conv target meta now spec)"
  have rows: "m_memories s1 = map f (m_memories s) @ [new]"
    using s1 by (cases target) (simp_all add: f_def new_def)
  have "later_row r (f r)" for r by (cases target) (simp_all add: f_def set_superseded_later)
  then have kept: "records_kept s s1" by (intro records_kept_map [OF rows])
  have fixed: "fixed_part (f r) = fixed_part r" for r by (cases target) (simp_all add: f_def)
  have sel: "mr_id (f r) = mr_id r \<and> mr_conv (f r) = mr_conv r \<and> mr_supersedes (f r) = mr_supersedes r" for r
    by (rule fixed_part_sel [OF fixed])
  have by_cases: "mr_superseded_by (f r) = mr_superseded_by r \<or> target = Some (mr_id r) \<and> mr_superseded_by (f r) = Some i" for r
    by (cases target) (auto simp: f_def set_superseded_def)
  have home: "mr_conv r = conv \<and> i \<noteq> mr_id r" if t: "target = Some (mr_id r)" "r \<in> set (m_memories s)" for r
  proof -
    obtain r0 where r0: "r0 \<in> set (m_memories s)" "mr_id r0 = mr_id r" "mr_conv r0 = spec_conversation_id spec"
      using supersede_target_row ins(2) t(1) by blast
    then have "r0 = r" using assms(2) t(2) by (auto simp: chain_ok_def distinct_map dest: inj_onD)
    moreover have "sv_cast_uuid sv (mr_conv r0) = Some (mr_conv r0)" using assms(2) r0(1) by (simp add: chain_ok_def)
    ultimately show ?thesis using ins(1,3) r0 by auto
  qed
  have new: "mr_id new = i" "mr_conv new = conv" "mr_supersedes new = target"
    using sel [of "new_memory i conv target meta now spec"] by (simp_all add: new_def new_memory_def)
  have "target \<noteq> Some i" using supersede_target_row [of spec s i] ins(2,3) by auto
  then have none: "mr_superseded_by new = None"
    using by_cases [of "new_memory i conv target meta now spec"] by (simp add: new_def new_memory_def)
  have chain: "\<exists>r' \<in> set (m_memories s1). mr_id r' = b \<and> mr_conv r' = mr_conv r \<and> mr_supersedes r' = Some (mr_id r)"
    if r: "r \<in> set (m_memories s)" "mr_superseded_by (f r) = Some b" for r b
  proof (cases "mr_superseded_by r = Some b")
    case True
    then obtain r' where "r' \<in> set (m_memories s)" "mr_id r' = b" "mr_conv r' = mr_conv r" "mr_supersedes r' = Some (mr_id r)"
      using assms(2) r(1) by (auto simp: chain_ok_def)
    then show ?thesis using sel [of r'] by (intro bexI [of _ "f r'"]) (auto simp: rows)
  next
    case False
    then have "target = Some (mr_id r)" "b = i" using by_cases [of r] r(2) by auto
    then show ?thesis using home [OF _ r(1)] new by (intro bexI [of _ new]) (auto simp: rows)
  qed
  have ids: "map mr_id (m_memories s1) = map mr_id (m_memories s) @ [i]" using sel new(1) by (simp add: rows comp_def)
  have "distinct (map mr_id (m_memories s1))" unfolding ids using assms(2) ins(3) by (simp add: chain_ok_def)
  moreover have "sv_cast_uuid sv (mr_conv r) = Some (mr_conv r) \<and>
        (\<forall>b. mr_superseded_by r = Some b \<longrightarrow>
           (\<exists>r' \<in> set (m_memories s1). mr_id r' = b \<and> mr_conv r' = mr_conv r \<and> mr_supersedes r' = Some (mr_id r)))"
    if r: "r \<in> set (m_memories s1)" for r
  proof (cases "r = new")
    case False
    then obtain r0 where r0: "r0 \<in> set (m_memories s)" "r = f r0" using r by (auto simp: rows)
    then show ?thesis using chain [OF r0(1)] sel [of r0] assms(2) by (simp add: chain_ok_def)
  qed (use new(2) conv none in simp)
  ultimately show ?thesis using kept by (simp add: chain_ok_def)
qed

lemma same_tables_memories: "same_tables s s' \<Longrightarrow> m_memories s' = m_memories s"
  by (simp add: same_tables_def)

lemma memories_eq: "m_memories s' = m_memories s \<Longrightarrow> chain_ok sv s \<Longrightarrow> chain_ok sv s' \<and> records_kept s s'"
  by (simp add: chain_ok_def records_kept_def)

lemma chunk_new_turns_memories: "m_memories (snd (chunk_new_turns sv now c s)) = m_memories s"
proof -
  have one: "settle_unit sv now c st u = Inr st' \<Longrightarrow> m_memories (fst st') = m_memories (fst st)" for st u st'
    by (cases st) (auto simp: settle_unit_def insert_chunk_def result_simps Let_def draw_uuid_def split: sum.splits if_splits)
  have "m_memories (fst st') = m_memories s" if "fold_r (settle_unit sv now c) (s, 0, None) us = Inr st'" for us st'
    by (rule fold_r_invariant [OF that, of "\<lambda>st. m_memories (fst st) = m_memories s"]) (use one in auto)
  then show ?thesis
    by (auto simp: chunk_new_turns_def Let_def split: sum.splits option.splits)
qed

lemma memory_step_chain:
  assumes "chain_ok sv s" "cast_stable sv"
  shows "chain_ok sv (memory_step sv s op) \<and> records_kept s (memory_step sv s op)"
proof (cases op)
  case (Index now c)
  have "m_memories (snd (index_completed_turns sv now c s)) = m_memories s"
  proof (cases "chunk_new_turns sv now c s")
    case (Pair r s1)
    then have s1: "m_memories s1 = m_memories s" using chunk_new_turns_memories [of sv now c s] by simp
    have "m_memories (snd (index_pending_chunks sv c s1)) = m_memories s1"
      by (rule same_tables_memories [OF same_tables_index_pending]) simp
    with s1 Pair show ?thesis
      by (auto simp: index_completed_turns_def bind_s_def split: sum.split prod.split)
  qed
  then show ?thesis unfolding memory_step_def Index memory_op.case by (rule memories_eq [OF _ assms(1)])
next
  case (Remember now spec)
  show ?thesis
  proof (cases "insert_memory sv now spec s")
    case (Inr p)
    obtain i s1 where p: "p = (i, s1)" by fastforce
    have s1: "chain_ok sv s1 \<and> records_kept s s1" by (rule insert_memory_chain [OF Inr [unfolded p] assms])
    have "m_memories (snd (create_memory sv now spec s)) = m_memories s1"
      by (rule same_tables_memories [OF create_memory_tables [OF Inr [unfolded p]]])
    then show ?thesis unfolding memory_step_def Remember memory_op.case
      using memories_eq [of _ s1] s1 records_kept_trans by blast
  qed (use assms(1) in \<open>simp add: memory_step_def Remember create_memory_def\<close>)
next
  case (Retire i st)
  let ?f = "\<lambda>r. if mr_id r = i \<and> mr_status r = Active then r\<lparr>mr_status := st\<rparr> else r"
  have m: "m_memories (memory_step sv s op) = map ?f (m_memories s)"
    by (simp add: memory_step_def Retire supersede_memory_def)
  have "later_row r (?f r)" for r by (simp add: later_row_def fixed_part_def)
  then have "records_kept s (memory_step sv s op)" using m by (intro records_kept_map [where rest = "[]" and f = ?f]) simp_all
  moreover have "chain_ok sv (memory_step sv s op)"
    by (rule chain_ok_map [OF assms(1) m]) (simp add: fixed_part_def)
  ultimately show ?thesis by simp
qed (simp_all add: memory_step_def memories_eq [OF _ assms(1)] same_tables_memories [OF same_tables_retrieve] same_tables_memories [OF same_tables_rebuild])

lemma memory_run_chain:
  assumes "cast_stable sv" "chain_ok sv s"
  shows "chain_ok sv (memory_run sv s ops) \<and> records_kept s (memory_run sv s ops)"
  using assms(2)
proof (induction ops arbitrary: s)
  case (Cons op ops)
  have "chain_ok sv (memory_step sv s op)" "records_kept s (memory_step sv s op)"
    using memory_step_chain [OF Cons.prems assms(1)] by auto
  with Cons.IH [of "memory_step sv s op"] show ?case by (auto simp: memory_run_def intro: records_kept_trans)
qed (simp add: memory_run_def)

text \<open>
  C37. Memories (\<open>create_memory\<close>, \<open>supersede_memory\<close>): over any run no record is removed or changed
  except in its status and successor, and one that is no longer active never becomes active again.  A
  record that names its successor names one of the same conversation that supersedes it.
\<close>

theorem memory_records_only_retire:
  assumes "cast_stable sv"
  shows "records_kept (memory_run sv (empty_memory w) ops) (memory_run sv (empty_memory w) (ops @ later))
    \<and> chain_ok sv (memory_run sv (empty_memory w) ops)"
proof -
  have e: "chain_ok sv (empty_memory w)" by (simp add: chain_ok_def empty_memory_def)
  have "chain_ok sv (memory_run sv (empty_memory w) ops)" using memory_run_chain [OF assms e] by blast
  with memory_run_chain [OF assms this, of later] show ?thesis by (simp add: memory_run_def)
qed

lemma demo_cast_stable: "cast_stable demo_service"
  by (auto simp: cast_stable_def demo_service_def UUID_uuid_str)

theorem memory_records_only_retire_witness:
  "records_kept (memory_run demo_service (empty_memory ()) [Remember 0 demo_spec])
     (memory_run demo_service (empty_memory ()) [Remember 0 demo_spec, Retire ''0'' Obsolete])
   \<and> map mr_status (m_memories (memory_run demo_service (empty_memory ()) [Remember 0 demo_spec, Retire ''0'' Obsolete])) = [Obsolete]"
proof (intro conjI)
  show "records_kept (memory_run demo_service (empty_memory ()) [Remember 0 demo_spec])
     (memory_run demo_service (empty_memory ()) [Remember 0 demo_spec, Retire ''0'' Obsolete])"
    using memory_records_only_retire [OF demo_cast_stable, of "()" "[Remember 0 demo_spec]" "[Retire ''0'' Obsolete]"] by simp
  show "map mr_status (m_memories (memory_run demo_service (empty_memory ()) [Remember 0 demo_spec, Retire ''0'' Obsolete])) = [Obsolete]"
    by code_simp
qed

text \<open>
  The conversation of the target is compared with the text of the request: another spelling of the same
  UUID is refused as a different conversation.
\<close>

lemma supersede_other_spelling:
  "supersede_target (demo_spec\<lparr>spec_conversation_id := ''00000000-0000-0000-0000-00000000000A'',
       spec_supersedes := Some ''00000000-0000-0000-0000-000000000001''\<rparr>)
     ((empty_memory ())\<lparr>m_memories := [new_memory ''00000000-0000-0000-0000-000000000001''
       ''00000000-0000-0000-0000-00000000000a'' None (JObj []) 0 demo_spec]\<rparr>)
   = Inl (MemoryValueError ''supersedes target belongs to a different conversation'')"
  by code_simp

end
