(* ===== verification/Metrics.thy ===== *)
theory Metrics
  imports PyJson
begin

text \<open>
  The metrics registry, \<open>observability/metrics.py\<close>: counters, gauges and histograms with their
  labels, their rendering in the Prometheus text format, and the accounting of tokens.

  Each method holds the lock of its collector, so that it is one step.  Values are rational numbers
  instead of floats; their decimal representation is a parameter \<open>fr\<close> of the rendering.
\<close>

section \<open>Model\<close>

subsection \<open>Names and labels\<close>

definition replace_char :: "char \<Rightarrow> string \<Rightarrow> string \<Rightarrow> string" where
  "replace_char c new s = concat (map (\<lambda>x. if x = c then new else [x]) s)"

definition backslash :: char where "backslash = CHR 0x5C"
definition quote :: char where "quote = CHR 0x22"

definition sanitize_label :: "string \<Rightarrow> string" where
  "sanitize_label value =
     (let t = take 128 (replace_char nl [backslash, CHR ''n'']
                (replace_char quote [backslash, quote] (replace_char backslash [backslash, backslash] value)))
      in if t = [] then ''unknown'' else t)"

definition name_char :: "char \<Rightarrow> bool" where
  "name_char c =
     (let n = (of_char c :: nat) in
      48 \<le> n \<and> n \<le> 58 \<or> 65 \<le> n \<and> n \<le> 90 \<or> n = 95 \<or> 97 \<le> n \<and> n \<le> 122)"

definition sanitize_name :: "string \<Rightarrow> string" where
  "sanitize_name value = map (\<lambda>c. if name_char c then c else CHR ''_'') value"

type_synonym label_key = "string list"

text \<open>The keys of a counter: \<open>inc\<close> takes any object as its key, and one caller passes a number.\<close>

datatype counter_key = Labels label_key | Number nat

text \<open>The key of \<open>.labels(...)\<close>: one value for each name, empty when it is not given.\<close>

definition label_key_of :: "string list \<Rightarrow> (string \<times> string) list \<Rightarrow> label_key" where
  "label_key_of labelnames labels =
     map (\<lambda>ln. sanitize_label (case map_of labels ln of None \<Rightarrow> [] | Some v \<Rightarrow> v)) labelnames"

definition setdefault :: "'k \<Rightarrow> 'v \<Rightarrow> ('k \<times> 'v) list \<Rightarrow> ('k \<times> 'v) list" where
  "setdefault k v d = (if map_of d k = None then AList.update k v d else d)"

definition get_default :: "('k \<times> 'v) list \<Rightarrow> 'k \<Rightarrow> 'v \<Rightarrow> 'v" where
  "get_default d k v = (case map_of d k of None \<Rightarrow> v | Some w \<Rightarrow> w)"

definition label_pair :: "string \<times> string \<Rightarrow> string" where
  "label_pair nv = fst nv @ ''='' @ [quote] @ snd nv @ [quote]"

definition label_pairs :: "(string \<times> string) list \<Rightarrow> string" where
  "label_pairs nvs = ''{'' @ str_join '','' (map label_pair nvs) @ ''}''"

definition label_part :: "string list \<Rightarrow> label_key \<Rightarrow> string" where
  "label_part labelnames key = (if labelnames = [] then [] else label_pairs (zip labelnames key))"

definition rendered_number :: "(rat \<Rightarrow> string) \<Rightarrow> rat \<Rightarrow> string" where
  "rendered_number fr value = (if value = of_int \<lfloor>value\<rfloor> then int_str \<lfloor>value\<rfloor> else fr value)"

definition value_line :: "(rat \<Rightarrow> string) \<Rightarrow> string \<Rightarrow> string \<Rightarrow> rat \<Rightarrow> string" where
  "value_line fr name labels value = name @ labels @ '' '' @ rendered_number fr value"

subsection \<open>Counters and gauges\<close>

record counter =
  ct_name :: string
  ct_documentation :: string
  ct_labelnames :: "string list"
  ct_values :: "(counter_key \<times> rat) list"

definition Counter :: "string \<Rightarrow> string \<Rightarrow> string list \<Rightarrow> counter" where
  "Counter name documentation labelnames =
     \<lparr>ct_name = sanitize_name name, ct_documentation = documentation, ct_labelnames = labelnames, ct_values = []\<rparr>"

definition counter_labels :: "counter \<Rightarrow> (string \<times> string) list \<Rightarrow> label_key \<times> counter" where
  "counter_labels c labels =
     (let key = label_key_of (ct_labelnames c) labels in (key, c\<lparr>ct_values := setdefault (Labels key) 0 (ct_values c)\<rparr>))"

definition counter_inc :: "counter \<Rightarrow> counter_key option \<Rightarrow> rat \<Rightarrow> counter result" where
  "counter_inc c key amount =
     (if key = None \<and> ct_labelnames c \<noteq> [] then Inl (ValueError ''labeled counter requires .labels()'')
      else
        let k = (case key of None \<Rightarrow> Labels [] | Some k \<Rightarrow> k) in
        Inr (c\<lparr>ct_values := AList.update k (get_default (ct_values c) k 0 + amount) (ct_values c)\<rparr>))"

text \<open>\<open>c.labels(...).inc(amount)\<close>, which has a key and does not raise.\<close>

definition bound_inc :: "counter \<Rightarrow> (string \<times> string) list \<Rightarrow> rat \<Rightarrow> counter" where
  "bound_inc c labels amount =
     (case counter_labels c labels of (key, c1) \<Rightarrow> (case counter_inc c1 (Some (Labels key)) amount of Inl _ \<Rightarrow> c1 | Inr c2 \<Rightarrow> c2))"

text \<open>\<open>sorted(self._values.items())\<close>: a number and a tuple cannot be compared.\<close>

fun label_items :: "(counter_key \<times> rat) list \<Rightarrow> (label_key \<times> rat) list" where
  "label_items [] = []"
| "label_items ((Labels k, v) # xs) = (k, v) # label_items xs"
| "label_items ((Number n, v) # xs) = label_items xs"

fun number_items :: "(counter_key \<times> rat) list \<Rightarrow> (nat \<times> rat) list" where
  "number_items [] = []"
| "number_items ((Number n, v) # xs) = (n, v) # number_items xs"
| "number_items ((Labels k, v) # xs) = number_items xs"

definition counter_lines :: "(rat \<Rightarrow> string) \<Rightarrow> counter \<Rightarrow> string list result" where
  "counter_lines fr c =
     (let labelled = label_items (ct_values c); numbered = number_items (ct_values c) in
      if labelled \<noteq> [] \<and> numbered \<noteq> [] then Inl TypeError
      else if numbered \<noteq> [] \<and> ct_labelnames c \<noteq> [] then Inl TypeError
      else Inr (map (\<lambda>(key, value). value_line fr (ct_name c) (label_part (ct_labelnames c) key) value) (sort_key fst labelled)
                @ map (\<lambda>(key, value). value_line fr (ct_name c) [] value) (sort_key fst numbered)))"

definition counter_render :: "(rat \<Rightarrow> string) \<Rightarrow> counter \<Rightarrow> string list result" where
  "counter_render fr c =
     bind_r (counter_lines fr c) (\<lambda>ls.
     Inr ([''# HELP '' @ ct_name c @ '' '' @ ct_documentation c, ''# TYPE '' @ ct_name c @ '' counter''] @ ls))"

record gauge =
  ga_name :: string
  ga_documentation :: string
  ga_labelnames :: "string list"
  ga_values :: "(label_key \<times> rat) list"

definition Gauge :: "string \<Rightarrow> string \<Rightarrow> string list \<Rightarrow> gauge" where
  "Gauge name documentation labelnames =
     \<lparr>ga_name = sanitize_name name, ga_documentation = documentation, ga_labelnames = labelnames, ga_values = []\<rparr>"

definition gauge_labels :: "gauge \<Rightarrow> (string \<times> string) list \<Rightarrow> label_key \<times> gauge" where
  "gauge_labels g labels =
     (let key = label_key_of (ga_labelnames g) labels in (key, g\<lparr>ga_values := setdefault key 0 (ga_values g)\<rparr>))"

definition gauge_set :: "gauge \<Rightarrow> label_key \<Rightarrow> rat \<Rightarrow> gauge" where
  "gauge_set g key value = g\<lparr>ga_values := AList.update key value (ga_values g)\<rparr>"

definition gauge_render :: "(rat \<Rightarrow> string) \<Rightarrow> gauge \<Rightarrow> string list" where
  "gauge_render fr g =
     [''# HELP '' @ ga_name g @ '' '' @ ga_documentation g, ''# TYPE '' @ ga_name g @ '' gauge'']
     @ map (\<lambda>(key, value). value_line fr (ga_name g) (label_part (ga_labelnames g) key) value) (sort_key fst (ga_values g))"

subsection \<open>Histograms\<close>

record histogram =
  hg_name :: string
  hg_documentation :: string
  hg_labelnames :: "string list"
  hg_buckets :: "rat list"
  hg_bucket_counts :: "(label_key \<times> nat list) list"
  hg_sums :: "(label_key \<times> rat) list"
  hg_counts :: "(label_key \<times> nat) list"

definition DEFAULT_BUCKETS :: "rat list" where
  "DEFAULT_BUCKETS =
     [5 / 1000, 1 / 100, 25 / 1000, 5 / 100, 1 / 10, 25 / 100, 1 / 2, 1, 25 / 10, 5, 10, 30]"

definition Histogram :: "string \<Rightarrow> string \<Rightarrow> string list \<Rightarrow> rat list \<Rightarrow> histogram" where
  "Histogram name documentation labelnames buckets =
     \<lparr>hg_name = sanitize_name name, hg_documentation = documentation, hg_labelnames = labelnames,
      hg_buckets = sort buckets, hg_bucket_counts = [], hg_sums = [], hg_counts = []\<rparr>"

text \<open>The entries of a label set seen for the first time.\<close>

definition new_series :: "histogram \<Rightarrow> label_key \<Rightarrow> histogram" where
  "new_series h key =
     (if map_of (hg_bucket_counts h) key \<noteq> None then h
      else h\<lparr>hg_bucket_counts := AList.update key (replicate (length (hg_buckets h)) 0) (hg_bucket_counts h),
             hg_sums := AList.update key 0 (hg_sums h), hg_counts := AList.update key 0 (hg_counts h)\<rparr>)"

definition histogram_labels :: "histogram \<Rightarrow> (string \<times> string) list \<Rightarrow> label_key \<times> histogram" where
  "histogram_labels h labels = (let key = label_key_of (hg_labelnames h) labels in (key, new_series h key))"

definition histogram_observe :: "histogram \<Rightarrow> label_key \<Rightarrow> rat \<Rightarrow> histogram result" where
  "histogram_observe h key value =
     (case map_of (hg_bucket_counts h) key of
        None \<Rightarrow> Inl KeyError
      | Some counts \<Rightarrow>
          Inr (h\<lparr>hg_bucket_counts := AList.update key
                   (map2 (\<lambda>b n. if value \<le> b then Suc n else n) (hg_buckets h) counts) (hg_bucket_counts h),
                 hg_sums := AList.update key (get_default (hg_sums h) key 0 + value) (hg_sums h),
                 hg_counts := AList.update key (Suc (get_default (hg_counts h) key 0)) (hg_counts h)\<rparr>))"

text \<open>\<open>h.labels(...).observe(value)\<close>\<close>

definition bound_observe :: "histogram \<Rightarrow> (string \<times> string) list \<Rightarrow> rat \<Rightarrow> histogram" where
  "bound_observe h labels value =
     (case histogram_labels h labels of (key, h1) \<Rightarrow>
        (case histogram_observe h1 key (max 0 value) of Inl _ \<Rightarrow> h1 | Inr h2 \<Rightarrow> h2))"

definition set_gauge_value :: "histogram \<Rightarrow> label_key \<Rightarrow> rat \<Rightarrow> histogram" where
  "set_gauge_value h key value = new_series h key"

definition series_lines :: "(rat \<Rightarrow> string) \<Rightarrow> histogram \<Rightarrow> label_key \<times> nat list \<Rightarrow> string list" where
  "series_lines fr h kc =
     (let (key, counts) = kc;
          base = hg_name h;
          pairs = zip (hg_labelnames h) key;
          total = int_str (int (get_default (hg_counts h) key 0));
          sum_labels = (if pairs = [] then [] else label_pairs pairs) in
      map2 (\<lambda>b n. base @ ''_bucket'' @ label_pairs (pairs @ [(''le'', fr b)]) @ '' '' @ int_str (int n)) (hg_buckets h) counts
      @ [base @ ''_bucket'' @ label_pairs (pairs @ [(''le'', ''+Inf'')]) @ '' '' @ total,
         base @ ''_sum'' @ sum_labels @ '' '' @ fr (get_default (hg_sums h) key 0),
         base @ ''_count'' @ sum_labels @ '' '' @ total])"

definition histogram_render :: "(rat \<Rightarrow> string) \<Rightarrow> histogram \<Rightarrow> string list" where
  "histogram_render fr h =
     [''# HELP '' @ hg_name h @ '' '' @ hg_documentation h, ''# TYPE '' @ hg_name h @ '' histogram'']
     @ concat (map (series_lines fr h) (sort_key fst (hg_bucket_counts h)))"

subsection \<open>The registry\<close>

datatype collector = Counter_collector counter | Histogram_collector histogram | Gauge_collector gauge

fun collector_render :: "(rat \<Rightarrow> string) \<Rightarrow> collector \<Rightarrow> string list result" where
  "collector_render fr (Counter_collector c) = counter_render fr c"
| "collector_render fr (Histogram_collector h) = Inr (histogram_render fr h)"
| "collector_render fr (Gauge_collector g) = Inr (gauge_render fr g)"

fun collector_reset :: "collector \<Rightarrow> collector" where
  "collector_reset (Counter_collector c) = Counter_collector (c\<lparr>ct_values := []\<rparr>)"
| "collector_reset (Histogram_collector h) =
     Histogram_collector (h\<lparr>hg_bucket_counts := [], hg_sums := [], hg_counts := []\<rparr>)"
| "collector_reset (Gauge_collector g) = Gauge_collector (g\<lparr>ga_values := []\<rparr>)"

type_synonym registry = "collector list"

definition register :: "registry \<Rightarrow> collector \<Rightarrow> registry" where
  "register r c = r @ [c]"

definition registry_reset :: "registry \<Rightarrow> registry" where
  "registry_reset r = map collector_reset r"

definition registry_render :: "(rat \<Rightarrow> string) \<Rightarrow> registry \<Rightarrow> string result" where
  "registry_render fr r =
     bind_r (map_r (collector_render fr) r) (\<lambda>blocks. Inr (str_join [nl] (concat (map (\<lambda>b. b @ [[]]) blocks))))"

text \<open>The collectors of the module, in the order in which they are registered.\<close>

record metrics =
  HTTP_REQUESTS_TOTAL :: counter
  HTTP_REQUEST_DURATION :: histogram
  UPSTREAM_DURATION :: histogram
  LLM_TOKENS_TOTAL :: counter
  DEGRADATIONS_TOTAL :: counter
  RATE_LIMIT_REJECTS_TOTAL :: counter
  RATE_LIMIT_EVICTED_TOTAL :: counter
  ASSISTANT_CAPTURE_OVERFLOW_TOTAL :: counter
  HTTP_STREAMS_ABORTED_TOTAL :: counter
  CLIENT_DISCONNECTS_TOTAL :: counter
  CIRCUIT_STATE :: gauge

definition new_metrics :: metrics where
  "new_metrics =
     \<lparr>HTTP_REQUESTS_TOTAL = Counter ''context_proxy_http_requests_total'' ''Total HTTP requests handled.''
        [''method'', ''route'', ''status''],
      HTTP_REQUEST_DURATION = Histogram ''context_proxy_http_request_duration_seconds'' ''End-to-end request latency.''
        [''route''] DEFAULT_BUCKETS,
      UPSTREAM_DURATION = Histogram ''context_proxy_upstream_duration_seconds''
        ''Upstream inference call latency (headers received).'' [''route'']
        [1 / 2, 1, 2, 5, 10, 20, 30, 60, 120, 300],
      LLM_TOKENS_TOTAL = Counter ''context_proxy_llm_tokens_total''
        ''Token accounting reported by the upstream provider.'' [''direction''],
      DEGRADATIONS_TOTAL = Counter ''context_proxy_degradations_total''
        ''Degraded operations that continued without a derived service.'' [''component''],
      RATE_LIMIT_REJECTS_TOTAL = Counter ''context_proxy_rate_limit_rejects_total''
        ''Requests rejected by the local rate limiter.'' [],
      RATE_LIMIT_EVICTED_TOTAL = Counter ''context_proxy_rate_limit_identities_evicted_total''
        ''Rate-limiter identity buckets removed by TTL expiry or capacity eviction (bounded-memory contract).'' [],
      ASSISTANT_CAPTURE_OVERFLOW_TOTAL = Counter ''context_proxy_assistant_capture_overflow_total''
        ''Streaming responses whose assistant capture was disabled after exceeding the configured size bound (passthrough unaffected).'' [],
      HTTP_STREAMS_ABORTED_TOTAL = Counter ''context_proxy_http_streams_aborted_total''
        ''Responses that started streaming but aborted before completion.'' [],
      CLIENT_DISCONNECTS_TOTAL = Counter ''context_proxy_client_disconnects_total''
        ''Requests abandoned by the client before completion.'' [],
      CIRCUIT_STATE = Gauge ''context_proxy_circuit_state'' ''Circuit-breaker state (1 = current state).'' [''state'']\<rparr>"

definition REGISTRY :: "metrics \<Rightarrow> registry" where
  "REGISTRY m =
     [Counter_collector (HTTP_REQUESTS_TOTAL m), Histogram_collector (HTTP_REQUEST_DURATION m),
      Histogram_collector (UPSTREAM_DURATION m), Counter_collector (LLM_TOKENS_TOTAL m),
      Counter_collector (DEGRADATIONS_TOTAL m), Counter_collector (RATE_LIMIT_REJECTS_TOTAL m),
      Counter_collector (RATE_LIMIT_EVICTED_TOTAL m), Counter_collector (ASSISTANT_CAPTURE_OVERFLOW_TOTAL m),
      Counter_collector (HTTP_STREAMS_ABORTED_TOTAL m), Counter_collector (CLIENT_DISCONNECTS_TOTAL m),
      Gauge_collector (CIRCUIT_STATE m)]"

text \<open>\<open>inc()\<close> of a counter without labels.\<close>

definition inc_plain :: "counter \<Rightarrow> counter" where
  "inc_plain c = (case counter_inc c None 1 of Inl _ \<Rightarrow> c | Inr c' \<Rightarrow> c')"

text \<open>
  What the rate limiter reports: a sweep that drops \<open>n\<close> buckets calls \<open>inc(len(stale))\<close>, whose first
  parameter is the key; an eviction for capacity calls \<open>inc()\<close>.
\<close>

definition report_expired :: "nat \<Rightarrow> metrics \<Rightarrow> metrics" where
  "report_expired n m =
     (if n = 0 then m
      else case counter_inc (RATE_LIMIT_EVICTED_TOTAL m) (Some (Number n)) 1 of
             Inl _ \<Rightarrow> m | Inr c \<Rightarrow> m\<lparr>RATE_LIMIT_EVICTED_TOTAL := c\<rparr>)"

definition report_evicted :: "metrics \<Rightarrow> metrics" where
  "report_evicted m = m\<lparr>RATE_LIMIT_EVICTED_TOTAL := inc_plain (RATE_LIMIT_EVICTED_TOTAL m)\<rparr>"

text \<open>A bool is an int to \<open>isinstance\<close>.\<close>

definition count_tokens :: "string \<Rightarrow> json \<Rightarrow> counter \<Rightarrow> counter" where
  "count_tokens direction v c =
     (case num_value v of None \<Rightarrow> c | Some n \<Rightarrow> bound_inc c [(''direction'', direction)] n)"

definition record_tokens :: "json \<Rightarrow> metrics \<Rightarrow> metrics" where
  "record_tokens usage m =
     (case usage of
        JObj u \<Rightarrow>
          m\<lparr>LLM_TOKENS_TOTAL := count_tokens ''completion'' (dget u ''completion_tokens'')
               (count_tokens ''prompt'' (dget u ''prompt_tokens'') (LLM_TOKENS_TOTAL m))\<rparr>
      | _ \<Rightarrow> m)"

definition publish_state :: "string \<Rightarrow> gauge \<Rightarrow> string \<Rightarrow> gauge" where
  "publish_state state g known =
     (case gauge_labels g [(''state'', known)] of (key, g1) \<Rightarrow> gauge_set g1 key (if known = state then 1 else 0))"

definition set_circuit_state :: "string \<Rightarrow> metrics \<Rightarrow> metrics" where
  "set_circuit_state state m =
     m\<lparr>CIRCUIT_STATE := foldl (publish_state state) (CIRCUIT_STATE m) [''closed'', ''open'', ''half_open'']\<rparr>"

section \<open>Lemmas\<close>

lemma get_default_update [simp]: "get_default (AList.update k v d) k' w = (if k' = k then v else get_default d k' w)"
  by (simp add: get_default_def update_conv')

lemma get_default_setdefault [simp]: "get_default (setdefault k v d) k' v = get_default d k' v"
  by (auto simp: setdefault_def get_default_def update_conv')

lemma bound_inc_values:
  "get_default (ct_values (bound_inc c labels amount)) key 0 =
     get_default (ct_values c) key 0 + (if key = Labels (label_key_of (ct_labelnames c) labels) then amount else 0)"
  by (simp add: bound_inc_def counter_labels_def counter_inc_def Let_def)

lemma bound_inc_labelnames [simp]: "ct_labelnames (bound_inc c labels amount) = ct_labelnames c"
  by (simp add: bound_inc_def counter_labels_def counter_inc_def Let_def)

lemma inc_plain_value:
  "ct_labelnames c = [] \<Longrightarrow> get_default (ct_values (inc_plain c)) (Labels []) 0 = get_default (ct_values c) (Labels []) 0 + 1"
  by (simp add: inc_plain_def counter_inc_def Let_def)

lemma plain_labels:
  "set s \<inter> {backslash, quote, nl} = {} \<Longrightarrow> s \<noteq> [] \<Longrightarrow> length s \<le> 128 \<Longrightarrow> sanitize_label s = s"
proof -
  assume s: "set s \<inter> {backslash, quote, nl} = {}" "s \<noteq> []" "length s \<le> 128"
  have "replace_char c new s = s" if "c \<notin> set s" for c new
    using that by (induction s) (auto simp: replace_char_def)
  then show ?thesis using s by (simp add: sanitize_label_def)
qed

text \<open>The escape of a quotation mark can lose its second half to the cut at 128 characters.\<close>

lemma label_cut_escape: "last (sanitize_label (replicate 127 (CHR ''a'') @ [quote])) = backslash"
  by (simp add: sanitize_label_def replace_char_def backslash_def quote_def nl_def)

text \<open>Exactly one state of the breaker is published as current.\<close>

lemma circuit_state_one_hot:
  assumes "ga_labelnames (CIRCUIT_STATE m) = [''state'']" "st \<in> {''closed'', ''open'', ''half_open''}"
    and "known \<in> {''closed'', ''open'', ''half_open''}"
  shows "map_of (ga_values (CIRCUIT_STATE (set_circuit_state st m))) [known] = Some (if known = st then 1 else 0)"
proof -
  have l: "sanitize_label ''closed'' = ''closed''" "sanitize_label ''open'' = ''open''" "sanitize_label ''half_open'' = ''half_open''"
    by (code_simp)+
  have p: "ga_labelnames (publish_state st g k) = ga_labelnames g"
    "ga_labelnames g = [''state''] \<Longrightarrow> map_of (ga_values (publish_state st g k)) q
       = (if q = [sanitize_label k] then Some (if k = st then 1 else 0) else map_of (ga_values g) q)" for g k q
    by (simp_all add: publish_state_def gauge_labels_def gauge_set_def label_key_of_def Let_def setdefault_def update_conv')
  show ?thesis using assms by (auto simp: set_circuit_state_def p l)
qed

text \<open>What a histogram holds for a label set: counts, sum and number of the values observed for it.\<close>

definition observe_all :: "histogram \<Rightarrow> ((string \<times> string) list \<times> rat) list \<Rightarrow> histogram" where
  "observe_all h obs = foldl (\<lambda>h (labels, v). bound_observe h labels v) h obs"

definition observed :: "string list \<Rightarrow> label_key \<Rightarrow> ((string \<times> string) list \<times> rat) list \<Rightarrow> rat list" where
  "observed labelnames key obs =
     map (\<lambda>(labels, v). max 0 v) (filter (\<lambda>(labels, v). label_key_of labelnames labels = key) obs)"

definition holds_series :: "histogram \<Rightarrow> label_key \<Rightarrow> rat list \<Rightarrow> bool" where
  "holds_series h key vs \<longleftrightarrow>
     map_of (hg_bucket_counts h) key =
       (if vs = [] then None else Some (map (\<lambda>b. length (filter (\<lambda>v. v \<le> b) vs)) (hg_buckets h)))
     \<and> get_default (hg_sums h) key 0 = sum_list vs \<and> get_default (hg_counts h) key 0 = length vs"

lemma bound_observe_fixed [simp]:
  "hg_buckets (bound_observe h labels v) = hg_buckets h" "hg_labelnames (bound_observe h labels v) = hg_labelnames h"
  by (simp_all add: bound_observe_def histogram_labels_def histogram_observe_def new_series_def Let_def split: option.split)

lemma map2_count:
  "map2 (\<lambda>b n. if v \<le> b then Suc n else n) bs (map f bs) = map (\<lambda>b. if v \<le> b then Suc (f b) else f b) bs"
  "map2 (\<lambda>b n. if v \<le> b then Suc n else n) bs (replicate (length bs) 0) = map (\<lambda>b. if v \<le> b then 1 else 0) bs"
  by (induction bs) auto

lemma observe_series:
  assumes "holds_series h key vs" "histogram_observe (new_series h k) k x = Inr h'"
  shows "holds_series h' key (if k = key then vs @ [x] else vs)"
proof -
  have "(\<lambda>b. if x \<le> b then Suc (length (filter (\<lambda>v. v \<le> b) vs)) else length (filter (\<lambda>v. v \<le> b) vs))
      = (\<lambda>b. length (filter (\<lambda>v. v \<le> b) (vs @ [x])))" by auto
  then show ?thesis using assms
    by (cases "vs = []") (auto simp: holds_series_def histogram_observe_def new_series_def update_conv' map2_count split: if_splits option.splits)
qed

lemma bound_observe_series:
  assumes "holds_series h key vs"
  shows "holds_series (bound_observe h labels v) key
    (if label_key_of (hg_labelnames h) labels = key then vs @ [max 0 v] else vs)"
proof -
  let ?k = "label_key_of (hg_labelnames h) labels"
  have "map_of (hg_bucket_counts (new_series h ?k)) ?k \<noteq> None" by (auto simp: new_series_def update_conv')
  then obtain h' where h': "histogram_observe (new_series h ?k) ?k (max 0 v) = Inr h'"
    by (auto simp: histogram_observe_def)
  then have "bound_observe h labels v = h'" by (simp add: bound_observe_def histogram_labels_def Let_def)
  with observe_series [OF assms h'] show ?thesis by simp
qed

lemma observe_all_series:
  "holds_series h key vs \<Longrightarrow> holds_series (observe_all h obs) key (vs @ observed (hg_labelnames h) key obs)
    \<and> hg_buckets (observe_all h obs) = hg_buckets h"
proof (induction obs arbitrary: h vs)
  case (Cons x obs)
  obtain labels v where x: "x = (labels, v)" by (cases x)
  show ?case using Cons.IH [OF bound_observe_series [OF Cons.prems, of labels v]]
    by (auto simp: x observe_all_def observed_def split: if_splits)
qed (simp add: observe_all_def observed_def)

text \<open>The reports of the rate limiter.\<close>

datatype rl_report = Expired nat | Evicted

fun report :: "metrics \<Rightarrow> rl_report \<Rightarrow> metrics" where
  "report m (Expired n) = report_expired n m"
| "report m Evicted = report_evicted m"

lemma items_nonempty:
  "label_items xs \<noteq> [] \<longleftrightarrow> (\<exists>k. Labels k \<in> fst ` set xs)" "number_items xs \<noteq> [] \<longleftrightarrow> (\<exists>n. Number n \<in> fst ` set xs)"
  by (induction xs rule: label_items.induct) force+

lemma counter_render_Inl:
  "ct_labelnames c = [] \<Longrightarrow> counter_render fr c = Inl TypeError
     \<longleftrightarrow> (\<exists>k. Labels k \<in> fst ` set (ct_values c)) \<and> (\<exists>n. Number n \<in> fst ` set (ct_values c))"
  by (simp add: counter_render_def counter_lines_def Let_def items_nonempty [symmetric])

lemma report_step:
  assumes "ct_labelnames (RATE_LIMIT_EVICTED_TOTAL m) = []"
  shows "ct_labelnames (RATE_LIMIT_EVICTED_TOTAL (report m r)) = []"
    "fst ` set (ct_values (RATE_LIMIT_EVICTED_TOTAL (report m r))) = fst ` set (ct_values (RATE_LIMIT_EVICTED_TOTAL m))
       \<union> (case r of Evicted \<Rightarrow> {Labels []} | Expired n \<Rightarrow> if n = 0 then {} else {Number n})"
    "RATE_LIMIT_EVICTED_TOTAL_update (\<lambda>_. c) (report m r) = RATE_LIMIT_EVICTED_TOTAL_update (\<lambda>_. c) m"
  using assms by (cases r; simp add: report_expired_def report_evicted_def inc_plain_def counter_inc_def Let_def dom_update)+

lemma report_run:
  assumes "ct_labelnames (RATE_LIMIT_EVICTED_TOTAL m) = []"
  shows "ct_labelnames (RATE_LIMIT_EVICTED_TOTAL (foldl report m rs)) = []
    \<and> fst ` set (ct_values (RATE_LIMIT_EVICTED_TOTAL (foldl report m rs))) = fst ` set (ct_values (RATE_LIMIT_EVICTED_TOTAL m))
       \<union> (if Evicted \<in> set rs then {Labels []} else {}) \<union> {Number (Suc n) | n. Expired (Suc n) \<in> set rs}
    \<and> (\<forall>c. RATE_LIMIT_EVICTED_TOTAL_update (\<lambda>_. c) (foldl report m rs) = RATE_LIMIT_EVICTED_TOTAL_update (\<lambda>_. c) m)"
  using assms
proof (induction rs arbitrary: m)
  case (Cons r rs)
  show ?case unfolding foldl.simps using Cons.IH [OF report_step(1) [OF Cons.prems, where r = r]] report_step(2,3) [OF Cons.prems, where r = r]
    by (cases r) (auto split: if_splits dest: gr0_implies_Suc)
qed simp

lemma counter_render_TypeError: "counter_render fr c = Inl e \<Longrightarrow> e = TypeError"
  by (auto simp: counter_render_def counter_lines_def Let_def split: if_splits)

lemma registry_render_Inl: "registry_render fr r = Inl TypeError \<longleftrightarrow> (\<exists>c. Counter_collector c \<in> set r \<and> counter_render fr c = Inl TypeError)"
proof -
  have e: "collector_render fr x = Inl e \<longleftrightarrow> e = TypeError \<and> (\<exists>c. x = Counter_collector c \<and> counter_render fr c = Inl TypeError)" for x e
    by (cases x) (auto dest: counter_render_TypeError)
  have "map_r (collector_render fr) r = Inl TypeError \<longleftrightarrow> (\<exists>x \<in> set r. collector_render fr x = Inl TypeError)"
    by (induction r) (auto simp: result_simps e not_Inl_iff [symmetric])
  then show ?thesis by (auto simp: registry_render_def result_simps e)
qed

lemma new_counter_renders: "counter_render fr (Counter name documentation labelnames) \<noteq> Inl TypeError"
  by (simp add: counter_render_def counter_lines_def Counter_def)

lemma new_registry:
  "registry_render fr (REGISTRY (RATE_LIMIT_EVICTED_TOTAL_update (\<lambda>_. c) new_metrics)) = Inl TypeError
   \<longleftrightarrow> counter_render fr c = Inl TypeError"
  by (auto simp: registry_render_Inl REGISTRY_def new_metrics_def new_counter_renders)

section \<open>Properties\<close>

text \<open>
  C39. A histogram counts what it is given: after any interleaving of observations under any labels,
  each label set has one count for every bound, the number of its values up to that bound, and the
  sum and the number of its values; a label set without values has no series.  Counts are
  therefore cumulative, and the last one never exceeds the count reported for \<open>+Inf\<close>.
\<close>

theorem histogram_counts_observations:
  "let h = observe_all (Histogram name documentation labelnames buckets) obs;
       vs = observed labelnames key obs
   in map_of (hg_bucket_counts h) key =
        (if vs = [] then None else Some (map (\<lambda>b. length (filter (\<lambda>v. v \<le> b) vs)) (sort buckets)))
      \<and> get_default (hg_sums h) key 0 = sum_list vs \<and> get_default (hg_counts h) key 0 = length vs
      \<and> sorted (get_default (hg_bucket_counts h) key [] @ [get_default (hg_counts h) key 0])"
proof -
  define h where "h = observe_all (Histogram name documentation labelnames buckets) obs"
  define vs where "vs = observed labelnames key obs"
  have h: "holds_series h key vs" "hg_buckets h = sort buckets"
    using observe_all_series [of "Histogram name documentation labelnames buckets" key "[]" obs]
    by (auto simp: h_def vs_def holds_series_def Histogram_def get_default_def)
  have mono: "length (filter (\<lambda>v. v \<le> a) vs) \<le> length (filter (\<lambda>v. v \<le> b) vs)" if "a \<le> b" for a b
    using that by (induction vs) auto
  have "sorted (map (\<lambda>b. length (filter (\<lambda>v. v \<le> b) vs)) (sort buckets) @ [length vs])"
    by (auto simp: sorted_append sorted_map intro: sorted_wrt_mono_rel [OF mono sorted_sort])
  with h show ?thesis unfolding Let_def h_def [symmetric] vs_def [symmetric]
    by (auto simp: holds_series_def get_default_def)
qed

text \<open>
  C40. The metrics endpoint breaks: after any reports of the rate limiter, rendering the registry raises
  \<open>TypeError\<close> exactly if a sweep has dropped idle buckets and another one was evicted for capacity, in
  either order, since the counter then has a number as a key beside the empty tuple.
\<close>

theorem metrics_break_after_evictions:
  "registry_render fr (REGISTRY (foldl report new_metrics reports)) = Inl TypeError
   \<longleftrightarrow> Evicted \<in> set reports \<and> (\<exists>n. Expired (Suc n) \<in> set reports)"
proof -
  let ?m = "foldl report new_metrics reports"
  let ?c = "RATE_LIMIT_EVICTED_TOTAL ?m"
  have new: "ct_labelnames (RATE_LIMIT_EVICTED_TOTAL new_metrics) = []" "ct_values (RATE_LIMIT_EVICTED_TOTAL new_metrics) = []"
    by (simp_all add: new_metrics_def Counter_def)
  note run = report_run [OF new(1), of reports]
  have "counter_render fr ?c = Inl TypeError \<longleftrightarrow> Evicted \<in> set reports \<and> (\<exists>n. Expired (Suc n) \<in> set reports)"
    using run by (auto simp: counter_render_Inl new(2))
  moreover have "?m = RATE_LIMIT_EVICTED_TOTAL_update (\<lambda>_. ?c) new_metrics"
    using run [THEN conjunct2, THEN conjunct2, THEN spec, of ?c] by simp
  from arg_cong [OF this, of "\<lambda>m. registry_render fr (REGISTRY m) = Inl TypeError"]
  have "registry_render fr (REGISTRY ?m) = Inl TypeError \<longleftrightarrow> counter_render fr ?c = Inl TypeError"
    by (simp only: new_registry)
  ultimately show ?thesis by simp
qed

end
