(* ===== verification/Config.thy ===== *)
theory Config
  imports Engine Identity
begin

text \<open>
  The settings, \<open>config.py\<close>, as far as the request path reads them: the validators that run when
  a settings object is built, and the usable budget.  A field with the constraint \<open>ge=0\<close> or \<open>gt=0\<close>
  that no other check reads is a natural number.  Reading environment variables and files is the work of
  pydantic and not modelled.
\<close>

section \<open>Context budget\<close>

record context_settings =
  model_limit_tokens :: int
  safety_margin_tokens :: int
  pinned_budget_tokens :: nat
  recent_target_tokens :: nat
  recent_min_tokens :: nat
  recent_max_tokens :: nat

text \<open>The constraints of the fields, then \<open>_margin_within_limit\<close>.\<close>

definition ContextSettings :: "int \<Rightarrow> int \<Rightarrow> nat \<Rightarrow> nat \<Rightarrow> nat \<Rightarrow> nat \<Rightarrow> context_settings result" where
  "ContextSettings limit margin pinned target minimum maximum =
     (if limit \<le> 0 \<or> margin < 0 \<or> target = 0 \<or> minimum = 0 \<or> maximum = 0
      then Inl (ValueError ''field constraint'')
      else if margin \<ge> limit
      then Inl (ValueError ''safety_margin_tokens must be smaller than model_limit_tokens'')
      else Inr \<lparr>model_limit_tokens = limit, safety_margin_tokens = margin, pinned_budget_tokens = pinned,
                recent_target_tokens = target, recent_min_tokens = minimum, recent_max_tokens = maximum\<rparr>)"

definition usable_budget_tokens :: "context_settings \<Rightarrow> int" where
  "usable_budget_tokens c = model_limit_tokens c - safety_margin_tokens c"

lemma usable_budget_positive:
  "ContextSettings limit margin pinned target minimum maximum = Inr c \<Longrightarrow>
     0 < usable_budget_tokens c \<and> usable_budget_tokens c \<le> model_limit_tokens c"
  by (auto simp: ContextSettings_def usable_budget_tokens_def split: if_splits)

section \<open>Security\<close>

datatype security_mode = Development | Production

record security_settings =
  sec_mode :: security_mode
  internal_auth_token :: string

text \<open>\<open>_production_requires_internal_auth\<close>\<close>

definition SecuritySettings :: "security_mode \<Rightarrow> string \<Rightarrow> security_settings result" where
  "SecuritySettings mode token =
     (if mode = Production \<and> token = []
      then Inl (ValueError ''SECURITY__INTERNAL_AUTH_TOKEN must be configured when SECURITY__MODE=production: refusing to expose /internal/* without authentication (fail-closed policy)'')
      else Inr \<lparr>sec_mode = mode, internal_auth_token = token\<rparr>)"

section \<open>All settings\<close>

record server_settings =
  max_body_bytes :: nat
  max_capture_bytes :: nat

record memory_settings =
  auto_index :: bool

record settings =
  cf_server :: server_settings
  cf_context :: context_settings
  cf_assembly_enabled :: bool
  cf_assembly :: assembly_settings
  cf_conversation :: conversation_settings
  cf_retrieval :: retrieval_settings
  cf_memory :: memory_settings
  cf_security :: security_settings
  cf_base_url :: string

text \<open>The engine that \<open>create_app\<close> builds from the settings; an error there keeps the application from starting.\<close>

definition context_engine :: "settings \<Rightarrow> engine option result" where
  "context_engine cf =
     (if cf_assembly_enabled cf
      then bind_r (ContextAssemblyEngine (usable_budget_tokens (cf_context cf)) (cf_assembly cf) (cf_retrieval cf)
                     TokenCounter cosine_similarity) (\<lambda>en. Inr (Some en))
      else Inr None)"

end
