(* ===== verification/Routes.thy ===== *)
theory Routes
  imports Memory Engine Validation Resilience Capture Metrics Config
begin

text \<open>
  The public interface, \<open>api/routes.py\<close> with \<open>api/responses.py\<close>: a chat request is parsed, validated and
  given its conversation, its messages are stored, the context is assembled, the inference endpoint is
  called, and the answer is stored and indexed.

  A stage of the handler is a function on the state that returns a value or ends the request.  What the handler
  learns from outside is part of the request.  A handler runs without another one between its steps; the
  transactions of the store and the steps of the breaker are the subject of their own theories.
\<close>

section \<open>Responses\<close>

text \<open>
  A response as the handler builds it: header names keep their spelling and compare without
  regard to case; the length and the default content type that Starlette adds are left out.
\<close>

datatype response_body = Json_body json | Bytes_body string | Stream_body llm_stream

record http_response =
  hr_status :: int
  hr_headers :: headers
  hr_body :: response_body

definition opt_str :: "string option \<Rightarrow> json" where
  "opt_str v = (case v of None \<Rightarrow> JNull | Some s \<Rightarrow> JStr s)"

definition openai_error ::
  "string \<Rightarrow> string \<Rightarrow> string option \<Rightarrow> string option \<Rightarrow> int \<Rightarrow> headers \<Rightarrow> http_response"
where
  "openai_error message err_type code param status_code headers =
     \<lparr>hr_status = status_code, hr_headers = headers,
      hr_body = Json_body (JObj [(''error'', JObj [(''message'', JStr message), (''type'', JStr err_type),
        (''param'', opt_str param), (''code'', opt_str code)])])\<rparr>"

text \<open>
  \<open>json.loads\<close> of bytes: a byte order mark or a zero byte at the start selects another encoding, which is
  not modelled.
\<close>

definition loads_bytes :: "nat list \<Rightarrow> json result" where
  "loads_bytes b =
     (if take 1 b = [254] \<or> take 1 b = [255] \<or> take 3 b = [239, 187, 191] \<or> 0 \<in> set (take 4 b) then Inl Unmodelled
      else bind_r (utf8_decode b) json_loads)"

text \<open>The text of a decoding error in the message is left out.\<close>

definition parse_json_body :: "nat list \<Rightarrow> pydict result" where
  "parse_json_body b =
     (case loads_bytes b of
        Inl Unmodelled \<Rightarrow> Inl Unmodelled
      | Inl e \<Rightarrow> Inl (ValueError ''invalid JSON body'')
      | Inr (JObj d) \<Rightarrow> Inr d
      | Inr _ \<Rightarrow> Inl (ValueError ''request body must be a JSON object''))"

definition upstream_response :: "int \<Rightarrow> headers \<Rightarrow> string \<Rightarrow> http_response" where
  "upstream_response status_code headers body =
     \<lparr>hr_status = status_code, hr_headers = ensure_content_type headers DEFAULT_CONTENT_TYPE, hr_body = Bytes_body body\<rparr>"

definition streaming_response :: "llm_stream \<Rightarrow> http_response" where
  "streaming_response stream =
     (let headers = stream_headers stream in
      \<lparr>hr_status = rs_status (ls_response stream),
       hr_headers = (if list_ex (\<lambda>nv. lower (fst nv) = ''content-type'') headers then headers
                     else AList.update ''Content-Type'' ''text/event-stream'' headers),
       hr_body = Stream_body stream\<rparr>)"

definition bytes_of :: "string \<Rightarrow> nat list" where
  "bytes_of s = map of_char s"

text \<open>The response to an error of the provider; only \<open>ContextProxyError\<close> and its subclasses reach it.\<close>

definition error_body_response :: "provider_error \<Rightarrow> http_response result" where
  "error_body_response exc =
     (case exc of
        UpstreamHTTPError e \<Rightarrow>
          let headers = he_headers e;
              fallback = openai_error ''upstream inference endpoint returned an error'' ''upstream_error'' None None
                (he_status e) (filter (\<lambda>nv. lower (fst nv) \<noteq> ''content-type'') headers) in
          if starts_with ''application/json'' (he_content_type e) then
            (case loads_bytes (bytes_of (he_body e)) of
               Inr _ \<Rightarrow> Inr \<lparr>hr_status = he_status e, hr_headers = ensure_content_type headers (he_content_type e),
                          hr_body = Bytes_body (he_body e)\<rparr>
             | Inl (ValueError _) \<Rightarrow> Inr fallback
             | Inl err \<Rightarrow> Inl err)
          else Inr fallback
      | UpstreamUnavailable _ \<Rightarrow>
          Inr (openai_error ''upstream inference endpoint is unavailable'' ''api_error'' (Some ''upstream_unavailable'') None 502 [])
      | Propagated _ \<Rightarrow>
          Inr (openai_error ''Internal server error'' ''internal_error'' (Some ''internal_error'') None 500 []))"

section \<open>Application\<close>

record 'w app =
  ap_settings :: settings
  ap_engine :: "engine option"
  ap_store :: bool
  ap_memory :: bool
  ap_service :: "'w service"
  ap_breaker :: breaker_config
  ap_resilience :: resilience_settings

text \<open>The state the handlers share; \<open>as_sent\<close> lists the calls put on the wire to the inference endpoint.\<close>

datatype upstream_call = Get_models | Post_chat pydict

record 'w app_state =
  as_memory :: "'w memory"
  as_breaker :: breaker
  as_metrics :: metrics
  as_sent :: "upstream_call list"

text \<open>
  A request with everything the handler learns from outside while it serves it: what the \<open>k\<close>-th call to the store
  raises when the database does not answer, the clocks, the outcomes of the attempts to send, the chunks of a
  streamed response, and, when the timer cuts the indexing off, the state in which it leaves the memory.
\<close>

record 'w request =
  rq_headers :: request_headers
  rq_body :: "nat list"
  rq_random :: uuid
  rq_db_fault :: "nat \<Rightarrow> db_fault option"
  rq_now :: real
  rq_clock :: "nat \<Rightarrow> rat"
  rq_upstream :: "upstream_call \<Rightarrow> nat \<Rightarrow> send_error + response"
  rq_chunks :: "response \<Rightarrow> string list"
  rq_index_cut :: "'w memory \<Rightarrow> 'w memory option"

datatype route_error = Python pyerr | From_send send_error | From_memory memory_error | From_database db_fault

text \<open>\<open>_PERSISTENCE_INFRA_ERRORS\<close>\<close>

definition infra_error :: "db_fault \<Rightarrow> bool" where
  "infra_error f = (case f of Unexpected_fault e \<Rightarrow> False | _ \<Rightarrow> True)"

text \<open>What a stream needs at its end: the conversation, its messages, and whether there is a store.\<close>

record persist_closure =
  pc_conversation :: string
  pc_messages :: "pydict list"
  pc_store :: bool

datatype outcome =
    Responded http_response
  | Streaming http_response llm_stream persist_closure
  | Failed route_error

definition RESPONSE_CONVERSATION_HEADER :: string where
  "RESPONSE_CONVERSATION_HEADER = ''X-Conversation-ID''"

definition conversation_headers :: "string option \<Rightarrow> headers" where
  "conversation_headers conversation_id =
     (case conversation_id of None \<Rightarrow> [] | Some c \<Rightarrow> [(RESPONSE_CONVERSATION_HEADER, c)])"

text \<open>\<open>response.headers[name] = value\<close>: the first header of that name is replaced and the others go.\<close>

fun set_header :: "string \<Rightarrow> string \<Rightarrow> headers \<Rightarrow> headers" where
  "set_header name value [] = [(name, value)]"
| "set_header name value ((k, v) # hs) =
     (if lower k = lower name then (k, value) # filter (\<lambda>nv. lower (fst nv) \<noteq> lower name) hs
      else (k, v) # set_header name value hs)"

definition with_headers :: "headers \<Rightarrow> http_response \<Rightarrow> http_response" where
  "with_headers extra r = foldl (\<lambda>r (name, value). r\<lparr>hr_headers := set_header name value (hr_headers r)\<rparr>) r extra"

section \<open>Stages of a request\<close>

text \<open>A stage returns a value or ends the request with an outcome.\<close>

type_synonym ('w, 'a) stage = "'w app_state \<Rightarrow> (outcome + 'a) \<times> 'w app_state"

abbreviation fail :: "route_error \<Rightarrow> ('w, 'a) stage" where
  "fail e \<equiv> Pair (Inl (Failed e))"

abbreviation respond :: "http_response \<Rightarrow> ('w, 'a) stage" where
  "respond r \<equiv> Pair (Inl (Responded r))"

text \<open>The \<open>messages\<close> of a payload; validation has checked that they are objects.\<close>

definition message_list :: "json \<Rightarrow> pydict list result" where
  "message_list v =
     (case or_else v (JArr []) of
        JArr vs \<Rightarrow> map_r (\<lambda>v. case v of JObj m \<Rightarrow> Inr m | _ \<Rightarrow> Inl Unmodelled) vs
      | _ \<Rightarrow> Inl Unmodelled)"

definition receive_payload :: "'w request \<Rightarrow> ('w, pydict) stage" where
  "receive_payload rq =
     (let rejected = (\<lambda>t. respond (openai_error t ''invalid_request_error'' (Some ''invalid_request_body'') None 400 [])) in
      case parse_json_body (rq_body rq) of
        Inl (ValueError t) \<Rightarrow> rejected t
      | Inl e \<Rightarrow> fail (Python e)
      | Inr payload \<Rightarrow> (case validate_chat_payload (JObj payload) of Inl t \<Rightarrow> rejected t | Inr _ \<Rightarrow> Pair (Inr payload)))"

definition identify :: "'w app \<Rightarrow> 'w request \<Rightarrow> pydict \<Rightarrow> ('w, string \<times> pydict) stage" where
  "identify ap rq payload =
     (case resolve_conversation_id (rq_headers rq) payload (Some (cf_conversation (ap_settings ap))) (rq_random rq) of
        Inl (InvalidConversationId t) \<Rightarrow>
          respond (openai_error t ''invalid_request_error'' (Some ''invalid_conversation_id'') None 400 [])
      | Inr r \<Rightarrow> Pair (Inr r))"

text \<open>
  The inbound messages are stored; the result says whether there is still a store.  The call to
  \<open>ensure_conversation\<close> is a transaction of its own.
\<close>

definition set_db :: "db \<Rightarrow> 'w app_state \<Rightarrow> 'w app_state" where
  "set_db d s = s\<lparr>as_memory := (as_memory s)\<lparr>m_db := d\<rparr>\<rparr>"

definition divergence_text :: "divergence \<Rightarrow> string" where
  "divergence_text dv =
     ''conversation '' @ dv_conversation dv @ '': incoming message '' @ int_str (int (dv_index dv))
     @ '' diverges from persisted history''
     @ (case (dv_persisted_hash dv, dv_incoming_hash dv) of
          (Some p, Some i) \<Rightarrow>
            '' [persisted_sha256='' @ p @ '' incoming_sha256='' @ i
            @ '' different_fields='' @ py_repr (JArr (map JStr (dv_fields dv))) @ '']''
        | _ \<Rightarrow> [])"

text \<open>A fault of the database leaves the request without a store, or leaves the handler.\<close>

definition store_failed :: "db_fault \<Rightarrow> outcome + bool" where
  "store_failed f = (if infra_error f then Inr False else Inl (Failed (From_database f)))"

definition persist_inbound :: "'w app \<Rightarrow> 'w request \<Rightarrow> string \<Rightarrow> pydict list \<Rightarrow> ('w, bool) stage" where
  "persist_inbound ap rq conversation_id messages s =
     (if \<not> ap_store ap then (Inr False, s)
      else
        case rq_db_fault rq 0 of
          Some f \<Rightarrow> (store_failed f, s)
        | None \<Rightarrow>
        let d1 = ensure_conversation conversation_id (m_db (as_memory s)) in
        case rq_db_fault rq 1 of
          Some f \<Rightarrow> (store_failed f, set_db d1 s)
        | None \<Rightarrow>
          (case projection_reconcile_history (sv_pg (ap_service ap)) d1 conversation_id messages JNull of
             (d2, Inr _) \<Rightarrow> (Inr True, set_db d2 s)
           | (d2, Inl (Divergence dv)) \<Rightarrow>
               (Inl (Responded (openai_error (divergence_text dv) ''invalid_request_error'' (Some ''history_conflict'') None 409
                  (conversation_headers (Some conversation_id)))), set_db d2 s)
           | (d2, Inl DatabaseError) \<Rightarrow> (Inr False, set_db d2 s)
           | (d2, Inl (StoreRaised e)) \<Rightarrow> (Inl (Failed (Python e)), set_db d2 s)))"

text \<open>Retrieval, when there is an engine, a memory service and a query.\<close>

definition retrieve_context :: "'w app \<Rightarrow> 'w request \<Rightarrow> string \<Rightarrow> pydict list \<Rightarrow> ('w, retrieved_item list) stage" where
  "retrieve_context ap rq conversation_id messages s =
     (let query = extract_retrieval_query messages in
      if \<not> ap_memory ap \<or> query = [] then (Inr [], s)
      else
        (case retrieve (ap_service ap) (rq_now rq) query conversation_id None (as_memory s) of
           (Inr items, mem) \<Rightarrow> (Inr items, s\<lparr>as_memory := mem\<rparr>)
         | (Inl RetrievalError, mem) \<Rightarrow> (Inr [], s\<lparr>as_memory := mem\<rparr>)
         | (Inl e, mem) \<Rightarrow> (Inl (Failed (From_memory e)), s\<lparr>as_memory := mem\<rparr>)))"

text \<open>The two ways to assemble the messages; an overflow is a value of the error type.\<close>

datatype assembly_error = Overflow string | Assembly_raised pyerr

definition overflow_text :: "string \<Rightarrow> int \<Rightarrow> int \<Rightarrow> string" where
  "overflow_text what required usable =
     what @ '' requires '' @ int_str required @ '' tokens, usable budget is '' @ int_str usable"

definition engine_assemble ::
  "engine \<Rightarrow> retrieved_item list \<Rightarrow> string \<Rightarrow> pydict list \<Rightarrow> pydict list \<Rightarrow> json \<Rightarrow> assembly_error + pydict list"
where
  "engine_assemble en retrieved conversation_id history current_request tools =
     (case build en history current_request tools [] retrieved [] (Some conversation_id) of
        Inl (EngineOverflow required usable) \<Rightarrow> Inl (Overflow (overflow_text ''context'' required usable))
      | Inl (EngineRaised e) \<Rightarrow> Inl (Assembly_raised e)
      | Inr plan \<Rightarrow> Inr (ep_messages plan))"

definition planner_assemble ::
  "context_settings \<Rightarrow> pydict list \<Rightarrow> pydict list \<Rightarrow> json \<Rightarrow> assembly_error + pydict list"
where
  "planner_assemble cs history current_request tools =
     (case plan_context TokenCounter history current_request tools (usable_budget_tokens cs) (int (pinned_budget_tokens cs)) of
        Inl (ContextOverflowError required usable) \<Rightarrow> Inl (Overflow (overflow_text ''request'' required usable))
      | Inl (Raised e) \<Rightarrow> Inl (Assembly_raised e)
      | Inr plan \<Rightarrow> Inr (cp_messages plan))"

definition overflow_response :: "string \<Rightarrow> string \<Rightarrow> http_response" where
  "overflow_response t conversation_id =
     openai_error t ''invalid_request_error'' (Some ''context_length_exceeded'') (Some ''messages'') 400
       (conversation_headers (Some conversation_id))"

definition assemble_with ::
  "(pydict list \<Rightarrow> pydict list \<Rightarrow> json \<Rightarrow> assembly_error + pydict list) \<Rightarrow> string \<Rightarrow> pydict list \<Rightarrow> json
   \<Rightarrow> ('w, pydict list) stage"
where
  "assemble_with assemble conversation_id messages tools =
     (case separate_current_request messages of
        Inl e \<Rightarrow> fail (Python e)
      | Inr (history, current_request) \<Rightarrow>
          (case assemble history current_request tools of
             Inr out \<Rightarrow> Pair (Inr out)
           | Inl (Overflow t) \<Rightarrow> respond (overflow_response t conversation_id)
           | Inl (Assembly_raised e) \<Rightarrow> fail (Python e)))"

definition assemble_context :: "'w app \<Rightarrow> 'w request \<Rightarrow> string \<Rightarrow> pydict list \<Rightarrow> json \<Rightarrow> ('w, pydict list) stage" where
  "assemble_context ap rq conversation_id messages tools =
     (case ap_engine ap of
        Some en \<Rightarrow>
          bind_s (retrieve_context ap rq conversation_id messages)
            (\<lambda>retrieved. assemble_with (engine_assemble en retrieved conversation_id) conversation_id messages tools)
      | None \<Rightarrow> assemble_with (planner_assemble (cf_context (ap_settings ap))) conversation_id messages tools)"

section \<open>After the response\<close>

definition index_memory :: "'w app \<Rightarrow> 'w request \<Rightarrow> string \<Rightarrow> 'w app_state \<Rightarrow> 'w app_state" where
  "index_memory ap rq conversation_id s =
     (if \<not> ap_memory ap \<or> \<not> auto_index (cf_memory (ap_settings ap)) then s
      else
        s\<lparr>as_memory := (case rq_index_cut rq (as_memory s) of
             Some mem \<Rightarrow> mem
           | None \<Rightarrow> snd (index_completed_turns (ap_service ap) (rq_now rq) conversation_id (as_memory s)))\<rparr>)"

text \<open>A response whose message is not an object is not modelled.\<close>

definition persist_assistant ::
  "'w app \<Rightarrow> 'w request \<Rightarrow> persist_closure \<Rightarrow> json \<Rightarrow> json \<Rightarrow> 'w app_state \<Rightarrow> (route_error + unit) \<times> 'w app_state"
where
  "persist_assistant ap rq pc message metadata s =
     (let usage = (case metadata of JObj md \<Rightarrow> dget md ''usage'' | _ \<Rightarrow> JNull);
          s1 = s\<lparr>as_metrics := record_tokens usage (as_metrics s)\<rparr> in
      if \<not> pc_store pc \<or> message = JNull then (Inr (), s1)
      else
        case rq_db_fault rq 2 of
          Some f \<Rightarrow> (if infra_error f then Inr () else Inl (From_database f), s1)
        | None \<Rightarrow>
        (case message of
           JObj m \<Rightarrow>
             (case projection_reconcile_history (sv_pg (ap_service ap)) (m_db (as_memory s1)) (pc_conversation pc)
                     (pc_messages pc @ [m]) metadata of
                (d, Inr _) \<Rightarrow> (Inr (), index_memory ap rq (pc_conversation pc) (set_db d s1))
              | (d, Inl (Divergence _)) \<Rightarrow> (Inr (), set_db d s1)
              | (d, Inl DatabaseError) \<Rightarrow> (Inr (), set_db d s1)
              | (d, Inl (StoreRaised e)) \<Rightarrow> (Inl (Python e), set_db d s1))
         | _ \<Rightarrow> (Inl (Python Unmodelled), s1)))"

section \<open>The inference endpoint\<close>

text \<open>
  The metrics of a send: an open circuit counts as a degradation, an answer is timed.  The clock is read at
  most four times.
\<close>

definition note_send :: "'w request \<Rightarrow> (provider_error + 'a) \<times> nat \<times> breaker \<Rightarrow> metrics \<Rightarrow> metrics" where
  "note_send rq r m =
     (case r of (res, attempts, _) \<Rightarrow>
        if attempts = 0
        then m\<lparr>DEGRADATIONS_TOTAL := bound_inc (DEGRADATIONS_TOTAL m) [(''component'', ''upstream_breaker_open'')] 1\<rparr>
        else (case res of
                Inr _ \<Rightarrow> m\<lparr>UPSTREAM_DURATION := bound_observe (UPSTREAM_DURATION m) [(''route'', ''/v1/chat/completions'')]
                               (rq_clock rq 2 - rq_clock rq 1)\<rparr>
              | Inl _ \<Rightarrow> m))"

definition note_sent :: "'w app \<Rightarrow> 'w request \<Rightarrow> upstream_call \<Rightarrow> 'w app_state \<Rightarrow> 'w app_state" where
  "note_sent ap rq call s =
     (let r = resilient_send (ap_breaker ap) (ap_resilience ap) (rq_clock rq 0) (rq_clock rq 1) (rq_clock rq 3)
                (rq_upstream rq call) (as_breaker s) in
      s\<lparr>as_metrics := note_send rq r (as_metrics s), as_sent := as_sent s @ replicate (fst (snd r)) call\<rparr>)"

definition llm_complete ::
  "'w app \<Rightarrow> 'w request \<Rightarrow> pydict \<Rightarrow> 'w app_state \<Rightarrow> (provider_error + (int \<times> headers \<times> string)) \<times> 'w app_state"
where
  "llm_complete ap rq payload s =
     (case Resilience.complete (ap_breaker ap) (ap_resilience ap) (rq_clock rq 0) (rq_clock rq 1) (rq_clock rq 3)
             (rq_upstream rq (Post_chat payload)) (as_breaker s) of
        (res, b) \<Rightarrow> (res, (note_sent ap rq (Post_chat payload) s)\<lparr>as_breaker := b\<rparr>))"

definition llm_open_stream ::
  "'w app \<Rightarrow> 'w request \<Rightarrow> pydict \<Rightarrow> 'w app_state \<Rightarrow> (provider_error + llm_stream) \<times> 'w app_state"
where
  "llm_open_stream ap rq payload s =
     (case open_stream (ap_breaker ap) (ap_resilience ap) (rq_clock rq 0) (rq_clock rq 1) (rq_clock rq 3)
             (rq_upstream rq (Post_chat payload)) (rq_chunks rq) (as_breaker s) of
        (res, b) \<Rightarrow> (res, (note_sent ap rq (Post_chat payload) s)\<lparr>as_breaker := b\<rparr>))"

text \<open>\<open>except ContextProxyError\<close>: what the send lets through unchanged leaves the handler.\<close>

definition provider_outcome :: "provider_error \<Rightarrow> outcome" where
  "provider_outcome e =
     (case e of
        Propagated err \<Rightarrow> Failed (From_send err)
      | _ \<Rightarrow> (case error_body_response e of Inl err \<Rightarrow> Failed (Python err) | Inr r \<Rightarrow> Responded r))"

text \<open>\<open>parsed["choices"][0]["message"]\<close> and the metadata; \<open>None\<close> when one of the accesses raises.\<close>

definition completion_message :: "json \<Rightarrow> (json \<times> pydict) option" where
  "completion_message parsed =
     (case parsed of
        JObj d \<Rightarrow>
          (case map_of d ''choices'' of
             Some (JArr (JObj choice # _)) \<Rightarrow>
               (case map_of choice ''message'' of
                  None \<Rightarrow> None
                | Some message \<Rightarrow>
                    Some (message, filter (\<lambda>kv. snd kv \<noteq> JNull)
                      [(''finish_reason'', dget choice ''finish_reason''), (''usage'', dget d ''usage''),
                       (''model'', dget d ''model'')]))
           | _ \<Rightarrow> None)
      | _ \<Rightarrow> None)"

definition dict_or_none :: "pydict \<Rightarrow> json" where
  "dict_or_none d = (if d = [] then JNull else JObj d)"

definition finish_completion ::
  "'w app \<Rightarrow> 'w request \<Rightarrow> persist_closure \<Rightarrow> int \<times> headers \<times> string \<Rightarrow> ('w, outcome) stage"
where
  "finish_completion ap rq pc answer =
     (case answer of (status_code, headers, body) \<Rightarrow>
        let done = Pair (Inr (Responded (with_headers (conversation_headers (Some (pc_conversation pc)))
                     (upstream_response status_code headers body)))) in
        if 200 \<le> status_code \<and> status_code < 300 then
          (case loads_bytes (bytes_of body) of
             Inl Unmodelled \<Rightarrow> fail (Python Unmodelled)
           | Inl _ \<Rightarrow> done
           | Inr parsed \<Rightarrow>
               (case completion_message parsed of
                  None \<Rightarrow> done
                | Some (message, metadata) \<Rightarrow>
                    (\<lambda>s. case persist_assistant ap rq pc message (dict_or_none metadata) s of
                           (Inl e, s1) \<Rightarrow> fail e s1
                         | (Inr _, s1) \<Rightarrow> done s1)))
        else done)"

definition infer :: "'w app \<Rightarrow> 'w request \<Rightarrow> persist_closure \<Rightarrow> pydict \<Rightarrow> ('w, outcome) stage" where
  "infer ap rq pc payload s =
     (if dget payload ''stream'' = JBool True then
        (case llm_open_stream ap rq payload s of
           (Inl e, s1) \<Rightarrow> (Inl (provider_outcome e), s1)
         | (Inr stream, s1) \<Rightarrow>
             (Inr (Streaming (with_headers (conversation_headers (Some (pc_conversation pc))) (streaming_response stream))
                     stream pc), s1))
      else
        (case llm_complete ap rq payload s of
           (Inl e, s1) \<Rightarrow> (Inl (provider_outcome e), s1)
         | (Inr answer, s1) \<Rightarrow> finish_completion ap rq pc answer s1))"

section \<open>The handler\<close>

definition serve :: "'w app \<Rightarrow> 'w request \<Rightarrow> ('w, outcome) stage" where
  "serve ap rq =
     bind_s (receive_payload rq) (\<lambda>raw.
     bind_s (identify ap rq raw) (\<lambda>(conversation_id, payload).
     case message_list (dget payload ''messages'') of
       Inl e \<Rightarrow> fail (Python e)
     | Inr messages \<Rightarrow>
         bind_s (persist_inbound ap rq conversation_id messages) (\<lambda>store.
         bind_s (assemble_context ap rq conversation_id messages (dget payload ''tools'')) (\<lambda>out_messages.
         infer ap rq \<lparr>pc_conversation = conversation_id, pc_messages = messages, pc_store = store\<rparr>
           (dset ''messages'' (JArr (map JObj out_messages)) payload)))))"

definition chat_completions :: "'w app \<Rightarrow> 'w request \<Rightarrow> 'w app_state \<Rightarrow> outcome \<times> 'w app_state" where
  "chat_completions ap rq s = (case serve ap rq s of (Inl r, s1) \<Rightarrow> (r, s1) | (Inr r, s1) \<Rightarrow> (r, s1))"

text \<open>
  The body of a streamed response.  The client takes all chunks, or it goes away or the upstream breaks off
  after \<open>n\<close> of them; then the callback runs.  An exception of the callback is logged and goes no further.
\<close>

definition stream_body ::
  "'w app \<Rightarrow> 'w request \<Rightarrow> llm_stream \<Rightarrow> persist_closure \<Rightarrow> nat option \<Rightarrow> 'w app_state \<Rightarrow> stream_outcome \<times> 'w app_state"
where
  "stream_body ap rq stream pc broken s =
     (let n = (case broken of None \<Rightarrow> length (ls_chunks stream) | Some n \<Rightarrow> n);
          chunks = fst (stream_iter_bytes n stream);
          result = iter_bytes (Some (max_capture_bytes (cf_server (ap_settings ap)))) (map bytes_of chunks) (broken = None) in
      case so_finished result of
        None \<Rightarrow> (result, s)
      | Some (message, metadata) \<Rightarrow>
          (result, snd (persist_assistant ap rq pc (case message of None \<Rightarrow> JNull | Some m \<Rightarrow> JObj m) (JObj metadata) s)))"

text \<open>\<open>GET /v1/models\<close>\<close>

definition llm_list_models ::
  "'w app \<Rightarrow> 'w request \<Rightarrow> 'w app_state \<Rightarrow> (provider_error + (int \<times> headers \<times> string)) \<times> 'w app_state"
where
  "llm_list_models ap rq s =
     (case send_buffered (ap_breaker ap) (ap_resilience ap) (rq_clock rq 0) (rq_clock rq 1) (rq_clock rq 3)
             (rq_upstream rq Get_models) (as_breaker s) of
        (res, b) \<Rightarrow> (bind_r res (\<lambda>r. Inr (pack r)), (note_sent ap rq Get_models s)\<lparr>as_breaker := b\<rparr>))"

definition list_models :: "'w app \<Rightarrow> 'w request \<Rightarrow> 'w app_state \<Rightarrow> outcome \<times> 'w app_state" where
  "list_models ap rq s =
     (case llm_list_models ap rq s of
        (Inl e, s1) \<Rightarrow> (provider_outcome e, s1)
      | (Inr (status_code, headers, body), s1) \<Rightarrow> (Responded (upstream_response status_code headers body), s1))"

end
