(* ===== verification/RoutesCorrect.thy ===== *)
theory RoutesCorrect
  imports Routes MemoryCorrect EngineCorrect
begin

text \<open>
  Correctness of the public interface: what reaches the inference endpoint, what a request changes in the stored
  state, and where an outage or an exception ends it.  The locale \<open>context_assembler\<close> is what the handler relies on in the component that
  assembles the messages; the engine and the planner are its two instances.
\<close>

section \<open>Assembling within the budget\<close>

text \<open>
  What the handler relies on: messages that fit the budget together with the tools, keep every
  instruction of the payload, and end with the current request.
\<close>

definition fits :: "int \<Rightarrow> pydict list \<Rightarrow> json \<Rightarrow> pydict list \<Rightarrow> bool" where
  "fits budget messages tools out \<longleftrightarrow>
     (\<exists>history request older n tt. separate_current_request messages = Inr (history, request) \<and> out = older @ request
        \<and> filter is_instruction older = filter is_instruction history
        \<and> messages_tokens out = Inr n \<and> tools_tokens_of tools = Inr tt \<and> n + tt \<le> budget)"

locale context_assembler =
  fixes assemble :: "pydict list \<Rightarrow> pydict list \<Rightarrow> json \<Rightarrow> assembly_error + pydict list"
    and budget :: int
  assumes within: "assemble h c t = Inr out \<Longrightarrow> \<exists>n tt. messages_tokens out = Inr n \<and> tools_tokens_of t = Inr tt \<and> n + tt \<le> budget"
    and shape: "assemble h c t = Inr out \<Longrightarrow> \<exists>older. out = older @ c \<and> filter is_instruction older = filter is_instruction h"
begin

lemma assembled_fits:
  assumes "assemble_with assemble cid messages tools s = (Inr out, s')"
  shows "s' = s \<and> fits budget messages tools out"
proof -
  obtain h c where hc: "separate_current_request messages = Inr (h, c)" "assemble h c tools = Inr out" "s' = s"
    using assms by (auto simp: assemble_with_def split: sum.splits assembly_error.splits)
  then show ?thesis using within [OF hc(2)] shape [OF hc(2)] by (auto simp: fits_def)
qed

end

lemma retrieved_block_no_instruction [simp]: "\<not> is_instruction (retrieved_block i)"
  by (simp add: retrieved_block_def is_instruction_def role_of_def INSTRUCTION_ROLES_def)

interpretation engine_context: context_assembler
  "engine_assemble (en\<lparr>en_counter := TokenCounter\<rparr>) retrieved cid" "en_usable en"
  for en retrieved cid
proof
  fix h c t out
  assume a: "engine_assemble (en\<lparr>en_counter := TokenCounter\<rparr>) retrieved cid h c t = Inr out"
  let ?en = "en\<lparr>en_counter := TokenCounter\<rparr>"
  obtain p where p: "build ?en h c t [] retrieved [] (Some cid) = Inr p" "out = ep_messages p"
    using a by (auto simp: engine_assemble_def split: sum.splits engine_error.splits)
  from tc.build_Inr [OF p(1)] obtain us k items tt where us: "segment_messages TokenCounter h = Inr us"
    and tt: "tools_tokens_of t = Inr tt" and b: "assembled ?en h c [] retrieved [] (Some cid) us tt p k items"
    using tools_tokens_cases by (metis engine.select_convs(4) engine.update_convs(4) engine.surjective)
  show "\<exists>n tt. messages_tokens out = Inr n \<and> tools_tokens_of t = Inr tt \<and> n + tt \<le> en_usable en"
    using b tt p(2) by (auto simp: assembled_def TokenCounter_simps)
  let ?turns = "drop k (filter (Not \<circ> is_system) us)"
  have "set ?turns \<subseteq> set us" using set_drop_subset by fastforce
  then have "\<forall>u \<in> set ?turns. unit_shape u" using segment_messages_spec(1) [OF us] by blast
  then have "filter is_instruction (unit_messages ?turns) = unit_messages (filter is_system ?turns)"
    by (rule instructions_of_units)
  also have "filter is_system ?turns = []" by (auto simp: filter_empty_conv dest!: in_set_dropD)
  finally have "filter is_instruction (unit_messages ?turns) = []" by (simp only: unit_messages_simps)
  then show "\<exists>older. out = older @ c \<and> filter is_instruction older = filter is_instruction h"
    using b p(2) by (intro exI [of _ "filter is_instruction h @ map retrieved_block items @ unit_messages ?turns"])
      (simp add: assembled_def filter_map comp_def)
qed

interpretation planner_context: context_assembler "planner_assemble cs" "usable_budget_tokens cs"
  for cs
proof
  fix h c t out
  assume "planner_assemble cs h c t = Inr out"
  then obtain p where p: "plan_context TokenCounter h c t (usable_budget_tokens cs) (int (pinned_budget_tokens cs)) = Inr p"
    "out = cp_messages p"
    by (auto simp: planner_assemble_def split: sum.splits plan_error.splits)
  have R: "0 \<le> int (pinned_budget_tokens cs)" by simp
  show "\<exists>n tt. messages_tokens out = Inr n \<and> tools_tokens_of t = Inr tt \<and> n + tt \<le> usable_budget_tokens cs"
    using p(1) R
  proof (rule tc.plan_context_Inr)
    assume "count_tools TokenCounter t = Inr (cp_tools_tokens p)"
      "cp_total_tokens p + cp_tools_tokens p + int (pinned_budget_tokens cs) \<le> usable_budget_tokens cs"
    then show ?thesis using tc.plan_context_recount [OF p(1) R] p(2) by (simp add: TokenCounter_simps)
  qed
  show "\<exists>older. out = older @ c \<and> filter is_instruction older = filter is_instruction h"
    using p(1) R
  proof (rule tc.plan_context_Inr)
    fix us k
    assume us: "segment_messages TokenCounter h = Inr us" and m: "cp_messages p = unit_messages (keep_from k us) @ c"
    have "\<forall>u \<in> set (keep_from k us). unit_shape u"
      using segment_messages_spec(1) [OF us] tc.keep_from_subset by blast
    then have "filter is_instruction (unit_messages (keep_from k us)) = filter is_instruction h"
      using segment_messages_spec(2) [OF us] by (simp add: instructions_of_units filter_system_keep_from)
    then show ?thesis using m p(2) by simp
  qed
qed


section \<open>What is sent\<close>

lemma engine_of_settings:
  assumes "context_engine st = Inr (Some en)"
  shows "en\<lparr>en_counter := TokenCounter\<rparr> = en \<and> en_usable en = usable_budget_tokens (cf_context st)"
  using assms by (auto simp: context_engine_def ContextAssemblyEngine_def split: if_splits)

lemma assemble_context_fits:
  assumes "context_engine (ap_settings ap) = Inr (ap_engine ap)"
    and "assemble_context ap rq cid messages tools s = (Inr out, s')"
  shows "fits (usable_budget_tokens (cf_context (ap_settings ap))) messages tools out \<and> as_sent s' = as_sent s
    \<and> as_breaker s' = as_breaker s"
proof (cases "ap_engine ap")
  case None
  then show ?thesis using assms(2) planner_context.assembled_fits by (fastforce simp: assemble_context_def)
next
  case (Some en)
  note en = engine_of_settings [OF assms(1) [unfolded Some]]
  obtain items s1 where r: "retrieve_context ap rq cid messages s = (Inr items, s1)"
    and a: "assemble_with (engine_assemble (en\<lparr>en_counter := TokenCounter\<rparr>) items cid) cid messages tools s1 = (Inr out, s')"
    using assms(2) en by (auto simp: assemble_context_def Some result_simps)
  have "as_sent s1 = as_sent s \<and> as_breaker s1 = as_breaker s"
    using r by (auto simp: retrieve_context_def Let_def split: if_splits prod.splits sum.splits memory_error.splits)
  with engine_context.assembled_fits [OF a] en show ?thesis by simp
qed

lemma assemble_context_keeps:
  assumes "assemble_context ap rq cid messages tools s = (r, s')"
  shows "as_sent s' = as_sent s"
  using assms
  by (auto simp: assemble_context_def assemble_with_def retrieve_context_def bind_s_def Let_def
      split: option.splits if_splits prod.splits sum.splits memory_error.splits assembly_error.splits)

lemma persist_inbound_keeps:
  "as_sent (snd (persist_inbound ap rq cid messages s)) = as_sent s"
  by (auto simp: persist_inbound_def Let_def set_db_def split: option.split prod.split sum.split store_error.split)

lemma note_sent_attempts:
  "\<exists>k \<le> Suc (rz_max_retries (ap_resilience ap)). as_sent (note_sent ap rq call s) = as_sent s @ replicate k call"
proof -
  let ?r = "resilient_send (ap_breaker ap) (ap_resilience ap) (rq_clock rq 0) (rq_clock rq 1) (rq_clock rq 3) (rq_upstream rq call) (as_breaker s)"
  have "fst (snd ?r) \<le> Suc (rz_max_retries (ap_resilience ap))"
    using retry_loop_spec [of "rq_upstream rq call" retryable _ _ 0 "rz_max_retries (ap_resilience ap)"]
    by (auto simp: resilient_send_def with_retries_def split: prod.split sum.split)
  then show ?thesis by (auto simp: note_sent_def Let_def)
qed

lemma persist_assistant_keeps: "as_sent (snd (persist_assistant ap rq pc message metadata s)) = as_sent s"
  by (auto simp: persist_assistant_def index_memory_def set_db_def Let_def split: option.split json.split prod.split sum.split store_error.split)

lemma finish_completion_keeps: "as_sent (snd (finish_completion ap rq pc a s1)) = as_sent s1"
  using persist_assistant_keeps [of ap rq pc _ _ s1]
  by (auto simp: finish_completion_def Let_def split: prod.split sum.split option.split pyerr.split)
   (metis snd_conv)+

lemma infer_sends:
  "\<exists>k \<le> Suc (rz_max_retries (ap_resilience ap)). as_sent (snd (infer ap rq pc payload s)) = as_sent s @ replicate k (Post_chat payload)"
  using note_sent_attempts [of ap rq "Post_chat payload" s]
  by (auto simp: infer_def llm_open_stream_def llm_complete_def finish_completion_keeps split: prod.split sum.split)

text \<open>What the first stages have checked when they pass a request on.\<close>

definition identified :: "'w app \<Rightarrow> 'w request \<Rightarrow> string \<Rightarrow> pydict \<Rightarrow> pydict list \<Rightarrow> bool" where
  "identified ap rq cid payload messages \<longleftrightarrow>
     (\<exists>raw. parse_json_body (rq_body rq) = Inr raw \<and> validate_chat_payload (JObj raw) = Inr ()
        \<and> resolve_conversation_id (rq_headers rq) raw (Some (cf_conversation (ap_settings ap))) (rq_random rq) = Inr (cid, payload)
        \<and> message_list (dget payload ''messages'') = Inr messages)"

lemma receive_payload_Inr:
  "receive_payload rq s = (Inr raw, s') \<Longrightarrow> s' = s \<and> parse_json_body (rq_body rq) = Inr raw \<and> validate_chat_payload (JObj raw) = Inr ()"
  by (auto simp: receive_payload_def Let_def split: sum.splits pyerr.splits)

lemma receive_payload_state: "snd (receive_payload rq s) = s"
  by (auto simp: receive_payload_def Let_def split: sum.splits pyerr.splits)

lemma identify_Inr:
  "identify ap rq raw s = (Inr (cid, payload), s') \<Longrightarrow> s' = s
     \<and> resolve_conversation_id (rq_headers rq) raw (Some (cf_conversation (ap_settings ap))) (rq_random rq) = Inr (cid, payload)"
  by (auto simp: identify_def split: sum.splits identity_error.splits)

lemma identify_state: "snd (identify ap rq raw s) = s"
  by (auto simp: identify_def split: sum.splits identity_error.splits)

text \<open>The way of a request through the stages: it ends before the inference call, or reaches it.\<close>

lemma serve_stages:
  assumes "serve ap rq s = (r, s')"
  obtains (received) "s' = s"
  | (stored) cid payload messages where "identified ap rq cid payload messages" "s' = snd (persist_inbound ap rq cid messages s)"
  | (assembled) cid payload messages store s1 where "identified ap rq cid payload messages"
      "persist_inbound ap rq cid messages s = (Inr store, s1)"
      "s' = snd (assemble_context ap rq cid messages (dget payload ''tools'') s1)"
  | (sent) cid payload messages store s1 out s2 where "identified ap rq cid payload messages"
      "persist_inbound ap rq cid messages s = (Inr store, s1)"
      "assemble_context ap rq cid messages (dget payload ''tools'') s1 = (Inr out, s2)"
      "infer ap rq \<lparr>pc_conversation = cid, pc_messages = messages, pc_store = store\<rparr> (dset ''messages'' (JArr (map JObj out)) payload) s2 = (r, s')"
proof -
  from assms show ?thesis unfolding serve_def
  proof (cases rule: bind_s_cases)
    case (Inl e)
    then show ?thesis using receive_payload_state [of rq s] received by simp
  next
    case raw: (Inr raw u)
    have u: "u = s" using receive_payload_state [of rq s] raw(1) by simp
    from raw(2) show ?thesis
    proof (cases rule: bind_s_cases)
      case (Inl e)
      then show ?thesis using identify_state [of ap rq raw u] u received by simp
    next
      case (Inr cp v)
      obtain cid payload where cp: "cp = (cid, payload)" by (cases cp)
      have v: "v = s" using identify_state [of ap rq raw u] Inr(1) u by simp
      show ?thesis
      proof (cases "message_list (dget payload ''messages'')")
        case Inl': (Inl e)
        then show ?thesis using Inr(2) cp v received by simp
      next
        case ms: (Inr messages)
        have id: "identified ap rq cid payload messages"
          using receive_payload_Inr [OF raw(1)] identify_Inr [OF Inr(1) [unfolded cp]] ms by (auto simp: identified_def)
        have "bind_s (persist_inbound ap rq cid messages) (\<lambda>store.
         bind_s (assemble_context ap rq cid messages (dget payload ''tools'')) (\<lambda>out_messages.
         infer ap rq \<lparr>pc_conversation = cid, pc_messages = messages, pc_store = store\<rparr>
           (dset ''messages'' (JArr (map JObj out_messages)) payload))) s = (r, s')"
          using Inr(2) ms unfolding cp v by simp
        then show ?thesis
        proof (cases rule: bind_s_cases)
          case (Inl e)
          then show ?thesis using stored [OF id] by simp
        next
          case st: (Inr store s1)
          from st(2) show ?thesis
          proof (cases rule: bind_s_cases)
            case (Inl e)
            then show ?thesis using assembled [OF id st(1)] by simp
          next
            case (Inr out s2)
            then show ?thesis using sent [OF id st(1)] by blast
          qed
        qed
      qed
    qed
  qed
qed

lemma persist_inbound_no_divergence:
  assumes "persist_inbound ap rq cid messages s = (Inr store, s1)" "ap_store ap" "rq_db_fault rq 0 = None" "rq_db_fault rq 1 = None"
  shows "snd (projection_reconcile_history (sv_pg (ap_service ap)) (ensure_conversation cid (m_db (as_memory s))) cid messages JNull)
    \<noteq> Inl (Divergence dv)"
  using assms by (auto simp: persist_inbound_def Let_def split: prod.splits sum.splits store_error.splits)


lemma serve_identified:
  assumes "identified ap rq cid payload messages"
  shows "serve ap rq s =
    bind_s (persist_inbound ap rq cid messages) (\<lambda>store.
    bind_s (assemble_context ap rq cid messages (dget payload ''tools'')) (\<lambda>out.
    infer ap rq \<lparr>pc_conversation = cid, pc_messages = messages, pc_store = store\<rparr> (dset ''messages'' (JArr (map JObj out)) payload))) s"
  using assms by (auto simp: identified_def serve_def bind_s_def receive_payload_def identify_def)


text \<open>An answer means at least one attempt.\<close>

lemma llm_complete_sent:
  assumes "llm_complete ap rq payload s = (Inr a, s1)"
  shows "Post_chat payload \<in> set (as_sent s1)"
proof -
  obtain x n b where r: "resilient_send (ap_breaker ap) (ap_resilience ap) (rq_clock rq 0) (rq_clock rq 1) (rq_clock rq 3)
      (rq_upstream rq (Post_chat payload)) (as_breaker s) = (Inr x, n, b)"
    and s1: "as_sent s1 = as_sent s @ replicate n (Post_chat payload)"
    using assms by (auto simp: llm_complete_def Resilience.complete_def send_buffered_def note_sent_def Let_def result_simps split: prod.splits)
  from r have "n \<noteq> 0"
    using retry_loop_spec [of "rq_upstream rq (Post_chat payload)" retryable _ _ 0 "rz_max_retries (ap_resilience ap)"]
    by (auto simp: resilient_send_def with_retries_def split: prod.splits sum.splits)
  with s1 show ?thesis by simp
qed

text \<open>A buffered answer whose message the store raises on.\<close>

lemma finish_completion_raises:
  assumes "200 \<le> status" "status < 300" "loads_bytes (bytes_of body) = Inr parsed" "completion_message parsed = Some (JObj m, md)"
    and "pc_store pc" "rq_db_fault rq 2 = None"
    and "snd (projection_reconcile_history (sv_pg (ap_service ap)) (m_db (as_memory s)) (pc_conversation pc) (pc_messages pc @ [m])
           (dict_or_none md)) = Inl (StoreRaised e)"
  shows "fst (finish_completion ap rq pc (status, headers, body) s) = Inl (Failed (Python e))"
proof -
  obtain d where "projection_reconcile_history (sv_pg (ap_service ap)) (m_db (as_memory s)) (pc_conversation pc) (pc_messages pc @ [m])
      (dict_or_none md) = (d, Inl (StoreRaised e))" using assms(7) by (metis prod.collapse)
  then show ?thesis using assms(1-6) by (simp add: finish_completion_def persist_assistant_def Let_def)
qed

section \<open>The stored state\<close>

text \<open>What a request for a conversation may change: it appends to its own transcript.\<close>

definition advances :: "string \<Rightarrow> 'w memory \<Rightarrow> 'w memory \<Rightarrow> bool" where
  "advances c m m' \<longleftrightarrow>
     memory_inv m' \<and> prefix (db_messages (m_db m)) (db_messages (m_db m'))
     \<and> (\<forall>c'. c' \<noteq> c \<longrightarrow> fetch_messages c' (m_db m') = fetch_messages c' (m_db m)) \<and> m_memories m' = m_memories m"

lemma advances_refl: "memory_inv m \<Longrightarrow> advances c m m"
  by (simp add: advances_def)

lemma advances_trans: "advances c m m1 \<Longrightarrow> advances c m1 m2 \<Longrightarrow> advances c m m2"
  by (auto simp: advances_def intro: prefix_order.trans)

lemma advances_inv: "advances c m m' \<Longrightarrow> memory_inv m'"
  by (simp add: advances_def)

lemma advances_tables: "same_tables m m' \<Longrightarrow> memory_inv m \<Longrightarrow> advances c m m'"
  using memory_inv_tables [of m m'] by (auto simp: advances_def same_tables_def)

lemma advances_db:
  assumes "memory_inv m" "db_inv d" "prefix (db_messages (m_db m)) (db_messages d)"
    "\<forall>c'. c' \<noteq> c \<longrightarrow> fetch_messages c' d = fetch_messages c' (m_db m)"
  shows "advances c m (m\<lparr>m_db := d\<rparr>)"
  using memory_inv_db [OF assms(1-3), of "m_memories m"] assms by (simp add: advances_def)

lemma advances_ensure: "memory_inv m \<Longrightarrow> advances c m (m\<lparr>m_db := ensure_conversation c' (m_db m)\<rparr>)"
  by (rule advances_db) (auto simp: memory_inv_def, simp_all add: ensure_conversation_def fetch_messages_def conv_rows_def)

lemma advances_reconcile:
  assumes "memory_inv m" "projection_reconcile_history pg (m_db m) c ms md = (d, r)"
  shows "advances c m (m\<lparr>m_db := d\<rparr>)"
proof (rule advances_db [OF assms(1)])
  have inv: "db_inv (m_db m)" "seq_ok (m_db m)" using assms(1) by (simp_all add: memory_inv_def db_inv_def)
  have "d = store_step pg (m_db m) (Reconcile c ms md)" using assms(2) by (simp add: store_step_def)
  then show "db_inv d" "prefix (db_messages (m_db m)) (db_messages d)"
    using store_step_inv [OF inv(1), of pg "Reconcile c ms md"] by simp_all
  show "\<forall>c'. c' \<noteq> c \<longrightarrow> fetch_messages c' d = fetch_messages c' (m_db m)"
  proof (cases r)
    case (Inl e)
    then show ?thesis using aware.rejected [OF assms(2) [unfolded Inl]] by simp
  next
    case (Inr ids)
    then show ?thesis using aware.accepted [OF inv(2) assms(2) [unfolded Inr]] by (simp add: appended_def)
  qed
qed

lemma advances_chunk_new_turns:
  assumes "memory_inv m"
  shows "advances c m (snd (chunk_new_turns sv now c' m))"
proof (cases "chunk_new_turns sv now c' m")
  case (Pair r m')
  note inv = memory_inv_chunk_new_turns [OF assms Pair]
  show ?thesis
  proof (cases r)
    case (Inl e)
    then show ?thesis using Pair chunk_new_turns_error assms advances_refl by fastforce
  next
    case (Inr x)
    obtain created se where x: "x = (created, se)" by fastforce
    obtain k where "chunked c' m k" "seq_ok (m_db m)" using assms by (auto simp: memory_inv_def db_inv_def)
    from chunk_new_turns_complete [OF Pair [unfolded Inr x] this] obtain y new wm where
      "m' = m\<lparr>m_db := (m_db m)\<lparr>db_draws := y\<rparr>, m_watermark := wm, m_chunks := m_chunks m @ new\<rparr>" by blast
    then show ?thesis using inv Pair by (simp add: advances_def fetch_messages_def conv_rows_def)
  qed
qed

lemma advances_index_completed_turns:
  assumes "memory_inv m"
  shows "advances c m (snd (index_completed_turns sv now c' m))"
proof -
  obtain r m1 where r: "chunk_new_turns sv now c' m = (r, m1)" by fastforce
  have m1: "advances c m m1" using advances_chunk_new_turns [OF assms, of c sv now c'] r by simp
  have "advances c m1 (snd (index_pending_chunks sv c' m1))"
    using advances_tables [OF same_tables_index_pending advances_inv [OF m1]] by simp
  then show ?thesis using m1 advances_trans [OF m1]
    by (auto simp: index_completed_turns_def bind_s_def r split: sum.split prod.split)
qed

text \<open>
  The timer can cut the indexing off at any of its calls: before the transaction that makes the chunks has
  committed, or after it, with some of the chunks marked.
\<close>

definition interrupted :: "'w app \<Rightarrow> 'w request \<Rightarrow> bool" where
  "interrupted ap rq \<longleftrightarrow> (\<forall>m m'. rq_index_cut rq m = Some m' \<longrightarrow>
     (\<exists>c. same_tables m m' \<or> same_tables (snd (chunk_new_turns (ap_service ap) (rq_now rq) c m)) m'))"

lemma interrupted_advances:
  assumes "interrupted ap rq" "rq_index_cut rq m = Some m'" "memory_inv m"
  shows "advances c m m'"
proof -
  obtain c' where "same_tables m m' \<or> same_tables (snd (chunk_new_turns (ap_service ap) (rq_now rq) c' m)) m'"
    using assms(1,2) by (auto simp: interrupted_def)
  then show ?thesis
  proof
    assume "same_tables (snd (chunk_new_turns (ap_service ap) (rq_now rq) c' m)) m'"
    with advances_chunk_new_turns [OF assms(3)] show ?thesis by (meson advances_inv advances_tables advances_trans)
  qed (use assms(3) advances_tables in blast)
qed

lemma index_memory_advances:
  assumes "interrupted ap rq" "memory_inv (as_memory s)"
  shows "advances c (as_memory s) (as_memory (index_memory ap rq c' s))"
  using interrupted_advances [OF assms(1) _ assms(2), of _ c]
    advances_index_completed_turns [OF assms(2), of c "ap_service ap" "rq_now rq" c'] advances_refl [OF assms(2)]
  by (auto simp: index_memory_def split: option.split)

lemma persist_assistant_advances:
  assumes "interrupted ap rq" "memory_inv (as_memory s)"
  shows "advances (pc_conversation pc) (as_memory s) (as_memory (snd (persist_assistant ap rq pc message metadata s)))"
proof -
  let ?c = "pc_conversation pc"
  have adv: "advances ?c (as_memory s) (as_memory (set_db d s1))"
    if "projection_reconcile_history pg (m_db (as_memory s)) ?c ms md = (d, r)" "as_memory s1 = as_memory s" for pg ms md d r s1
    using advances_reconcile [OF assms(2) that(1)] that(2) by (simp add: set_db_def)
  have idx: "advances ?c (as_memory s) (as_memory (index_memory ap rq ?c s2))" if "advances ?c (as_memory s) (as_memory s2)" for s2
    using advances_trans [OF that index_memory_advances [OF assms(1) advances_inv [OF that]]] .
  show ?thesis using adv idx advances_refl [OF assms(2)]
    by (auto simp: persist_assistant_def Let_def split: option.split json.split prod.split sum.split store_error.split)
qed

lemma persist_inbound_advances:
  assumes "memory_inv (as_memory s)"
  shows "advances cid (as_memory s) (as_memory (snd (persist_inbound ap rq cid messages s)))"
proof -
  let ?m = "(as_memory s)\<lparr>m_db := ensure_conversation cid (m_db (as_memory s))\<rparr>"
  have m: "advances cid (as_memory s) ?m" by (rule advances_ensure [OF assms])
  have "advances cid (as_memory s) (as_memory (set_db d s))"
    if "projection_reconcile_history pg (ensure_conversation cid (m_db (as_memory s))) cid ms md = (d, r)" for pg ms md d r
    using advances_trans [OF m advances_reconcile [OF advances_inv [OF m], of pg cid ms md d r]] that by (simp add: set_db_def)
  then show ?thesis using m advances_refl [OF assms]
    by (auto simp: persist_inbound_def Let_def set_db_def split: option.split prod.split sum.split store_error.split)
qed

lemma assemble_context_advances:
  assumes "memory_inv (as_memory s)"
  shows "advances c (as_memory s) (as_memory (snd (assemble_context ap rq cid messages tools s)))"
proof -
  have same: "as_memory (snd (assemble_with f cid messages tools s1)) = as_memory s1" for f s1
    by (auto simp: assemble_with_def split: sum.split prod.split assembly_error.split)
  have "same_tables (as_memory s) (as_memory (snd (retrieve_context ap rq cid messages s)))"
    using same_tables_retrieve [OF same_tables_refl [of "as_memory s"], where sv = "ap_service ap" and now = "rq_now rq"
        and q = "extract_retrieval_query messages" and c = cid and lm = None]
    by (auto simp: retrieve_context_def Let_def split: prod.split sum.split memory_error.split)
  from advances_tables [OF this assms] have "advances c (as_memory s) (as_memory (snd (retrieve_context ap rq cid messages s)))" .
  then show ?thesis using advances_refl [OF assms]
    by (auto simp: assemble_context_def bind_s_def same split: option.split prod.split sum.split)
qed

lemma infer_advances:
  assumes "interrupted ap rq" "memory_inv (as_memory s)"
  shows "advances (pc_conversation pc) (as_memory s) (as_memory (snd (infer ap rq pc payload s)))"
proof -
  have sent: "as_memory (note_sent ap rq call s) = as_memory s" for call by (simp add: note_sent_def Let_def)
  have "advances (pc_conversation pc) (as_memory s1) (as_memory (snd (finish_completion ap rq pc a s1)))"
    if "memory_inv (as_memory s1)" for a s1
    using persist_assistant_advances [OF assms(1) that, of pc] advances_refl [OF that]
    by (auto simp: finish_completion_def Let_def split: prod.split sum.split option.split pyerr.split)
     (metis snd_conv)+
  from this [of "(note_sent ap rq (Post_chat payload) s)\<lparr>as_breaker := b\<rparr>" for b] show ?thesis using assms(2) advances_refl [OF assms(2)]
    by (auto simp: infer_def llm_open_stream_def llm_complete_def sent split: prod.split sum.split)
qed

lemma serve_advances:
  assumes "interrupted ap rq" "memory_inv (as_memory s)" "serve ap rq s = (r, s')"
  shows "as_memory s' = as_memory s \<or> (\<exists>cid payload messages. identified ap rq cid payload messages \<and> advances cid (as_memory s) (as_memory s'))"
  using assms(3)
proof (cases rule: serve_stages)
  case (stored cid payload messages)
  then show ?thesis using persist_inbound_advances [OF assms(2)] by blast
next
  case (assembled cid payload messages store s1)
  have s1: "advances cid (as_memory s) (as_memory s1)"
    using persist_inbound_advances [OF assms(2), of cid ap rq messages] assembled(2) by simp
  from advances_trans [OF s1 assemble_context_advances [OF advances_inv [OF s1]]] show ?thesis using assembled(1,3) by blast
next
  case (sent cid payload messages store s1 out s2)
  have s1: "advances cid (as_memory s) (as_memory s1)"
    using persist_inbound_advances [OF assms(2), of cid ap rq messages] sent(2) by simp
  have s2: "advances cid (as_memory s1) (as_memory s2)"
    using assemble_context_advances [OF advances_inv [OF s1], of cid ap rq cid messages "dget payload ''tools''"] sent(3) by simp
  have "advances cid (as_memory s2) (as_memory s')"
    using infer_advances [OF assms(1) advances_inv [OF s2], of "\<lparr>pc_conversation = cid, pc_messages = messages, pc_store = store\<rparr>"
        "dset ''messages'' (JArr (map JObj out)) payload"] sent(4) by simp
  with s1 s2 show ?thesis using sent(1) by (meson advances_trans)
qed simp

text \<open>
  The states the proxy can be in: requests are served one after the other, streams end, and the memory
  service is used through the internal interface.
\<close>

inductive proxy_reachable :: "'w app \<Rightarrow> 'w app_state \<Rightarrow> bool" for ap where
  start: "as_memory s = empty_memory w \<Longrightarrow> proxy_reachable ap s"
| chat: "proxy_reachable ap s \<Longrightarrow> interrupted ap rq \<Longrightarrow> chat_completions ap rq s = (r, s') \<Longrightarrow> proxy_reachable ap s'"
| stream: "proxy_reachable ap s \<Longrightarrow> interrupted ap rq \<Longrightarrow> stream_body ap rq st pc broken s = (r, s') \<Longrightarrow> proxy_reachable ap s'"
| models: "proxy_reachable ap s \<Longrightarrow> list_models ap rq s = (r, s') \<Longrightarrow> proxy_reachable ap s'"
| memory: "proxy_reachable ap s \<Longrightarrow> proxy_reachable ap (s\<lparr>as_memory := memory_step (ap_service ap) (as_memory s) op\<rparr>)"

lemma chat_serve: "chat_completions ap rq s = (r, s') \<Longrightarrow> \<exists>r'. serve ap rq s = (r', s')"
  by (auto simp: chat_completions_def split: prod.splits sum.splits)

lemma proxy_reachable_inv: "proxy_reachable ap s \<Longrightarrow> memory_inv (as_memory s)"
proof (induction rule: proxy_reachable.induct)
  case (start s w)
  then show ?case by (simp add: empty_memory_inv)
next
  case (chat s rq r s')
  then show ?case using chat_serve serve_advances advances_inv by metis
next
  case (stream s rq st pc broken r s')
  have "memory_inv (as_memory (snd (persist_assistant ap rq pc m md s)))" for m md
    using advances_inv [OF persist_assistant_advances [OF stream(2) stream.IH]] .
  then show ?case using stream.IH stream(3) by (auto simp: stream_body_def Let_def split: option.splits prod.splits)
next
  case (models s rq r s')
  then have "as_memory s' = as_memory s"
    by (auto simp: list_models_def llm_list_models_def note_sent_def Let_def split: prod.splits sum.splits)
  then show ?case using models.IH by simp
next
  case (memory s op)
  then show ?case by (simp add: memory_step_inv)
qed

section \<open>A small exchange\<close>

definition demo_app :: "unit app" where
  "demo_app =
     \<lparr>ap_settings =
        \<lparr>cf_server = \<lparr>max_body_bytes = 1000, max_capture_bytes = 1000\<rparr>,
         cf_context = \<lparr>model_limit_tokens = 30, safety_margin_tokens = 10, pinned_budget_tokens = 2,
           recent_target_tokens = 1, recent_min_tokens = 1, recent_max_tokens = 1\<rparr>,
         cf_assembly_enabled = False,
         cf_assembly = \<lparr>mmr_lambda = 7 / 10, max_retrieved_items = 8, retrieved_budget_tokens = 4000\<rparr>,
         cf_conversation = \<lparr>client_id_header = ''X-Session-ID'', max_session_identity_chars = 128\<rparr>,
         cf_retrieval = sv_retrieval demo_service, cf_memory = \<lparr>auto_index = True\<rparr>,
         cf_security = \<lparr>sec_mode = Development, internal_auth_token = []\<rparr>, cf_base_url = ''http://localhost:8000/v1''\<rparr>,
      ap_engine = None, ap_store = True, ap_memory = True, ap_service = demo_service,
      ap_breaker = demo_breaker_cfg, ap_resilience = demo_settings\<rparr>"

definition demo_state :: "unit app_state" where
  "demo_state = \<lparr>as_memory = empty_memory (), as_breaker = demo_breaker, as_metrics = new_metrics, as_sent = []\<rparr>"

definition demo_payload :: pydict where
  "demo_payload = [(''messages'', JArr [JObj (chat_msg ''user'' ''hi'')])]"

definition demo_reply :: "pydict \<Rightarrow> string" where
  "demo_reply m = dumps_compact (JObj [(''choices'', JArr [JObj [(''message'', JObj m)]])])"

definition demo_exchange :: "pydict \<Rightarrow> unit request" where
  "demo_exchange m =
     \<lparr>rq_headers = [(CONVERSATION_HEADER, ''00000000-0000-0000-0000-00000000001f'')],
      rq_body = utf8_encode (dumps_compact (JObj demo_payload)), rq_random = 0, rq_db_fault = (\<lambda>_. None), rq_now = 0,
      rq_clock = (\<lambda>_. 0), rq_upstream = (\<lambda>_ _. Inr \<lparr>rs_status = 200, rs_headers = [], rs_content = demo_reply m\<rparr>),
      rq_chunks = (\<lambda>r. [rs_content r]), rq_index_cut = (\<lambda>_. None)\<rparr>"

definition odd_call_message :: pydict where
  "odd_call_message = [(''role'', JStr ''assistant''), (''tool_calls'', JArr [JStr ''x''])]"

definition demo_cid :: string where "demo_cid = ''00000000-0000-0000-0000-00000000001f''"

definition demo_stored :: "unit app_state" where
  "demo_stored = set_db (fst (projection_reconcile_history demo_pg (ensure_conversation demo_cid empty_db) demo_cid
     [chat_msg ''user'' ''hi''] JNull)) demo_state"

definition demo_closure :: persist_closure where
  "demo_closure = \<lparr>pc_conversation = demo_cid, pc_messages = [chat_msg ''user'' ''hi''], pc_store = True\<rparr>"

lemma demo_received:
  "receive_payload (demo_exchange m) s = (Inr demo_payload, s)"
  "identify demo_app (demo_exchange m) demo_payload s = (Inr (demo_cid, demo_payload), s)"
  "message_list (dget demo_payload ''messages'') = Inr [chat_msg ''user'' ''hi'']"
proof -
  have "loads_bytes (utf8_encode (dumps_compact (JObj demo_payload))) = Inr (JObj demo_payload)" by code_simp
  moreover have "validate_chat_payload (JObj demo_payload) = Inr ()" by code_simp
  ultimately show "receive_payload (demo_exchange m) s = (Inr demo_payload, s)"
    by (simp add: receive_payload_def parse_json_body_def demo_exchange_def)
  have "resolve_conversation_id [(CONVERSATION_HEADER, demo_cid)] demo_payload
     (Some (cf_conversation (ap_settings demo_app))) 0 = Inr (demo_cid, demo_payload)" by code_simp
  then show "identify demo_app (demo_exchange m) demo_payload s = (Inr (demo_cid, demo_payload), s)"
    by (simp add: identify_def demo_exchange_def demo_cid_def)
  show "message_list (dget demo_payload ''messages'') = Inr [chat_msg ''user'' ''hi'']" by code_simp
qed

lemma demo_identified: "identified demo_app (demo_exchange m) demo_cid demo_payload [chat_msg ''user'' ''hi'']"
  using receive_payload_Inr [OF demo_received(1)] identify_Inr [OF demo_received(2)] demo_received(3)
  by (auto simp: identified_def)

lemma demo_assembled:
  "persist_inbound demo_app (demo_exchange m) demo_cid [chat_msg ''user'' ''hi''] demo_state = (Inr True, demo_stored)"
  "assemble_context demo_app (demo_exchange m) demo_cid [chat_msg ''user'' ''hi''] JNull s = (Inr [chat_msg ''user'' ''hi''], s)"
proof -
  have "snd (projection_reconcile_history demo_pg (ensure_conversation demo_cid empty_db) demo_cid [chat_msg ''user'' ''hi''] JNull) = Inr [''0'']"
    by code_simp
  then obtain d where "projection_reconcile_history demo_pg (ensure_conversation demo_cid empty_db) demo_cid [chat_msg ''user'' ''hi''] JNull
      = (d, Inr [''0''])" by (metis prod.collapse)
  then show "persist_inbound demo_app (demo_exchange m) demo_cid [chat_msg ''user'' ''hi''] demo_state = (Inr True, demo_stored)"
    by (simp add: persist_inbound_def demo_app_def demo_exchange_def demo_state_def empty_memory_def demo_stored_def demo_service_def)
  have "planner_assemble (cf_context (ap_settings demo_app)) [] [chat_msg ''user'' ''hi''] JNull = Inr [chat_msg ''user'' ''hi'']" by code_simp
  moreover have "separate_current_request [chat_msg ''user'' ''hi''] = Inr ([], [chat_msg ''user'' ''hi''])" by code_simp
  moreover have "ap_engine demo_app = None" by (simp add: demo_app_def)
  ultimately show "assemble_context demo_app (demo_exchange m) demo_cid [chat_msg ''user'' ''hi''] JNull s = (Inr [chat_msg ''user'' ''hi''], s)"
    by (simp add: assemble_context_def assemble_with_def)
qed

lemma demo_serve: "serve demo_app (demo_exchange m) demo_state = infer demo_app (demo_exchange m) demo_closure demo_payload demo_stored"
proof -
  have p: "dget demo_payload ''tools'' = JNull" "dset ''messages'' (JArr (map JObj [chat_msg ''user'' ''hi''])) demo_payload = demo_payload"
    by (simp_all add: demo_payload_def dset_def)
  show ?thesis
    unfolding serve_def bind_s_def demo_received prod.case sum.case demo_assembled p demo_closure_def [symmetric] ..
qed

lemma demo_answer:
  "\<exists>s. llm_complete demo_app (demo_exchange m) demo_payload demo_stored = (Inr (200, [], demo_reply m), s)
     \<and> as_memory s = as_memory demo_stored \<and> as_sent s = [Post_chat demo_payload]"
proof -
  have r: "resilient_send demo_breaker_cfg demo_settings 0 0 0 (\<lambda>_. Inr x) demo_breaker = (Inr x, 1, demo_breaker)" for x :: response
    by (simp add: resilient_send_def begin_send_def with_retries_def end_send_def retry_loop.simps breaker_defs demo_settings_def demo_breaker_def demo_breaker_cfg_def)
  have d: "rq_upstream (demo_exchange m) call = (\<lambda>_. Inr \<lparr>rs_status = 200, rs_headers = [], rs_content = demo_reply m\<rparr>)"
     "rq_clock (demo_exchange m) k = 0" "ap_breaker demo_app = demo_breaker_cfg" "ap_resilience demo_app = demo_settings"
     "as_breaker demo_stored = demo_breaker" "as_sent demo_stored = []" for call k
    by (simp_all add: demo_exchange_def demo_app_def demo_stored_def set_db_def demo_state_def)
  show ?thesis
    by (simp add: llm_complete_def Resilience.complete_def send_buffered_def d r Resilience.raise_for_status_def pack_def
        filter_response_headers_def note_sent_def Let_def)
qed

lemma demo_chat_completions:
  "chat_completions demo_app (demo_exchange m) demo_state =
     (case infer demo_app (demo_exchange m) demo_closure demo_payload demo_stored of (Inl r, s1) \<Rightarrow> (r, s1) | (Inr r, s1) \<Rightarrow> (r, s1))"
  unfolding chat_completions_def demo_serve ..

lemma demo_infer:
  "\<exists>s. infer demo_app (demo_exchange m) demo_closure demo_payload demo_stored =
      finish_completion demo_app (demo_exchange m) demo_closure (200, [], demo_reply m) s
    \<and> as_memory s = as_memory demo_stored \<and> as_sent s = [Post_chat demo_payload]"
proof -
  have "dget demo_payload ''stream'' \<noteq> JBool True" by (simp add: demo_payload_def)
  then show ?thesis using demo_answer [of m] by (auto simp: infer_def)
qed

lemma demo_sent: "as_sent (snd (chat_completions demo_app (demo_exchange m) demo_state)) = [Post_chat demo_payload]"
proof -
  obtain s where s: "infer demo_app (demo_exchange m) demo_closure demo_payload demo_stored =
      finish_completion demo_app (demo_exchange m) demo_closure (200, [], demo_reply m) s" "as_sent s = [Post_chat demo_payload]"
    using demo_infer by blast
  show ?thesis using finish_completion_keeps [of demo_app "demo_exchange m" demo_closure "(200, [], demo_reply m)" s] s(2)
    unfolding demo_chat_completions s(1) by (auto split: prod.split sum.split)
qed

section \<open>Properties\<close>

text \<open>
  C1. What is sent (\<open>chat_completions\<close>): a request makes no call to the inference endpoint, or the body is valid,
  names a conversation, does not diverge from the stored history when there is a store and the database answers, and
  every attempt, of which there are at most one more than the retries, carries the payload without its conversation id
  and with messages that fit the usable budget together with the tools, keep every instruction, and end with the
  current request.
\<close>

theorem chat_sends_only_within_budget:
  assumes "context_engine (ap_settings ap) = Inr (ap_engine ap)" "chat_completions ap rq s = (r, s')"
  shows "as_sent s' = as_sent s
    \<or> (\<exists>cid payload messages out k. identified ap rq cid payload messages
        \<and> fits (usable_budget_tokens (cf_context (ap_settings ap))) messages (dget payload ''tools'') out
        \<and> k \<le> Suc (rz_max_retries (ap_resilience ap))
        \<and> as_sent s' = as_sent s @ replicate k (Post_chat (dset ''messages'' (JArr (map JObj out)) payload))
        \<and> (ap_store ap \<and> rq_db_fault rq 0 = None \<and> rq_db_fault rq 1 = None \<longrightarrow>
             (\<nexists>dv. snd (projection_reconcile_history (sv_pg (ap_service ap))
                     (ensure_conversation cid (m_db (as_memory s))) cid messages JNull) = Inl (Divergence dv))))"
proof -
  obtain r' where "serve ap rq s = (r', s')"
    using assms(2) by (auto simp: chat_completions_def split: prod.splits sum.splits)
  then show ?thesis
  proof (cases rule: serve_stages)
    case (stored cid payload messages)
    then show ?thesis using persist_inbound_keeps [of ap rq cid messages s] by simp
  next
    case (assembled cid payload messages store s1)
    have "as_sent s1 = as_sent s" using persist_inbound_keeps [of ap rq cid messages s] assembled(2) by simp
    moreover obtain r2 s2 where a: "assemble_context ap rq cid messages (dget payload ''tools'') s1 = (r2, s2)" by fastforce
    ultimately show ?thesis using assemble_context_keeps [OF a] assembled(3) a by simp
  next
    case (sent cid payload messages store s1 out s2)
    have s1: "as_sent s1 = as_sent s" using persist_inbound_keeps [of ap rq cid messages s] sent(2) by simp
    note fit = assemble_context_fits [OF assms(1) sent(3)]
    obtain k where "k \<le> Suc (rz_max_retries (ap_resilience ap))"
      "as_sent s' = as_sent s @ replicate k (Post_chat (dset ''messages'' (JArr (map JObj out)) payload))"
      using infer_sends [of ap rq "\<lparr>pc_conversation = cid, pc_messages = messages, pc_store = store\<rparr>" "dset ''messages'' (JArr (map JObj out)) payload" s2] sent(4) s1 fit
      by (metis snd_conv)
    then show ?thesis using sent(1) fit persist_inbound_no_divergence [OF sent(2)] by blast
  qed simp
qed

theorem chat_sends_only_within_budget_witness:
  "\<exists>cid payload messages out. identified demo_app (demo_exchange odd_call_message) cid payload messages
     \<and> fits 20 messages (dget payload ''tools'') out
     \<and> as_sent (snd (chat_completions demo_app (demo_exchange odd_call_message) demo_state))
         = [Post_chat (dset ''messages'' (JArr (map JObj out)) payload)]"
proof -
  have e: "context_engine (ap_settings demo_app) = Inr (ap_engine demo_app)" "usable_budget_tokens (cf_context (ap_settings demo_app)) = 20"
    by (simp_all add: demo_app_def context_engine_def usable_budget_tokens_def)
  let ?rq = "demo_exchange odd_call_message"
  have sent: "as_sent (snd (chat_completions demo_app ?rq demo_state)) = [Post_chat demo_payload]" "as_sent demo_state = []"
    by (rule demo_sent) (simp add: demo_state_def)
  from chat_sends_only_within_budget [OF e(1), of ?rq demo_state] sent
  obtain cid payload messages out k where w: "identified demo_app ?rq cid payload messages" "fits 20 messages (dget payload ''tools'') out"
    "[Post_chat demo_payload] = replicate k (Post_chat (dset ''messages'' (JArr (map JObj out)) payload))"
    unfolding e(2) by (metis prod.collapse append_Nil list.distinct(1))
  from w(3) have "Post_chat (dset ''messages'' (JArr (map JObj out)) payload) = Post_chat demo_payload"
    by (metis in_set_replicate list.set_intros(1))
  with w(1,2) sent(1) show ?thesis by metis
qed

text \<open>
  C2. The stored state: in every state the proxy can reach, by chat requests, ends of streams and operations of the memory
  service, the tables are consistent; a chat request only appends to them, leaves every other conversation and all
  memory records as they are, and keeps the chunks in step with the transcript, even when the timer cuts the indexing off.
\<close>

theorem chat_keeps_to_its_conversation:
  assumes "proxy_reachable ap s" "interrupted ap rq" "chat_completions ap rq s = (r, s')"
  shows "memory_inv (as_memory s') \<and> prefix (db_messages (m_db (as_memory s))) (db_messages (m_db (as_memory s')))
    \<and> m_memories (as_memory s') = m_memories (as_memory s)
    \<and> (\<forall>c. (\<forall>cid payload messages. identified ap rq cid payload messages \<longrightarrow> cid \<noteq> c) \<longrightarrow>
         fetch_messages c (m_db (as_memory s')) = fetch_messages c (m_db (as_memory s)))"
proof -
  note inv = proxy_reachable_inv [OF assms(1)]
  obtain r' where "serve ap rq s = (r', s')" using chat_serve [OF assms(3)] by blast
  from serve_advances [OF assms(2) inv this] show ?thesis
  proof
    assume "as_memory s' = as_memory s"
    then show ?thesis using inv by simp
  next
    assume "\<exists>cid payload messages. identified ap rq cid payload messages \<and> advances cid (as_memory s) (as_memory s')"
    then obtain cid payload messages where "identified ap rq cid payload messages" "advances cid (as_memory s) (as_memory s')"
      by blast
    then have own: "identified ap rq cid payload messages" "memory_inv (as_memory s')"
      "prefix (db_messages (m_db (as_memory s))) (db_messages (m_db (as_memory s')))" "m_memories (as_memory s') = m_memories (as_memory s)"
      "\<And>c. c \<noteq> cid \<Longrightarrow> fetch_messages c (m_db (as_memory s')) = fetch_messages c (m_db (as_memory s))"
      by (simp_all add: advances_def)
    show ?thesis
    proof (intro conjI allI impI)
      fix c
      assume "\<forall>cid payload messages. identified ap rq cid payload messages \<longrightarrow> cid \<noteq> c"
      with own(1) have "cid \<noteq> c" by metis
      then show "fetch_messages c (m_db (as_memory s')) = fetch_messages c (m_db (as_memory s))" by (intro own(5)) simp
    qed (rule own(2-4))+
  qed
qed

theorem chat_keeps_to_its_conversation_witness:
  "memory_inv (as_memory (snd (chat_completions demo_app (demo_exchange odd_call_message) demo_state)))
   \<and> m_memories (as_memory (snd (chat_completions demo_app (demo_exchange odd_call_message) demo_state))) = []"
proof -
  have start: "proxy_reachable demo_app demo_state" by (rule proxy_reachable.start [of _ "()"]) (simp add: demo_state_def)
  have "interrupted demo_app (demo_exchange odd_call_message)" by (simp add: interrupted_def demo_exchange_def)
  from chat_keeps_to_its_conversation [OF start this, of "fst (chat_completions demo_app (demo_exchange odd_call_message) demo_state)"
      "snd (chat_completions demo_app (demo_exchange odd_call_message) demo_state)"]
  show ?thesis by (simp add: demo_state_def empty_memory_def)
qed





text \<open>
  C14. The response can be lost: when the inference endpoint has answered a buffered request with a message the store raises
  on, the exception leaves the handler and the answer never reaches the client, although the payload was sent; the
  docstring of \<open>persist_assistant\<close> says that unexpected failures do not alter the response.
\<close>

theorem completion_lost_when_store_raises:
  assumes "identified ap rq cid payload messages" "persist_inbound ap rq cid messages s = (Inr True, s1)"
    and "assemble_context ap rq cid messages (dget payload ''tools'') s1 = (Inr out, s2)"
    and "dget payload ''stream'' \<noteq> JBool True"
    and "llm_complete ap rq (dset ''messages'' (JArr (map JObj out)) payload) s2 = (Inr (status, headers, body), s3)"
    and "200 \<le> status" "status < 300" "loads_bytes (bytes_of body) = Inr parsed" "completion_message parsed = Some (JObj m, md)"
    and "rq_db_fault rq 2 = None"
    and "snd (projection_reconcile_history (sv_pg (ap_service ap)) (m_db (as_memory s3)) cid (messages @ [m]) (dict_or_none md))
      = Inl (StoreRaised e)"
  shows "fst (chat_completions ap rq s) = Failed (Python e) \<and> Post_chat (dset ''messages'' (JArr (map JObj out)) payload) \<in> set (as_sent (snd (chat_completions ap rq s)))"
proof -
  let ?pc = "\<lparr>pc_conversation = cid, pc_messages = messages, pc_store = True\<rparr>"
  let ?payload = "dset ''messages'' (JArr (map JObj out)) payload"
  have "dget ?payload ''stream'' \<noteq> JBool True" using assms(4) by simp
  then have i: "infer ap rq ?pc ?payload s2 = finish_completion ap rq ?pc (status, headers, body) s3"
    using assms(5) by (simp add: infer_def)
  have f: "fst (finish_completion ap rq ?pc (status, headers, body) s3) = Inl (Failed (Python e))"
    by (rule finish_completion_raises [OF assms(6-9)]) (use assms(10,11) in simp_all)
  have "serve ap rq s = finish_completion ap rq ?pc (status, headers, body) s3"
    by (simp add: serve_identified [OF assms(1)] bind_s_def assms(2,3) i)
  then show ?thesis using f finish_completion_keeps [of ap rq ?pc "(status, headers, body)" s3] llm_complete_sent [OF assms(5)]
    by (auto simp: chat_completions_def split: prod.split sum.split)
qed

theorem completion_lost_when_store_raises_witness:
  "fst (chat_completions demo_app (demo_exchange odd_call_message) demo_state) = Failed (Python AttributeError)
   \<and> as_sent (snd (chat_completions demo_app (demo_exchange odd_call_message) demo_state)) = [Post_chat demo_payload]"
proof -
  let ?m = odd_call_message and ?ms = "[chat_msg ''user'' ''hi'']"
  have p: "dset ''messages'' (JArr (map JObj ?ms)) demo_payload = demo_payload" "dget demo_payload ''stream'' \<noteq> JBool True"
    "dget demo_payload ''tools'' = JNull" by (simp_all add: demo_payload_def dset_def)
  obtain s3 where s3: "llm_complete demo_app (demo_exchange ?m) demo_payload demo_stored = (Inr (200, [], demo_reply ?m), s3)"
    "as_memory s3 = as_memory demo_stored" using demo_answer by blast
  have body: "loads_bytes (bytes_of (demo_reply ?m)) = Inr (JObj [(''choices'', JArr [JObj [(''message'', JObj ?m)]])])"
    by code_simp
  have msg: "completion_message (JObj [(''choices'', JArr [JObj [(''message'', JObj ?m)]])]) = Some (JObj ?m, [])"
    by (simp add: completion_message_def)
  have "snd (projection_reconcile_history demo_pg (m_db (as_memory demo_stored)) demo_cid (?ms @ [?m]) JNull)
      = Inl (StoreRaised AttributeError)" by code_simp
  then have raised: "snd (projection_reconcile_history (sv_pg (ap_service demo_app)) (m_db (as_memory s3)) demo_cid (?ms @ [?m]) (dict_or_none []))
      = Inl (StoreRaised AttributeError)" by (simp add: s3(2) dict_or_none_def demo_app_def demo_service_def)
  have up: "rq_db_fault (demo_exchange ?m) 2 = None" by (simp add: demo_exchange_def)
  note lost = completion_lost_when_store_raises [OF demo_identified demo_assembled(1), where out = ?ms,
    unfolded p(1,3), OF demo_assembled(2) p(2) s3(1) _ _ body msg up raised]
  show ?thesis using lost demo_sent by simp
qed

end
