(* ===== verification/Spec2Isabelle.thy ===== *)
theory Spec2Isabelle
  imports Validation Store RateLimit Resilience EngineCorrect Capture MemoryCorrect Metrics RoutesCorrect
begin

text \<open>
  \<^bold>\<open>The program.\<close>  The context proxy (\<^verbatim>\<open>src/src/context_proxy\<close>) stands between OpenAI-compatible clients and an
  inference endpoint.  For a chat request it validates the payload, resolves the conversation, appends the new
  messages to the stored transcript in PostgreSQL, chooses the messages that fit the context budget, calls the
  endpoint behind a circuit breaker, passes the answer on, and stores and indexes it.  A memory service cuts
  transcripts into chunks, embeds chunks and memories into a vector store (Qdrant), and retrieves them for later requests.

  \<^bold>\<open>Theories and sources.\<close>
  \<^item> \<open>Prelude\<close>, \<open>PyJson\<close>, \<open>JsonParse\<close>, \<open>Sha256\<close>: what the program uses of Python.  Exceptions are values
    (\<open>pyerr + 'a\<close>, sequenced by \<open>bind_r\<close>, \<open>fold_r\<close>; with a state by \<open>bind_s\<close>, \<open>fold_s\<close>), decoded JSON is the
    datatype \<open>json\<close>, dictionaries are association lists in insertion order, \<open>json.dumps\<close> and \<open>json.loads\<close> are
    functions with their round trip.
  \<^item> \<open>Tokens\<close> (\<open>context/tokens.py\<close>), \<open>Planner\<close> (\<open>context/planner.py\<close>): cost of messages and tools, segmentation into
    turns, the raw-window planner.
  \<^item> \<open>Candidates\<close>, \<open>Ranking\<close>, \<open>Engine\<close>, \<open>EngineCorrect\<close> (\<open>context/candidates.py\<close>, \<open>query.py\<close>, \<open>scoring.py\<close>, \<open>mmr.py\<close>,
    \<open>engine.py\<close>): the assembly engine from fusion to the plan, and its correctness.
  \<^item> \<open>Validation\<close> (\<open>api/validation.py\<close>), \<open>Identity\<close> (\<open>conversation/identity.py\<close> with Python's UUIDs and SHA-1),
    \<open>Config\<close> (validators of \<open>config.py\<close>, the engine of \<open>main.py\<close>).
  \<^item> \<open>Reconciliation\<close> (\<open>conversation/reconciliation.py\<close>), \<open>Store\<close> (\<open>conversation/store.py\<close>, \<open>projection_store.py\<close>): when
    a client's list is a view of the transcript, and the transactions over the tables, a record \<open>db\<close> of rows.
  \<^item> \<open>VectorStore\<close> (\<open>memory/qdrant.py\<close>, \<open>embeddings.py\<close>, \<open>errors.py\<close>), \<open>Memory\<close>, \<open>MemoryChunks\<close>, \<open>MemoryCorrect\<close>
    (\<open>memory/service.py\<close>, \<open>models.py\<close>): the clients of the two servers and the memory service over a record \<open>memory\<close>
    of tables, watermarks and the vector store.
  \<^item> \<open>Headers\<close> (\<open>providers/headers.py\<close>), \<open>Resilience\<close> (\<open>providers/resilience.py\<close>, \<open>errors.py\<close>, \<open>llm.py\<close>),
    \<open>Capture\<close> (\<open>capture.py\<close>): header policy, breaker, retries, the provider, and the reassembly of streamed answers.
  \<^item> \<open>RateLimit\<close> (\<open>observability/ratelimit.py\<close>), \<open>Metrics\<close> (\<open>observability/metrics.py\<close>).
  \<^item> \<open>Routes\<close>, \<open>RoutesCorrect\<close> (\<open>api/routes.py\<close>, \<open>responses.py\<close>): the handlers, composed of all of the above.
  Definitions keep the names of the source, without a leading underscore; a name that clashes gets a suffix or the
  name of its class in front.

  \<^bold>\<open>State and time.\<close>  Methods under a lock and database transactions are one step on a record.  Clock readings, random
  bits and the outcomes of network calls are arguments.  Where steps of several callers interleave, a relation or a list
  of operations says so: \<open>send_step\<close> for sends in flight, \<open>store_run\<close> and \<open>memory_run\<close> for writes and service
  operations, \<open>proxy_reachable\<close> for whole requests.

  \<^bold>\<open>Interfaces.\<close>  The locale \<open>lawful_counter\<close> is what planner and engine rely on in a token counter, interpreted for
  \<open>TokenCounter\<close>; \<open>history_store\<close> is the contract of reconciling stores, interpreted for the base class and for its
  override; \<open>context_assembler\<close> is what the handler relies on in the assembly, interpreted for the engine and for the planner.

  \<^bold>\<open>What the lemmas show.\<close>
  \<^item> Budget: planner and engine keep the instructions, the request and the longest window of whole turns that fits; they
    fail exactly on a mandatory overflow; retrieved blocks are user-role, of the same conversation, within both
    caps, and repeat neither a turn of the history nor each other; the handler sends nothing else.
  \<^item> Transcript: writes only append, sequence numbers are contiguous, references stay within a conversation, an accepted
    request appends its new tail, forks that share no later message with the end of the transcript, or do not start with
    an end of it, are refused, and a chat request leaves other conversations alone.
  \<^item> Memory: the incremental chunking agrees with cutting the whole transcript, indexing catches up after outages at 100
    chunks a pass, retrieval returns active items of the conversation only, records only retire.
  \<^item> Upstream: bounded attempts, a breaker that is never pinned, streams that pass through unchanged and are reassembled
    whatever the chunk boundaries.
  \<^item> Operations: the limiter is total, bounded and keeps a client's quota while its table has room; histograms count their observations.
  \<^item> Defects: payloads that pass validation and crash the planner, a compaction that skips a message, a second probe of
    the breaker, outages that escape the memory service and one that ends a request the handler had already degraded
    for it, a lost answer, metrics that stop rendering.  Three docstrings promise more than the code does: the checks
    of tool calls of unknown types, the comparison of retrieved text with the request, and the chunks of one indexing pass.

  \<^bold>\<open>Bounds and fuel.\<close>  Text is limited to the code points 0 to 255; an input beyond the model gives the error \<open>Unmodelled\<close>,
  never a made-up value.  The JSON scanner has fuel twice the length of the text plus one, which is shown to be enough.  Every
  other loop is a structural recursion or has a termination proof.  Scores and clocks are exact numbers instead of floats.

  \<^bold>\<open>Parameters.\<close>  PostgreSQL (\<open>pg\<close>: drawn ids and the \<open>jsonb\<close> round trip; full-text rank, UUID cast, the exceptions \<open>db_fault\<close> of an
  outage), the
  HTTP servers, httpx and the event loop's timer are arguments, with what is relied on as hypotheses (\<open>jsonb_faithful\<close>,
  \<open>healthy\<close>, \<open>cast_stable\<close>, \<open>interrupted\<close>).

  \<^bold>\<open>Not modelled.\<close>  \<open>api/routes_internal.py\<close>, whose endpoints check their schema with pydantic and then make one call of an
  operation modelled here; \<open>observability/middleware.py\<close>, the ASGI wrapper around the application; \<open>logging_setup.py\<close> and all
  log records; \<open>db/database.py\<close>, the pool and the SQL migrations; the lifespan of \<open>main.py\<close>, which creates and closes clients;
  reading the environment in \<open>config.py\<close>; the protocols of \<open>providers/base.py\<close>, which have no code.
\<close>

end
